(* ===== verification/Prelude.thy ===== *)
theory Prelude
  imports Main "HOL-Library.Word"
begin

text \<open>
  Vocabulary shared by every component of the kernel model.

  \<^item> The C integer types of \<^verbatim>\<open>student-distrib/types.h\<close> as machine words.
    Return codes and other \<^verbatim>\<open>i32\<close> values that are only compared or
    passed on are HOL integers.
  \<^item> Linear memory as a function from 32-bit addresses to bytes; address arithmetic
    wraps, as it does on the machine.
  \<^item> Named collections that gather the facts each group of proofs uses.
  \<^item> Generic lemmas on words and on memory regions.
  Undefined behaviour of the C code (an access outside an object, a page fault, a loop
  that never ends) is the value \<^term>\<open>None\<close> of an option result everywhere.
\<close>

unbundle bit_operations_syntax

subsection \<open>Machine types\<close>

type_synonym u8 = "8 word"
type_synonym u16 = "16 word"
type_synonym u32 = "32 word"

type_synonym mem = "u32 \<Rightarrow> u8"

named_theorems mem_defs "unfolding rules of the memory reference operations"
named_theorems frame_simps "fields an operation leaves unchanged"

subsection \<open>Word arithmetic\<close>

lemma unat_of_nat32 [simp]: "i < 4294967296 \<Longrightarrow> unat (of_nat i :: u32) = i"
  by (simp add: unat_of_nat)

lemma unat_lt32 [simp]: "unat (x :: u32) < 4294967296"
  using unsigned_less [of x] by simp

lemma of_nat_unat_id [simp]: "of_nat (unat (x :: 'a::len word)) = x"
  by simp

lemma unat_minus_one32:
  fixes k :: u32
  assumes "k \<noteq> 0"
  shows "unat (k - 1) = unat k - 1"
  using assms by (simp add: unat_minus_one)

lemma unat_max32 [simp]: "unat (- 1 :: u32) = 4294967295"
  by (simp add: unsigned_minus_1_eq_mask mask_eq_exp_minus_1)

text \<open>The two's complement reading of a 32-bit word.\<close>

lemma sint32:
  fixes x :: u32
  shows "sint x = (if unat x < 2147483648 then int (unat x) else int (unat x) - 4294967296)"
proof -
  define n where "n = int (unat x)"
  have n: "0 \<le> n" "n < 4294967296" by (simp_all add: n_def del: of_nat_unat)
  have "x = word_of_int n" by (simp add: n_def)
  then have "sint x = (n + 2147483648) mod 4294967296 - 2147483648"
    using int_word_sint [where 'a = 32, of n] by simp
  moreover have "(n + 2147483648) mod 4294967296 =
      (if n < 2147483648 then n + 2147483648 else n - 2147483648)"
    using n mod_pos_pos_trivial [of "n - 2147483648" 4294967296]
      mod_add_self2 [of "n - 2147483648" 4294967296]
    by (auto simp: add.commute)
  moreover have "unat x < 2147483648 \<longleftrightarrow> n < 2147483648"
    by (simp add: n_def del: of_nat_unat)
  ultimately have "sint x = (if unat x < 2147483648 then n else n - 4294967296)" by simp
  then show ?thesis by (simp only: n_def)
qed

lemma unat_diff_rev:
  fixes a b :: u32
  assumes "a \<noteq> b"
  shows "unat (a - b) + unat (b - a) = 4294967296"
  using assms unat_lt32 [of a] unat_lt32 [of b]
  by (auto simp: unat_sub_if' word_unat_eq_iff simp del: unat_lt32)

lemma offset_of_nat:
  fixes a d :: u32
  shows "a = d + of_nat (unat (a - d))"
  by simp

lemma unat_offset_bound:
  fixes a b :: u32
  assumes "unat (a - b) < n"
  shows "unat a < unat b + n"
proof -
  have "unat (b + (a - b)) \<le> unat b + unat (a - b)"
    by (simp only: unat_word_ariths) (rule mod_less_eq_dividend)
  with assms show ?thesis by simp
qed

lemma unat_offset_eq:
  fixes a b :: u32
  assumes "unat (a - b) < n" "unat b + n \<le> 4294967296"
  shows "unat a = unat b + unat (a - b)"
proof -
  have "unat (b + (a - b)) = (unat b + unat (a - b)) mod 4294967296" by (simp only: unat_word_ariths) simp
  with assms show ?thesis by simp
qed

lemma add_of_nat_diff [simp]:
  fixes d :: u32
  shows "i < 4294967296 \<Longrightarrow> unat (d + of_nat i - d) = i"
  by simp

lemma add_of_nat_eq_iff:
  fixes d :: u32
  assumes "i < 4294967296" "j < 4294967296"
  shows "(d + of_nat i = d + of_nat j) = (i = j)"
proof
  assume "d + of_nat i = d + (of_nat j :: u32)"
  then have "unat (of_nat i :: u32) = unat (of_nat j :: u32)" by simp
  with assms show "i = j" by simp
qed simp

lemma ucast_down_up [simp]:
  "ucast (ucast (x :: u8) :: u32) = x" "ucast (ucast (y :: u16) :: u32) = y"
  "ucast (ucast (x :: u8) :: u16) = x"
  by (rule bit_word_eqI, auto simp: bit_simps dest: bit_imp_le_length)+

subsection \<open>Loads and stores\<close>

text \<open>Little-endian access to a 32-bit object, byte by byte.\<close>

definition load32 :: "mem \<Rightarrow> u32 \<Rightarrow> u32" where
  "load32 m a =
     ucast (m a) OR push_bit 8 (ucast (m (a + 1))) OR
     push_bit 16 (ucast (m (a + 2))) OR push_bit 24 (ucast (m (a + 3)))"

definition store32 :: "mem \<Rightarrow> u32 \<Rightarrow> u32 \<Rightarrow> mem" where
  "store32 m a w = m
     (a := ucast w, a + 1 := ucast (drop_bit 8 w),
      a + 2 := ucast (drop_bit 16 w), a + 3 := ucast (drop_bit 24 w))"

lemma load32_store32 [simp]: "load32 (store32 m a w) a = w"
proof -
  have ne: "a + 1 \<noteq> a" "a + 2 \<noteq> a" "a + 3 \<noteq> a" "a + 1 \<noteq> a + 2" "a + 1 \<noteq> a + 3" "a + 2 \<noteq> a + 3"
    by simp_all
  show ?thesis
  proof (rule bit_word_eqI)
    fix n assume "n < LENGTH(32)"
    then have n: "n < 32" by simp
    consider "n < 8" | "8 \<le> n" "n < 16" | "16 \<le> n" "n < 24" | "24 \<le> n" by linarith
    then show "bit (load32 (store32 m a w) a) n = bit w n"
      by cases (use n ne in \<open>auto simp: load32_def store32_def bit_simps\<close>)
  qed
qed

text \<open>The bytes of a region, and memory with a list of bytes written over a region.\<close>

definition bytes_at :: "mem \<Rightarrow> u32 \<Rightarrow> nat \<Rightarrow> u8 list" where
  "bytes_at m a n = map (\<lambda>i. m (a + of_nat i)) [0..<n]"

definition write_bytes :: "mem \<Rightarrow> u32 \<Rightarrow> u8 list \<Rightarrow> mem" where
  "write_bytes m d bs =
     (\<lambda>a. if unat (a - d) < length bs then bs ! unat (a - d) else m a)"

lemma length_bytes_at [simp]: "length (bytes_at m a n) = n"
  by (simp add: bytes_at_def)

lemma nth_bytes_at [simp]: "i < n \<Longrightarrow> bytes_at m a n ! i = m (a + of_nat i)"
  by (simp add: bytes_at_def)

lemma bytes_at_cong:
  "(\<And>i. i < n \<Longrightarrow> m (a + of_nat i) = m' (a + of_nat i)) \<Longrightarrow> bytes_at m a n = bytes_at m' a n"
  by (simp add: bytes_at_def)

lemma bytes_at_0 [simp]: "bytes_at m a 0 = []"
  by (simp add: bytes_at_def)

lemma bytes_at_Suc: "bytes_at m a (Suc n) = m a # bytes_at m (a + 1) n"
proof -
  have "[0..<Suc n] = 0 # map Suc [0..<n]"
    by (simp add: map_Suc_upt upt_conv_Cons del: upt_Suc)
  then show ?thesis by (simp add: bytes_at_def add.assoc o_def del: upt_Suc)
qed

lemma write_bytes_Nil [simp]: "write_bytes m d [] = m"
  by (simp add: write_bytes_def)

lemma write_bytes_in:
  "i < length bs \<Longrightarrow> i < 4294967296 \<Longrightarrow> write_bytes m d bs (d + of_nat i) = bs ! i"
  by (simp add: write_bytes_def)

lemma write_bytes_out: "length bs \<le> unat (a - d) \<Longrightarrow> write_bytes m d bs a = m a"
  by (simp add: write_bytes_def)

lemma bytes_at_write_bytes:
  "length bs < 4294967296 \<Longrightarrow> bytes_at (write_bytes m d bs) d (length bs) = bs"
  by (rule nth_equalityI) (auto simp: write_bytes_in)

lemma write_bytes_snoc:
  assumes "length bs < 4294967296"
  shows "(write_bytes m d bs)(d + of_nat (length bs) := b) = write_bytes m d (bs @ [b])"
proof
  fix a
  show "((write_bytes m d bs)(d + of_nat (length bs) := b)) a = write_bytes m d (bs @ [b]) a"
  proof (cases "a = d + of_nat (length bs)")
    case True
    with assms show ?thesis by (simp add: write_bytes_def nth_append)
  next
    case False
    then have "unat (a - d) \<noteq> length bs"
      using offset_of_nat [of a d] by metis
    with False show ?thesis by (auto simp: write_bytes_def nth_append)
  qed
qed

lemma write_bytes_Cons:
  assumes "length bs < 4294967295"
  shows "write_bytes (m(d := b)) (d + 1) bs = write_bytes m d (b # bs)"
proof
  fix a
  show "write_bytes (m(d := b)) (d + 1) bs a = write_bytes m d (b # bs) a"
  proof (cases "a = d")
    case True
    with assms show ?thesis by (simp add: write_bytes_def)
  next
    case False
    have eq: "a - (d + 1) = (a - d) - 1" by simp
    have "unat (a - (d + 1)) = unat (a - d) - 1"
      unfolding eq by (rule unat_minus_one32) (use False in simp)
    moreover have "0 < unat (a - d)" using False by (simp add: unat_gt_0)
    ultimately show ?thesis using False by (auto simp: write_bytes_def nth_Cons')
  qed
qed

lemma write_bytes_overwrite:
  "length bs = length cs \<Longrightarrow> write_bytes (write_bytes m d bs) d cs = write_bytes m d cs"
  by (simp add: write_bytes_def fun_eq_iff)

text \<open>A C string: the bytes before the first NUL.\<close>

definition cstr :: "mem \<Rightarrow> u32 \<Rightarrow> u8 list \<Rightarrow> bool" where
  "cstr m s xs \<longleftrightarrow> 0 \<notin> set xs \<and> length xs < 4294967295 \<and>
     bytes_at m s (length xs) = xs \<and> m (s + of_nat (length xs)) = 0"

lemma cstr_nth: "cstr m s xs \<Longrightarrow> i < length xs \<Longrightarrow> m (s + of_nat i) = xs ! i"
  unfolding cstr_def by (metis nth_bytes_at)

lemma cstr_nonzero: "cstr m s xs \<Longrightarrow> i < length xs \<Longrightarrow> m (s + of_nat i) \<noteq> 0"
  using cstr_nth [of m s xs i] nth_mem [of i xs] unfolding cstr_def by metis

lemma cstr_end: "cstr m s xs \<Longrightarrow> m (s + of_nat (length xs)) = 0"
  by (simp add: cstr_def)

lemma cstr_length: "cstr m s xs \<Longrightarrow> length xs < 4294967295"
  by (simp add: cstr_def)

lemma cstr_cong:
  assumes "\<And>i. i \<le> length xs \<Longrightarrow> m' (s + of_nat i) = m (s + of_nat i)"
  shows "cstr m' s xs = cstr m s xs"
proof -
  have "bytes_at m' s (length xs) = bytes_at m s (length xs)"
    by (rule bytes_at_cong) (simp add: assms)
  with assms [of "length xs"] show ?thesis by (simp add: cstr_def)
qed

end
