(* ===== verification/Machine.thy ===== *)
theory Machine
  imports Prelude
begin

text \<open>
  The part of the machine that the kernel's inline assembly touches directly
  (\<^verbatim>\<open>student-distrib/lib.h\<close>): the interrupt flag, the bytes written to I/O ports in
  the order they were written, and memory. The record is the root of a chain: the theory of
  each component extends it with that component's static variables, so that every operation
  is defined once, on any extension, and is available unchanged on the whole kernel state.
\<close>

record machine =
  int_flag :: bool
  port_log :: "(u16 \<times> u8) list"
  memory :: mem

definition cli :: "'a machine_scheme \<Rightarrow> 'a machine_scheme" where
  "cli s = s\<lparr>int_flag := False\<rparr>"

definition sti :: "'a machine_scheme \<Rightarrow> 'a machine_scheme" where
  "sti s = s\<lparr>int_flag := True\<rparr>"

text \<open>\<^verbatim>\<open>outb\<close> sends the low byte of its data; the most recent write is last.\<close>

definition outb :: "u32 \<Rightarrow> u16 \<Rightarrow> 'a machine_scheme \<Rightarrow> 'a machine_scheme" where
  "outb data port s = s\<lparr>port_log := port_log s @ [(port, ucast data)]\<rparr>"

text \<open>The byte a port's latch holds: the last one written to it.\<close>

definition last_out :: "u16 \<Rightarrow> 'a machine_scheme \<Rightarrow> u8 option" where
  "last_out port s = map_option snd (List.find (\<lambda>w. fst w = port) (rev (port_log s)))"

lemma last_out_outb [simp]:
  "last_out p (outb d q s) = (if p = q then Some (ucast d) else last_out p s)"
  by (simp add: last_out_def outb_def)

lemma outb_simps [simp, frame_simps]:
  "int_flag (outb d p s) = int_flag s" "memory (outb d p s) = memory s"
  by (simp_all add: outb_def)

lemma cli_simps [simp, frame_simps]:
  "int_flag (cli s) = False" "memory (cli s) = memory s" "port_log (cli s) = port_log s"
  by (simp_all add: cli_def)

lemma sti_simps [simp, frame_simps]:
  "int_flag (sti s) = True" "memory (sti s) = memory s" "port_log (sti s) = port_log s"
  by (simp_all add: sti_def)

end
