(* ===== verification/I8259.thy ===== *)
theory I8259
  imports Machine
begin

text \<open>
  \<^verbatim>\<open>student-distrib/i8259.c\<close>: the two interrupt controllers. The software keeps
  the two mask bytes and writes them to the data ports; a set bit masks a line. The abstract
  state is the set of lines that are enabled, and the invariant says that the hardware's mask
  registers hold what the software believes.
\<close>

record pic = machine +
  master_mask :: u8
  slave_mask :: u8

abbreviation MASTER_8259_PORT :: u16 where "MASTER_8259_PORT \<equiv> 0x20"
abbreviation MASTER_8259_DATA_PORT :: u16 where "MASTER_8259_DATA_PORT \<equiv> 0x21"
abbreviation SLAVE_8259_PORT :: u16 where "SLAVE_8259_PORT \<equiv> 0xA0"
abbreviation SLAVE_8259_DATA_PORT :: u16 where "SLAVE_8259_DATA_PORT \<equiv> 0xA1"
abbreviation ICW1 :: u32 where "ICW1 \<equiv> 0x11"
abbreviation ICW2_MASTER :: u32 where "ICW2_MASTER \<equiv> 0x20"
abbreviation ICW2_SLAVE :: u32 where "ICW2_SLAVE \<equiv> 0x28"
abbreviation ICW3_MASTER :: u32 where "ICW3_MASTER \<equiv> 0x04"
abbreviation ICW3_SLAVE :: u32 where "ICW3_SLAVE \<equiv> 0x02"
abbreviation ICW4 :: u32 where "ICW4 \<equiv> 0x01"
abbreviation SLAVE_IRQ :: u32 where "SLAVE_IRQ \<equiv> 2"
abbreviation EOI :: u32 where "EOI \<equiv> 0x60"

definition enable_irq :: "u32 \<Rightarrow> 'a pic_scheme \<Rightarrow> 'a pic_scheme" where
  "enable_irq irq_num s =
     (if irq_num < 8
      then let s' = s\<lparr>master_mask := master_mask s AND ucast (NOT (push_bit (unat irq_num) (1 :: u32)))\<rparr>
           in outb (ucast (master_mask s')) MASTER_8259_DATA_PORT s'
      else let s' = s\<lparr>slave_mask := slave_mask s AND ucast (NOT (push_bit (unat (irq_num - 8)) (1 :: u32)))\<rparr>
           in outb (ucast (slave_mask s')) SLAVE_8259_DATA_PORT s')"

definition disable_irq :: "u32 \<Rightarrow> 'a pic_scheme \<Rightarrow> 'a pic_scheme" where
  "disable_irq irq_num s =
     (if irq_num < 8
      then let s' = s\<lparr>master_mask := master_mask s OR ucast (push_bit (unat irq_num) (1 :: u32))\<rparr>
           in outb (ucast (master_mask s')) MASTER_8259_DATA_PORT s'
      else let s' = s\<lparr>slave_mask := slave_mask s OR ucast (push_bit (unat (irq_num - 8)) (1 :: u32))\<rparr>
           in outb (ucast (slave_mask s')) SLAVE_8259_DATA_PORT s')"

definition send_eoi :: "u32 \<Rightarrow> 'a pic_scheme \<Rightarrow> 'a pic_scheme" where
  "send_eoi irq_num s =
     (if irq_num < 8 then outb (irq_num OR EOI) MASTER_8259_PORT s
      else outb (EOI OR SLAVE_IRQ) MASTER_8259_PORT
             (outb ((irq_num - 8) OR EOI) SLAVE_8259_PORT s))"

definition init_i8259 :: "'a pic_scheme \<Rightarrow> 'a pic_scheme" where
  "init_i8259 s =
     (let s = outb ICW1 MASTER_8259_PORT s;
          s = outb ICW1 SLAVE_8259_PORT s;
          s = outb ICW2_MASTER MASTER_8259_DATA_PORT s;
          s = outb ICW2_SLAVE SLAVE_8259_DATA_PORT s;
          s = outb ICW3_MASTER MASTER_8259_DATA_PORT s;
          s = outb ICW3_SLAVE SLAVE_8259_DATA_PORT s;
          s = outb ICW4 MASTER_8259_DATA_PORT s;
          s = outb ICW4 SLAVE_8259_DATA_PORT s;
          s = outb (ucast (slave_mask s)) SLAVE_8259_DATA_PORT s
      in enable_irq SLAVE_IRQ s)"

subsection \<open>The set of enabled lines\<close>

definition irq_enabled :: "'a pic_scheme \<Rightarrow> nat \<Rightarrow> bool" where
  "irq_enabled s n \<longleftrightarrow> (if n < 8 then \<not> bit (master_mask s) n
     else n < 16 \<and> \<not> bit (slave_mask s) (n - 8))"

definition enabled_irqs :: "'a pic_scheme \<Rightarrow> nat set" where
  "enabled_irqs s = {n. irq_enabled s n}"

text \<open>What the mask registers hold is what the software's masks say.\<close>

definition masks_synced :: "'a pic_scheme \<Rightarrow> bool" where
  "masks_synced s \<longleftrightarrow> last_out MASTER_8259_DATA_PORT s = Some (master_mask s) \<and>
     last_out SLAVE_8259_DATA_PORT s = Some (slave_mask s)"

lemma outb_pic_simps [simp, frame_simps]:
  "master_mask (outb d p s) = master_mask s" "slave_mask (outb d p s) = slave_mask s"
  by (simp_all add: outb_def)

lemma last_out_masks [simp]:
  "last_out p (s\<lparr>master_mask := x\<rparr>) = last_out p s" "last_out p (s\<lparr>slave_mask := x\<rparr>) = last_out p s"
  by (simp_all add: last_out_def)

lemma bit_ucast_bit:
  "n < 8 \<Longrightarrow> bit (ucast (push_bit k (1 :: u32)) :: u8) n \<longleftrightarrow> n = k"
  by (auto simp: bit_simps)

lemma bit_ucast_not_bit:
  "n < 8 \<Longrightarrow> bit (ucast (NOT (push_bit k (1 :: u32))) :: u8) n \<longleftrightarrow> n \<noteq> k"
  by (auto simp: bit_simps)

lemma irq_split:
  assumes "unat (irq :: u32) < 16" "\<not> irq < 8"
  shows "unat (irq - 8) = unat irq - 8" "8 \<le> unat irq"
  using assms by (simp_all add: word_less_nat_alt unat_sub word_le_nat_alt)

lemma irq_enabled_enable:
  assumes "unat irq < 16"
  shows "irq_enabled (enable_irq irq s) n \<longleftrightarrow> n = unat irq \<or> irq_enabled s n"
proof (cases "irq < 8")
  case True
  then have "unat irq < 8" by (simp add: word_less_nat_alt)
  with True show ?thesis
    by (auto simp: irq_enabled_def enable_irq_def Let_def bit_and_iff bit_ucast_not_bit
        simp del: push_bit_of_1)
next
  case False
  with irq_split [OF assms False] assms show ?thesis
    by (auto simp: irq_enabled_def enable_irq_def Let_def bit_and_iff bit_ucast_not_bit
        simp del: push_bit_of_1)
qed

lemma irq_enabled_disable:
  assumes "unat irq < 16"
  shows "irq_enabled (disable_irq irq s) n \<longleftrightarrow> n \<noteq> unat irq \<and> irq_enabled s n"
proof (cases "irq < 8")
  case True
  then have "unat irq < 8" by (simp add: word_less_nat_alt)
  with True show ?thesis
    by (auto simp: irq_enabled_def disable_irq_def Let_def bit_or_iff bit_ucast_bit
        simp del: push_bit_of_1)
next
  case False
  with irq_split [OF assms False] assms show ?thesis
    by (auto simp: irq_enabled_def disable_irq_def Let_def bit_or_iff bit_ucast_bit
        simp del: push_bit_of_1)
qed

lemma masks_synced_enable: "masks_synced s \<Longrightarrow> masks_synced (enable_irq irq s)"
  by (auto simp: masks_synced_def enable_irq_def Let_def)

lemma masks_synced_disable: "masks_synced s \<Longrightarrow> masks_synced (disable_irq irq s)"
  by (auto simp: masks_synced_def disable_irq_def Let_def)

lemma masks_synced_eoi: "masks_synced s \<Longrightarrow> masks_synced (send_eoi irq s)"
  by (auto simp: masks_synced_def send_eoi_def)

lemma masks_synced_init: "masks_synced (init_i8259 s)"
  by (simp add: masks_synced_def init_i8259_def enable_irq_def Let_def)

lemma enabled_enable:
  "unat irq < 16 \<Longrightarrow> enabled_irqs (enable_irq irq s) = insert (unat irq) (enabled_irqs s)"
  by (auto simp: enabled_irqs_def irq_enabled_enable)

lemma enabled_disable:
  "unat irq < 16 \<Longrightarrow> enabled_irqs (disable_irq irq s) = enabled_irqs s - {unat irq}"
  by (auto simp: enabled_irqs_def irq_enabled_disable)

lemma enabled_eoi [simp]: "enabled_irqs (send_eoi irq s) = enabled_irqs s"
  by (simp add: enabled_irqs_def irq_enabled_def send_eoi_def)

lemma enabled_outb [simp]: "enabled_irqs (outb d p s) = enabled_irqs s"
  by (simp add: enabled_irqs_def irq_enabled_def)

lemma enabled_init: "enabled_irqs (init_i8259 s) = insert 2 (enabled_irqs s)"
  by (simp add: init_i8259_def Let_def enabled_enable)

subsection \<open>The interface other components use\<close>

text \<open>
  Every driver switches its own line on and relies on the others staying as they are.
\<close>

locale irq_controller =
  fixes enable disable :: "u32 \<Rightarrow> 's \<Rightarrow> 's"
    and enabled :: "'s \<Rightarrow> nat set"
    and synced :: "'s \<Rightarrow> bool"
  assumes enable_law: "unat irq < 16 \<Longrightarrow> enabled (enable irq s) = insert (unat irq) (enabled s)"
    and disable_law: "unat irq < 16 \<Longrightarrow> enabled (disable irq s) = enabled s - {unat irq}"
    and synced_enable: "synced s \<Longrightarrow> synced (enable irq s)"
    and synced_disable: "synced s \<Longrightarrow> synced (disable irq s)"
begin

lemma enabled_after_list:
  "(\<And>irq. irq \<in> set irqs \<Longrightarrow> unat irq < 16) \<Longrightarrow>
    enabled (fold enable irqs s) = enabled s \<union> unat ` set irqs"
  by (induction irqs arbitrary: s) (auto simp: enable_law)

lemma synced_after_list: "synced s \<Longrightarrow> synced (fold enable irqs s)"
  by (induction irqs arbitrary: s) (auto simp: synced_enable)

lemma enable_disable_other:
  "unat irq < 16 \<Longrightarrow> n \<noteq> unat irq \<Longrightarrow>
    n \<in> enabled (disable irq (enable irq s)) \<longleftrightarrow> n \<in> enabled s"
  by (simp add: enable_law disable_law)

end

interpretation pic: irq_controller enable_irq disable_irq enabled_irqs masks_synced
  by unfold_locales
    (simp_all add: enabled_enable enabled_disable masks_synced_enable masks_synced_disable)

subsection \<open>Properties\<close>

text \<open>
  C37: Enabling or disabling any of the sixteen interrupt lines changes that line and no
  other, and keeps the controllers' mask registers equal to the software's masks.
\<close>

theorem irq_line_switching:
  assumes "unat irq < 16" "masks_synced s"
  shows "enabled_irqs (enable_irq irq s) = insert (unat irq) (enabled_irqs s) \<and>
    enabled_irqs (disable_irq irq s) = enabled_irqs s - {unat irq} \<and>
    masks_synced (enable_irq irq s) \<and> masks_synced (disable_irq irq s)"
  using assms by (simp add: pic.enable_law pic.disable_law pic.synced_enable pic.synced_disable)

definition cold_pic :: pic where
  "cold_pic = \<lparr>int_flag = False, port_log = [], memory = (\<lambda>_. 0), master_mask = 0xFF, slave_mask = 0xFF\<rparr>"

lemma irq_line_switching_witness:
  "enabled_irqs (enable_irq 8 (init_i8259 cold_pic)) = insert 8 (enabled_irqs (init_i8259 cold_pic))"
  using irq_line_switching [of 8, OF _ masks_synced_init [of cold_pic]] by simp

end
