(* ===== verification/Paging.thy ===== *)
theory Paging
  imports I8259
begin

text \<open>
  \<^verbatim>\<open>student-distrib/paging.c\<close>: the page directories and page tables, the address
  space of each process and the remapping of video memory. A table is a function from the
  index to the 32-bit entry. The addresses of the tables are assigned by the linker
  (\<^verbatim>\<open>student-distrib/x86_desc.S\<close> reserves them, page aligned); they are fields of the
  state that no operation writes. \<open>cr3\<close> is the row of \<^verbatim>\<open>pgdir\<close> whose address was
  loaded last.
\<close>

record paging = pic +
  pgdir :: "nat \<Rightarrow> nat \<Rightarrow> u32"
  pgtbl :: "nat \<Rightarrow> u32"
  pgtbl_proc :: "nat \<Rightarrow> nat \<Rightarrow> u32"
  cr3 :: nat
  pgtbl_addr :: u32
  pgtbl_proc_addr :: u32

abbreviation PGDIR_LEN :: nat where "PGDIR_LEN \<equiv> 1024"
abbreviation PGTBL_LEN :: nat where "PGTBL_LEN \<equiv> 1024"
abbreviation PTE_SIZE :: u32 where "PTE_SIZE \<equiv> 4096"
abbreviation PG_PRESENT :: u32 where "PG_PRESENT \<equiv> 1"
abbreviation PG_RW :: u32 where "PG_RW \<equiv> 2"
abbreviation PG_USPACE :: u32 where "PG_USPACE \<equiv> 4"
abbreviation PG_SIZE :: u32 where "PG_SIZE \<equiv> 0x80"
abbreviation PG_4M_START :: u32 where "PG_4M_START \<equiv> 0x400000"
abbreviation PG_4M :: u32 where "PG_4M \<equiv> PG_4M_START OR PG_USPACE"
abbreviation ELF_LOAD_PG :: nat where "ELF_LOAD_PG \<equiv> 0x20"
abbreviation NUM_PROC :: u8 where "NUM_PROC \<equiv> 8"
abbreviation MB4 :: u32 where "MB4 \<equiv> 0x400000"
abbreviation KB4 :: u32 where "KB4 \<equiv> 0x1000"

text \<open>The address of \<^verbatim>\<open>pgtbl_proc[proc]\<close>.\<close>

definition proc_table_addr :: "'a paging_scheme \<Rightarrow> nat \<Rightarrow> u32" where
  "proc_table_addr s proc = pgtbl_proc_addr s + of_nat proc * 4096"

subsection \<open>The operations\<close>

definition init_paging :: "'a paging_scheme \<Rightarrow> 'a paging_scheme" where
  "init_paging s =
     (let t0 = (pgtbl s)(0 := PG_RW);
          t = fold (\<lambda>i t. t(i := (of_nat i * PTE_SIZE) OR PG_RW OR PG_PRESENT)) [1..<PGTBL_LEN] t0;
          d0 = (pgdir s 0)(0 := pgtbl_addr s OR PG_RW OR PG_PRESENT,
                           1 := PG_4M_START OR PG_RW OR PG_SIZE OR PG_PRESENT);
          d = fold (\<lambda>i d. d(i := (of_nat i * PG_4M_START) OR PG_RW OR PG_USPACE OR PG_SIZE))
                [2..<PGDIR_LEN] d0
      in s\<lparr>pgtbl := t, pgdir := (pgdir s)(0 := d), cr3 := 0\<rparr>)"

definition make_task_pgdir :: "u8 \<Rightarrow> 'a paging_scheme \<Rightarrow> 'a paging_scheme \<times> int" where
  "make_task_pgdir proc s =
     (if proc \<ge> NUM_PROC then (s, - 1)
      else
        let p = unat proc;
            t0 = (pgtbl_proc s p)(0 := PG_USPACE OR PG_RW);
            t = fold (\<lambda>i t. t(i := (of_nat i * PTE_SIZE) OR PG_USPACE OR PG_RW OR PG_PRESENT))
                  [1..<PGTBL_LEN] t0;
            d = (pgdir s p)
              (0 := proc_table_addr s p OR PG_USPACE OR PG_RW OR PG_PRESENT,
               1 := PG_4M OR PG_RW OR PG_SIZE OR PG_PRESENT,
               ELF_LOAD_PG := ((of_nat p + 2) * MB4) OR PG_SIZE OR PG_USPACE OR PG_RW OR PG_PRESENT)
        in (s\<lparr>pgtbl_proc := (pgtbl_proc s)(p := t), pgdir := (pgdir s)(p := d), cr3 := p\<rparr>, 0))"

text \<open>No bound is checked here; a number past the directories is outside \<^verbatim>\<open>pgdir\<close>.\<close>

definition remove_task_pgdir :: "u8 \<Rightarrow> 'a paging_scheme \<Rightarrow> ('a paging_scheme \<times> int) option" where
  "remove_task_pgdir proc s =
     (if proc \<ge> NUM_PROC then None
      else
        let p = unat proc;
            d = (pgdir s p)(ELF_LOAD_PG := pgdir s p ELF_LOAD_PG AND NOT PG_PRESENT)
        in Some (s\<lparr>pgdir := (pgdir s)(p := d), cr3 := p\<rparr>, 0))"

text \<open>The failing branch returns with interrupts still disabled.\<close>

definition map_vid_mem :: "u8 \<Rightarrow> u32 \<Rightarrow> u32 \<Rightarrow> 'a paging_scheme \<Rightarrow> 'a paging_scheme \<times> int" where
  "map_vid_mem proc virtual_address physical_address s =
     (let s = cli s in
      if proc \<ge> NUM_PROC then (s, - 1)
      else
        let p = unat proc;
            d = (pgdir s p)(unat (virtual_address div MB4) :=
                  proc_table_addr s p OR PG_USPACE OR PG_RW OR PG_PRESENT);
            t = (pgtbl_proc s p)(unat ((virtual_address mod MB4) div KB4) :=
                  physical_address OR PG_USPACE OR PG_RW OR PG_PRESENT)
        in (sti (s\<lparr>pgdir := (pgdir s)(p := d), pgtbl_proc := (pgtbl_proc s)(p := t), cr3 := p\<rparr>), 0))"

subsection \<open>The processor's page walk\<close>

text \<open>
  The architecture's reading of the tables, with 4 MiB pages enabled as
  \<^verbatim>\<open>init_paging\<close> does: bit 0 present, bit 2 user, bit 7 of a directory entry a 4 MiB
  page. A walk yields the physical address and whether user mode may use it, or
  \<^term>\<open>None\<close> for a page fault. A directory entry that points to no table of the kernel
  is read as a fault.
\<close>

definition table_at :: "'a paging_scheme \<Rightarrow> u32 \<Rightarrow> (nat \<Rightarrow> u32) option" where
  "table_at s base =
     (if base = pgtbl_addr s then Some (pgtbl s)
      else map_option (pgtbl_proc s) (List.find (\<lambda>p. proc_table_addr s p = base) [0..<8]))"

definition page_base :: "nat \<Rightarrow> u32 \<Rightarrow> u32" where
  "page_base k entry = push_bit k (drop_bit k entry)"

definition page_walk_in :: "'a paging_scheme \<Rightarrow> nat \<Rightarrow> u32 \<Rightarrow> (u32 \<times> bool) option" where
  "page_walk_in s row va =
     (let pde = pgdir s row (unat (drop_bit 22 va)) in
      if \<not> bit pde 0 then None
      else if bit pde 7 then Some (page_base 22 pde OR take_bit 22 va, bit pde 2)
      else case table_at s (page_base 12 pde) of
        None \<Rightarrow> None
      | Some t \<Rightarrow>
          let pte = t (unat (take_bit 10 (drop_bit 12 va))) in
          if \<not> bit pte 0 then None
          else Some (page_base 12 pte OR take_bit 12 va, bit pde 2 \<and> bit pte 2))"

definition page_walk :: "'a paging_scheme \<Rightarrow> u32 \<Rightarrow> (u32 \<times> bool) option" where
  "page_walk s va = page_walk_in s (cr3 s) va"

definition translate :: "'a paging_scheme \<Rightarrow> u32 \<Rightarrow> u32 option" where
  "translate s va = map_option fst (page_walk s va)"

text \<open>What the linker guarantees of the tables' addresses.\<close>

definition tables_placed :: "'a paging_scheme \<Rightarrow> bool" where
  "tables_placed s \<longleftrightarrow> take_bit 12 (pgtbl_addr s) = 0 \<and> take_bit 12 (pgtbl_proc_addr s) = 0 \<and>
     (\<forall>p<8. proc_table_addr s p \<noteq> pgtbl_addr s)"

subsection \<open>Entries\<close>

lemma fold_upd_list:
  "fold (\<lambda>i t. t(i := f i)) xs t = (\<lambda>i. if i \<in> set xs then f i else t i)"
  by (induction xs arbitrary: t) (auto simp: fun_eq_iff)

lemma fold_upd_apply:
  "fold (\<lambda>i t. t(i := f i)) [a..<b] t = (\<lambda>i. if a \<le> i \<and> i < b then f i else t i)"
  by (simp add: fold_upd_list)

lemma page_base_flags:
  assumes "take_bit k a = 0" "drop_bit k f = 0"
  shows "page_base k (a OR f) = a"
proof -
  have "push_bit k (drop_bit k a) = a" using bits_ident [of k a] assms(1) by simp
  then show ?thesis using assms(2) by (simp add: page_base_def drop_bit_or)
qed

lemma take_bit_times_4096 [simp]: "take_bit 12 (x * 4096 :: u32) = 0"
proof -
  have "x * 4096 = push_bit 12 x" by (simp add: push_bit_eq_mult)
  then show ?thesis by (simp add: take_bit_push_bit)
qed

lemma take_bit_times_4M [simp]: "take_bit 22 (x * 0x400000 :: u32) = 0"
proof -
  have "x * 0x400000 = push_bit 22 x" by (simp add: push_bit_eq_mult)
  then show ?thesis by (simp add: take_bit_push_bit)
qed

lemma aligned_low_bits:
  assumes "take_bit k (a :: u32) = 0" "n < k"
  shows "\<not> bit a n"
proof -
  have "bit (take_bit k a) n \<longleftrightarrow> bit a n" using assms(2) by (simp add: bit_take_bit_iff)
  with assms(1) show ?thesis by simp
qed

lemma proc_table_aligned [simp]:
  assumes "take_bit 12 (pgtbl_proc_addr s) = 0"
  shows "take_bit 12 (proc_table_addr s p) = 0"
proof -
  have "pgtbl_proc_addr s = drop_bit 12 (pgtbl_proc_addr s) * 4096"
    using bits_ident [of 12 "pgtbl_proc_addr s"] assms by (simp add: push_bit_eq_mult)
  then have "proc_table_addr s p = (drop_bit 12 (pgtbl_proc_addr s) + of_nat p) * 4096"
    by (simp add: proc_table_addr_def distrib_right)
  then show ?thesis by (simp only: take_bit_times_4096)
qed

lemma proc_table_inj:
  "p < 8 \<Longrightarrow> q < 8 \<Longrightarrow> proc_table_addr s p = proc_table_addr s q \<Longrightarrow> p = q"
proof -
  assume pq: "p < 8" "q < 8" and "proc_table_addr s p = proc_table_addr s q"
  then have "(of_nat (p * 4096) :: u32) = of_nat (q * 4096)" by (simp add: proc_table_addr_def)
  then have "unat (of_nat (p * 4096) :: u32) = unat (of_nat (q * 4096) :: u32)" by (rule arg_cong)
  then have "p * 4096 = q * 4096"
    using pq unat_of_nat32 [of "p * 4096"] unat_of_nat32 [of "q * 4096"] by linarith
  then show "p = q" by simp
qed

lemma table_at_pgtbl [simp]: "table_at s (pgtbl_addr s) = Some (pgtbl s)"
  by (simp add: table_at_def)

lemma table_at_proc:
  assumes "tables_placed s" "p < 8"
  shows "table_at s (proc_table_addr s p) = Some (pgtbl_proc s p)"
proof -
  have "List.find (\<lambda>q. proc_table_addr s q = proc_table_addr s p) [0..<8] = Some p"
    unfolding find_Some_iff
  proof (intro exI conjI)
    show "\<forall>j<p. proc_table_addr s ([0..<8] ! j) \<noteq> proc_table_addr s p"
    proof (intro allI impI)
      fix j assume j: "j < p"
      show "proc_table_addr s ([0..<8] ! j) \<noteq> proc_table_addr s p"
        using j assms(2) proc_table_inj [of j p s] by (auto simp del: upt_rec_numeral)
    qed
  qed (use assms(2) in auto)
  with assms show ?thesis by (simp add: table_at_def tables_placed_def)
qed

subsection \<open>Walks\<close>

lemma bits_of_entry:
  assumes "take_bit k (a :: u32) = 0" "n < k"
  shows "bit (a OR f) n = bit f n"
  using aligned_low_bits [OF assms] by (simp add: bit_or_iff)

lemma walk_4M:
  assumes "pgdir s row (unat (drop_bit 22 va)) = a OR f"
    "take_bit 22 a = 0" "drop_bit 22 f = 0" "bit f 0" "bit f 7"
  shows "page_walk_in s row va = Some (a OR take_bit 22 va, bit f 2)"
  using assms by (simp add: page_walk_in_def page_base_flags bits_of_entry [OF assms(2)])

lemma walk_4K:
  assumes "pgdir s row (unat (drop_bit 22 va)) = a OR f"
    "take_bit 12 a = 0" "drop_bit 12 f = 0" "bit f 0" "\<not> bit f 7"
    and "table_at s a = Some t"
    and "t (unat (take_bit 10 (drop_bit 12 va))) = b OR g" "take_bit 12 b = 0" "drop_bit 12 g = 0"
  shows "page_walk_in s row va =
    (if bit g 0 then Some (b OR take_bit 12 va, bit f 2 \<and> bit g 2) else None)"
  using assms by (simp add: page_walk_in_def page_base_flags bits_of_entry [OF assms(2)]
      bits_of_entry [OF assms(8)])

lemma walk_absent:
  "\<not> bit (pgdir s row (unat (drop_bit 22 va))) 0 \<Longrightarrow> page_walk_in s row va = None"
  by (simp add: page_walk_in_def)

lemma low_address:
  assumes "va < 0x400000"
  shows "drop_bit 22 va = (0 :: u32)" "of_nat (unat (take_bit 10 (drop_bit 12 va))) * 4096 = page_base 12 va"
proof -
  have va: "unat va < 2 ^ 22" using assms by (simp add: word_less_nat_alt)
  then show d: "drop_bit 22 va = 0" by (simp add: drop_bit_eq_div word_unat_eq_iff unat_div)
  have tb: "take_bit 22 va = va" using bits_ident [of 22 va] by (simp only: d) simp
  have "bit va n \<Longrightarrow> n < 22" for n
    using bit_take_bit_iff [of 22 va n] unfolding tb by simp
  then have "take_bit 10 (drop_bit 12 va) = drop_bit 12 va"
    by (intro bit_word_eqI) (force simp: bit_simps)
  then show "of_nat (unat (take_bit 10 (drop_bit 12 va))) * 4096 = page_base 12 va"
    by (simp add: page_base_def push_bit_eq_mult mult.commute)
qed

lemma high_address: "\<not> va < 0x400000 \<Longrightarrow> 0 < unat (drop_bit 22 (va :: u32))"
  by (simp add: drop_bit_eq_div word_less_nat_alt unat_div)

lemma page_base_aligned [simp]: "take_bit k (page_base k x) = 0"
  by (simp add: page_base_def take_bit_push_bit)

lemma page_base_or [simp]: "page_base k x OR take_bit k (x :: u32) = x"
  by (rule bit_word_eqI) (auto simp: page_base_def bit_simps)

lemma dir_index_lt [simp]: "unat (drop_bit 22 (va :: u32)) < 1024"
  using unat_lt32 [of va] by (simp add: drop_bit_eq_div unat_div del: unat_lt32)

lemma tbl_index_lt [simp]: "unat (take_bit 10 (x :: u32)) < 1024"
  using take_bit_nat_less_exp [of 10 "unat x"] by (simp add: unsigned_take_bit_eq)

text \<open>The low half of a table that maps every page but the first to itself.\<close>

definition identity_table :: "u32 \<Rightarrow> (nat \<Rightarrow> u32) \<Rightarrow> bool" where
  "identity_table f t \<longleftrightarrow> \<not> bit (t 0) 0 \<and>
     (\<forall>i. 0 < i \<and> i < 1024 \<longrightarrow> t i = (of_nat i * 4096) OR f)"

lemma walk_identity:
  assumes "pgdir s row 0 = a OR f" "take_bit 12 a = 0" "drop_bit 12 f = 0" "bit f 0" "\<not> bit f 7"
    and "table_at s a = Some t" and "identity_table g t" "drop_bit 12 g = 0" "bit g 0"
    and "va < 0x400000"
  shows "page_walk_in s row va = (if va < 4096 then None else Some (va, bit f 2 \<and> bit g 2))"
proof -
  let ?i = "unat (take_bit 10 (drop_bit 12 va))"
  note low = low_address [OF assms(10)]
  have i0: "va < 4096 \<longleftrightarrow> ?i = 0"
  proof
    assume "va < 4096"
    then have "va div 4096 = 0" by (simp add: word_unat_eq_iff unat_div word_less_nat_alt)
    then show "?i = 0" by (simp add: drop_bit_eq_div)
  next
    assume "?i = 0"
    then have "va = take_bit 12 va" using low(2) page_base_or [of 12 va] by simp
    then have "unat va = take_bit 12 (unat va)" by (metis unsigned_take_bit_eq)
    then have "unat va < 4096" using take_bit_nat_less_exp [of 12 "unat va"] by simp
    then show "va < 4096" by (simp add: word_less_nat_alt)
  qed
  show ?thesis
  proof (cases "?i = 0")
    case True
    with assms show ?thesis unfolding i0
      by (simp add: page_walk_in_def low(1) page_base_flags bits_of_entry [OF assms(2)]
          identity_table_def)
  next
    case False
    then have "t ?i = page_base 12 va OR g"
      using assms(7) low(2) by (auto simp: identity_table_def)
    with walk_4K [of s row va a f t "page_base 12 va" g] assms low(1) False show ?thesis
      unfolding i0 by simp
  qed
qed

subsection \<open>What each operation maps\<close>

lemma paging_const_simps [simp, frame_simps]:
  "pgtbl_addr (init_paging s) = pgtbl_addr s" "pgtbl_proc_addr (init_paging s) = pgtbl_proc_addr s"
  "pgtbl_addr (fst (make_task_pgdir p s)) = pgtbl_addr s"
  "pgtbl_proc_addr (fst (make_task_pgdir p s)) = pgtbl_proc_addr s"
  "pgtbl_addr (fst (map_vid_mem p v a s)) = pgtbl_addr s"
  "pgtbl_proc_addr (fst (map_vid_mem p v a s)) = pgtbl_proc_addr s"
  by (simp_all add: init_paging_def make_task_pgdir_def map_vid_mem_def Let_def cli_def sti_def
      del: upt_rec_numeral)

lemma tables_placed_cong:
  "pgtbl_addr t = pgtbl_addr s \<Longrightarrow> pgtbl_proc_addr t = pgtbl_proc_addr s \<Longrightarrow>
    tables_placed t = tables_placed s"
  by (simp add: tables_placed_def proc_table_addr_def)

lemma proc_table_addr_cong [simp]:
  "proc_table_addr (s\<lparr>pgdir := d\<rparr>) p = proc_table_addr s p"
  "proc_table_addr (s\<lparr>pgtbl := t\<rparr>) p = proc_table_addr s p"
  "proc_table_addr (s\<lparr>pgtbl_proc := tp\<rparr>) p = proc_table_addr s p"
  "proc_table_addr (s\<lparr>cr3 := r\<rparr>) p = proc_table_addr s p"
  "proc_table_addr (cli s) p = proc_table_addr s p"
  "proc_table_addr (sti s) p = proc_table_addr s p"
  "proc_table_addr (s\<lparr>int_flag := b\<rparr>) p = proc_table_addr s p"
  by (simp_all add: proc_table_addr_def cli_def sti_def)

text \<open>A table filled in by a loop over \<open>[a..<b]\<close>, seen from one of its fields.\<close>

lemma filled_apply:
  "t' = fold (\<lambda>i t. t(i := f i)) [a..<b] t \<Longrightarrow> t' i = (if a \<le> i \<and> i < b then f i else t i)"
  by (simp only: fold_upd_apply)

lemma init_paging_table:
  "pgtbl (init_paging s) i =
    (if 0 < i \<and> i < 1024 then (of_nat i * 4096) OR 3 else if i = 0 then PG_RW else pgtbl s i)"
proof -
  have "pgtbl (init_paging s) = fold (\<lambda>i t. t(i := (of_nat i * PTE_SIZE) OR PG_RW OR PG_PRESENT))
      [1..<PGTBL_LEN] ((pgtbl s)(0 := PG_RW))"
    by (simp add: init_paging_def Let_def del: upt_rec_numeral)
  from filled_apply [OF this, of i] show ?thesis by auto
qed

lemma init_paging_dir:
  "pgdir (init_paging s) 0 i =
    (if 2 \<le> i \<and> i < 1024 then (of_nat i * 0x400000) OR 0x86
     else if i = 0 then pgtbl_addr s OR 3 else if i = 1 then 0x400000 OR 0x83 else pgdir s 0 i)"
proof -
  have "pgdir (init_paging s) 0 =
      fold (\<lambda>i d. d(i := (of_nat i * PG_4M_START) OR PG_RW OR PG_USPACE OR PG_SIZE)) [2..<PGDIR_LEN]
        ((pgdir s 0)(0 := pgtbl_addr s OR PG_RW OR PG_PRESENT,
           1 := PG_4M_START OR PG_RW OR PG_SIZE OR PG_PRESENT))"
    by (simp add: init_paging_def Let_def del: upt_rec_numeral)
  from filled_apply [OF this, of i] show ?thesis by (auto simp: or.assoc)
qed

lemma init_paging_rest:
  "cr3 (init_paging s) = 0" "pgtbl_proc (init_paging s) = pgtbl_proc s"
  "0 < q \<Longrightarrow> pgdir (init_paging s) q = pgdir s q"
  unfolding init_paging_def Let_def by (simp_all del: upt_rec_numeral)

lemmas init_paging_tables = init_paging_table init_paging_dir init_paging_rest

lemma make_task_table:
  assumes "unat p < 8" "s' = fst (make_task_pgdir p s)"
  shows "pgtbl_proc s' (unat p) i =
    (if 0 < i \<and> i < 1024 then (of_nat i * 4096) OR 7 else if i = 0 then 6 else pgtbl_proc s (unat p) i)"
proof -
  have "pgtbl_proc s' (unat p) =
      fold (\<lambda>i t. t(i := (of_nat i * PTE_SIZE) OR PG_USPACE OR PG_RW OR PG_PRESENT)) [1..<PGTBL_LEN]
        ((pgtbl_proc s (unat p))(0 := PG_USPACE OR PG_RW))"
    using assms by (simp add: make_task_pgdir_def Let_def word_le_nat_alt del: upt_rec_numeral)
  from filled_apply [OF this, of i] show ?thesis by (auto simp: or.assoc)
qed

lemma make_task_rest:
  assumes "unat p < 8" "s' = fst (make_task_pgdir p s)"
  shows "pgdir s' (unat p) i =
      (if i = 0 then proc_table_addr s (unat p) OR 7 else if i = 1 then 0x400000 OR 0x87
       else if i = 32 then (of_nat (unat p) + 2) * 0x400000 OR 0x87 else pgdir s (unat p) i)"
    and "cr3 s' = unat p" "pgtbl s' = pgtbl s"
    and "q \<noteq> unat p \<Longrightarrow> pgdir s' q = pgdir s q" "q \<noteq> unat p \<Longrightarrow> pgtbl_proc s' q = pgtbl_proc s q"
  using assms by (auto simp: make_task_pgdir_def Let_def word_le_nat_alt or.assoc simp del: upt_rec_numeral)

lemmas make_task_pgdir_tables = make_task_table make_task_rest

lemma map_vid_mem_tables:
  assumes "unat p < 8" "s' = fst (map_vid_mem p v a s)"
  shows "pgdir s' (unat p) i =
      (if i = unat (v div MB4) then proc_table_addr s (unat p) OR 7 else pgdir s (unat p) i)"
    and "pgtbl_proc s' (unat p) i =
      (if i = unat ((v mod MB4) div KB4) then a OR 7 else pgtbl_proc s (unat p) i)"
    and "cr3 s' = unat p" "pgtbl s' = pgtbl s"
    and "q \<noteq> unat p \<Longrightarrow> pgdir s' q = pgdir s q" "q \<noteq> unat p \<Longrightarrow> pgtbl_proc s' q = pgtbl_proc s q"
  using assms by (auto simp: map_vid_mem_def Let_def or.assoc word_le_nat_alt cli_def sti_def)

lemma kernel_region:
  assumes "\<not> va < 0x400000" "va < (0x800000 :: u32)"
  shows "unat (drop_bit 22 va) = 1" "0x400000 OR take_bit 22 va = va"
proof -
  have "unat va div 4194304 = 1" using assms by (simp add: word_less_nat_alt div_nat_eqI)
  then show i: "unat (drop_bit 22 va) = 1" by (simp add: drop_bit_eq_div unat_div)
  then have "drop_bit 22 va = 1" by (metis word_unat_eq_iff unsigned_1)
  then have "page_base 22 va = 0x400000" by (simp add: page_base_def push_bit_eq_mult)
  then show "0x400000 OR take_bit 22 va = va" using page_base_or [of 22 va] by simp
qed

lemma high_index: "\<not> va < (0x800000 :: u32) \<Longrightarrow> 2 \<le> unat (drop_bit 22 va)"
proof -
  assume "\<not> va < (0x800000 :: u32)"
  then have "8388608 div 4194304 \<le> unat va div 4194304"
    by (intro div_le_mono) (simp add: word_less_nat_alt)
  then show ?thesis by (simp add: drop_bit_eq_div unat_div)
qed

lemma bit_86 [simp]: "\<not> bit (0x86 :: u32) 0" by simp

lemma init_paging_walk:
  assumes "tables_placed s"
  shows "page_walk (init_paging s) va =
    (if va < 4096 then None else if va < 0x800000 then Some (va, False) else None)"
proof -
  let ?s = "init_paging s"
  have placed: "take_bit 12 (pgtbl_addr s) = 0" using assms by (simp add: tables_placed_def)
  have d0: "pgdir ?s 0 0 = pgtbl_addr s OR 3" "pgdir ?s 0 1 = 0x400000 OR 0x83"
    by (simp_all add: init_paging_dir)
  have tbl: "identity_table 3 (pgtbl ?s)" by (simp add: identity_table_def init_paging_table)
  have small: "va < 4096 \<Longrightarrow> va < 0x400000" by (simp add: word_less_nat_alt)
  consider "va < 0x400000" | "\<not> va < 0x400000" "va < 0x800000" | "\<not> va < 0x800000" by blast
  then show ?thesis
  proof cases
    case 1
    moreover have "table_at ?s (pgtbl_addr s) = Some (pgtbl ?s)"
      using table_at_pgtbl [of ?s] by simp
    moreover have "va < 0x800000" using 1 by (simp add: word_less_nat_alt)
    ultimately show ?thesis
      using walk_identity [OF d0(1) placed _ _ _ _ tbl, of va] by (simp add: page_walk_def init_paging_rest)
  next
    case 2
    with kernel_region [OF 2] small walk_4M [of ?s 0 va "0x400000" "0x83"] d0(2) show ?thesis
      by (auto simp: page_walk_def init_paging_rest)
  next
    case 3
    with high_index [OF 3] small have "\<not> bit (pgdir ?s 0 (unat (drop_bit 22 va))) 0" "\<not> va < 4096"
      by (simp_all add: init_paging_dir bits_of_entry [of 22] word_less_nat_alt)
    with 3 show ?thesis by (simp add: page_walk_def init_paging_rest walk_absent)
  qed
qed

text \<open>The 4 MiB physical page of each process slot.\<close>

definition user_page :: "nat \<Rightarrow> u32" where
  "user_page p = (of_nat p + 2) * 0x400000"

lemma user_page_aligned [simp]: "take_bit 22 (user_page p) = 0"
  unfolding user_page_def by (rule take_bit_times_4M)

lemma make_task_pgdir_placed [simp]:
  "tables_placed (fst (make_task_pgdir p s)) = tables_placed s"
  "proc_table_addr (fst (make_task_pgdir p s)) q = proc_table_addr s q"
  by (simp_all add: tables_placed_def proc_table_addr_def)

lemma map_vid_mem_placed [simp]:
  "tables_placed (fst (map_vid_mem p v a s)) = tables_placed s"
  "proc_table_addr (fst (map_vid_mem p v a s)) q = proc_table_addr s q"
  by (simp_all add: tables_placed_def proc_table_addr_def)

text \<open>The address space of a fresh process: low memory, the kernel page and its own page.\<close>

lemma make_task_pgdir_walk:
  assumes "tables_placed s" "unat p < 8" and s': "s' = fst (make_task_pgdir p s)"
  shows "va < 0x800000 \<Longrightarrow> page_walk s' va = (if va < 4096 then None else Some (va, True))"
    and "unat (drop_bit 22 va) = 32 \<Longrightarrow>
      page_walk s' va = Some (user_page (unat p) OR take_bit 22 va, True)"
proof -
  note tabs = make_task_pgdir_tables [OF assms(2) s']
  have al: "take_bit 12 (proc_table_addr s (unat p)) = 0" using assms(1) by (simp add: tables_placed_def)
  have d: "pgdir s' (unat p) 0 = proc_table_addr s (unat p) OR 7"
    "pgdir s' (unat p) 1 = 0x400000 OR 0x87"
    "pgdir s' (unat p) 32 = user_page (unat p) OR 0x87"
    unfolding user_page_def by (simp_all only: tabs) simp_all
  have tbl: "identity_table 7 (pgtbl_proc s' (unat p))" by (simp add: identity_table_def tabs)
  have at: "table_at s' (proc_table_addr s (unat p)) = Some (pgtbl_proc s' (unat p))"
    using table_at_proc [of s' "unat p"] assms by simp
  have small: "va < 4096 \<Longrightarrow> va < 0x400000" for va :: u32 by (simp add: word_less_nat_alt)
  show "page_walk s' va = (if va < 4096 then None else Some (va, True))" if "va < 0x800000"
  proof (cases "va < 0x400000")
    case True
    with walk_identity [OF d(1) al _ _ _ at tbl] show ?thesis by (simp add: page_walk_def tabs(3))
  next
    case False
    with kernel_region [OF False that] small walk_4M [of s' "unat p" va "0x400000" "0x87"] d(2)
    show ?thesis by (auto simp: page_walk_def tabs(3))
  qed
  show "page_walk s' va = Some (user_page (unat p) OR take_bit 22 va, True)"
    if "unat (drop_bit 22 va) = 32"
    using that walk_4M [of s' "unat p" va "user_page (unat p)" "0x87"] d(3) by (simp add: page_walk_def tabs(3))
qed

text \<open>
  Remapping installs the page, and installs it in every 4 MiB region whose directory entry
  leads to the same table, not only in the one the caller asked for.
\<close>

lemma map_vid_mem_walk:
  assumes "tables_placed s" "unat p < 8" and s': "s' = fst (map_vid_mem p v a s)"
    and same_slot: "take_bit 10 (drop_bit 12 va) = (v mod MB4) div KB4"
    and same_table: "unat (drop_bit 22 va) = unat (v div MB4) \<or>
      pgdir s (unat p) (unat (drop_bit 22 va)) = proc_table_addr s (unat p) OR 7"
  shows "page_walk s' va = Some (page_base 12 a OR take_bit 12 va, True)"
proof -
  note tabs = map_vid_mem_tables [OF assms(2) s']
  have al: "take_bit 12 (proc_table_addr s (unat p)) = 0" using assms(1) by (simp add: tables_placed_def)
  have d: "pgdir s' (unat p) (unat (drop_bit 22 va)) = proc_table_addr s (unat p) OR 7"
    using same_table by (auto simp: tabs)
  have at: "table_at s' (proc_table_addr s (unat p)) = Some (pgtbl_proc s' (unat p))"
    using table_at_proc [of s' "unat p"] assms by simp
  have t: "pgtbl_proc s' (unat p) (unat (take_bit 10 (drop_bit 12 va))) =
      page_base 12 a OR (take_bit 12 a OR 7)"
    using page_base_or [of 12 a] by (simp add: tabs same_slot flip: or.assoc)
  have "drop_bit 12 (take_bit 12 a OR 7) = 0" by (simp add: drop_bit_or drop_bit_take_bit)
  with walk_4K [OF d al _ _ _ at t] show ?thesis
    by (simp add: page_walk_def tabs(3) bit_or_iff)
qed

subsection \<open>Confinement\<close>

text \<open>
  What the eight directories may hold at any time after boot: large pages are the kernel's or
  the process's own, tables are the kernel's or the process's own, and table entries stay
  below the process pages.
\<close>

definition low_entries :: "(nat \<Rightarrow> u32) \<Rightarrow> bool" where
  "low_entries t \<longleftrightarrow> (\<forall>i<1024. bit (t i) 0 \<longrightarrow> page_base 12 (t i) < 0x800000)"

definition own_entry :: "'a paging_scheme \<Rightarrow> nat \<Rightarrow> u32 \<Rightarrow> bool" where
  "own_entry s p pde \<longleftrightarrow> (bit pde 0 \<longrightarrow>
     (if bit pde 7 then page_base 22 pde = 0x400000 \<or> page_base 22 pde = user_page p
      else page_base 12 pde = pgtbl_addr s \<or> page_base 12 pde = proc_table_addr s p))"

definition dirs_ok :: "'a paging_scheme \<Rightarrow> bool" where
  "dirs_ok s \<longleftrightarrow> tables_placed s \<and> low_entries (pgtbl s) \<and>
     (\<forall>p<8. low_entries (pgtbl_proc s p) \<and> (\<forall>i<1024. own_entry s p (pgdir s p i)))"

definition in_user_page :: "nat \<Rightarrow> u32 \<Rightarrow> bool" where
  "in_user_page p a \<longleftrightarrow> page_base 22 a = user_page p"

lemma page_base_or_flags: "drop_bit k f = 0 \<Longrightarrow> page_base k (a OR f) = page_base k a"
  by (simp add: page_base_def drop_bit_or)

lemma page_base_idem: "take_bit k a = 0 \<Longrightarrow> page_base k a = a"
  using bits_ident [of k a] by (simp add: page_base_def)

lemma page_base_offset: "take_bit k (a :: u32) = 0 \<Longrightarrow> page_base k (a OR take_bit k b) = a"
  by (simp add: page_base_flags drop_bit_take_bit)

lemma base_below:
  assumes "page_base 12 x < (0x800000 :: u32)"
  shows "page_base 12 x OR take_bit 12 va < 0x800000"
proof -
  let ?y = "page_base 12 x OR take_bit 12 va"
  have "unat (drop_bit 23 ?y) = 0"
  proof -
    have "drop_bit 23 (take_bit 12 va) = 0" by (simp add: drop_bit_take_bit)
    moreover have "drop_bit 23 (page_base 12 x) = 0"
      using assms by (simp add: drop_bit_eq_div word_unat_eq_iff unat_div word_less_nat_alt)
    ultimately show ?thesis by (simp add: drop_bit_or)
  qed
  then have "unat ?y div 8388608 = 0" by (simp add: drop_bit_eq_div unat_div)
  then show ?thesis by (simp add: word_less_nat_alt)
qed

lemma unat_page_base: "unat (page_base 22 (a :: u32)) = unat a div 4194304 * 4194304"
proof -
  have "unat a div 4194304 * 4194304 < 4294967296"
    using unat_lt32 [of a] div_times_less_eq_dividend [of "unat a" 4194304] by linarith
  then show ?thesis
    by (simp add: page_base_def push_bit_eq_mult drop_bit_eq_div unat_mult_lem [THEN iffD1] unat_div
        unat_word_ariths)
qed

lemma unat_user_page: "p < 8 \<Longrightarrow> unat (user_page p) = (p + 2) * 4194304"
proof -
  assume p: "p < 8"
  have "user_page p = of_nat ((p + 2) * 4194304)" by (simp add: user_page_def)
  moreover have "unat (of_nat ((p + 2) * 4194304) :: u32) = (p + 2) * 4194304"
    by (rule unat_of_nat32) (use p in simp)
  ultimately show ?thesis by simp
qed

text \<open>No address space leads to the page of another process.\<close>

lemma walk_confined:
  assumes "dirs_ok s" "p < 8" and walk: "page_walk_in s p va = Some (pa, u)"
  shows "pa < 0x800000 \<or> in_user_page p pa"
proof -
  let ?pde = "pgdir s p (unat (drop_bit 22 va))"
  have own: "own_entry s p ?pde" using assms(1,2) by (simp add: dirs_ok_def)
  have present: "bit ?pde 0" using walk by (auto simp: page_walk_in_def Let_def split: if_splits)
  show ?thesis
  proof (cases "bit ?pde 7")
    case True
    with walk present have pa: "pa = page_base 22 ?pde OR take_bit 22 va"
      by (auto simp: page_walk_in_def Let_def)
    then have "page_base 22 pa = page_base 22 ?pde" by (simp add: page_base_offset)
    moreover have "page_base 22 ?pde = 0x400000 \<or> page_base 22 ?pde = user_page p"
      using own present True by (simp add: own_entry_def)
    moreover have "page_base 22 pa = 0x400000 \<Longrightarrow> pa < 0x800000"
      using unat_page_base [of pa] by (auto simp: word_less_nat_alt)
    ultimately show ?thesis by (auto simp: in_user_page_def)
  next
    case False
    then have base: "page_base 12 ?pde = pgtbl_addr s \<or> page_base 12 ?pde = proc_table_addr s p"
      using own present by (simp add: own_entry_def)
    then obtain t where t: "table_at s (page_base 12 ?pde) = Some t" and low: "low_entries t"
      using assms(1,2) table_at_proc [of s p] by (auto simp: dirs_ok_def)
    let ?pte = "t (unat (take_bit 10 (drop_bit 12 va)))"
    have "bit ?pte 0" and "pa = page_base 12 ?pte OR take_bit 12 va"
      using walk present False t by (auto simp: page_walk_in_def Let_def split: if_splits)
    with low base_below show ?thesis by (auto simp: low_entries_def)
  qed
qed

lemma user_pages_disjoint:
  assumes "p < 8" "q < 8" "p \<noteq> q" "in_user_page p a"
  shows "\<not> in_user_page q a" "\<not> a < 0x800000"
proof -
  have a: "unat a div 4194304 = p + 2"
    using assms(4) unat_page_base [of a] unat_user_page [OF assms(1)] by (simp add: in_user_page_def)
  show "\<not> in_user_page q a"
  proof
    assume "in_user_page q a"
    then have "unat a div 4194304 = q + 2"
      using unat_page_base [of a] unat_user_page [OF assms(2)] by (simp add: in_user_page_def)
    with a assms(3) show False by simp
  qed
  have "unat a < 8388608 \<Longrightarrow> unat a div 4194304 < 2"
    using div_less_iff_less_mult [of 4194304 "unat a" 2] by simp
  with a show "\<not> a < 0x800000" by (auto simp: word_less_nat_alt)
qed

subsection \<open>Every operation keeps the directories confined\<close>

lemma low_entries_identity:
  assumes "\<And>i. 0 < i \<Longrightarrow> i < 1024 \<Longrightarrow> t i = (of_nat i * 4096) OR f" "\<not> bit (t 0) 0" "drop_bit 12 f = 0"
  shows "low_entries t"
  unfolding low_entries_def
proof (intro allI impI)
  fix i :: nat assume i: "i < 1024" "bit (t i) 0"
  then have "0 < i" using assms(2) by (cases i) auto
  then have "page_base 12 (t i) = of_nat i * 4096" using assms(1,3) i by (simp add: page_base_flags)
  moreover have "unat (of_nat (i * 4096) :: u32) = i * 4096" by (rule unat_of_nat32) (use i in simp)
  ultimately show "page_base 12 (t i) < 0x800000" using i by (simp add: word_less_nat_alt)
qed

lemma own_entry_table:
  "take_bit 12 a = 0 \<Longrightarrow> a = pgtbl_addr s \<or> a = proc_table_addr s p \<Longrightarrow> drop_bit 12 f = 0 \<Longrightarrow>
    \<not> bit f 7 \<Longrightarrow> own_entry s p (a OR f)"
  by (auto simp: own_entry_def page_base_flags bits_of_entry [of 12])

lemma own_entry_large:
  "take_bit 22 a = 0 \<Longrightarrow> a = 0x400000 \<or> a = user_page p \<Longrightarrow> drop_bit 22 f = 0 \<Longrightarrow>
    bit f 7 \<Longrightarrow> own_entry s p (a OR f)"
  by (auto simp: own_entry_def page_base_flags bits_of_entry [of 22])

lemma own_entry_cong:
  "pgtbl_addr t = pgtbl_addr s \<Longrightarrow> pgtbl_proc_addr t = pgtbl_proc_addr s \<Longrightarrow>
    own_entry t p e = own_entry s p e"
  by (simp add: own_entry_def proc_table_addr_def)

lemma dirs_ok_init:
  assumes "tables_placed s" and "\<And>p i. p < 8 \<Longrightarrow> i < 1024 \<Longrightarrow> pgdir s p i = 0"
    and "\<And>p i. p < 8 \<Longrightarrow> i < 1024 \<Longrightarrow> pgtbl_proc s p i = 0"
  shows "dirs_ok (init_paging s)"
proof -
  have al: "take_bit 12 (pgtbl_addr s) = 0" using assms(1) by (simp add: tables_placed_def)
  have "low_entries (pgtbl (init_paging s))"
    by (rule low_entries_identity [where f = 3]) (simp_all add: init_paging_table)
  moreover have "own_entry s p (pgdir (init_paging s) p i)" if "p < 8" "i < 1024" for p i
  proof (cases "p = 0")
    case True
    consider "i = 0" | "i = 1" | "2 \<le> i" by linarith
    then show ?thesis
    proof cases
      case 1
      with True al show ?thesis by (simp add: init_paging_dir own_entry_table)
    next
      case 2
      with True own_entry_large [of "0x400000" 0 "0x83" s] show ?thesis by (simp add: init_paging_dir)
    next
      case 3
      with True that show ?thesis
        by (simp add: init_paging_dir own_entry_def bits_of_entry [of 22])
    qed
  next
    case False
    with that assms(2) show ?thesis by (simp add: init_paging_rest own_entry_def)
  qed
  ultimately show ?thesis using assms
    by (simp add: dirs_ok_def init_paging_rest low_entries_def tables_placed_cong [of "init_paging s" s]
        own_entry_cong [of "init_paging s" s])
qed

lemma dirs_ok_make:
  assumes "dirs_ok s"
  shows "dirs_ok (fst (make_task_pgdir p s))"
proof (cases "unat p < 8")
  case False
  then show ?thesis using assms by (simp add: make_task_pgdir_def word_le_nat_alt)
next
  case True
  let ?s = "fst (make_task_pgdir p s)"
  note tabs = make_task_pgdir_tables [where s = s, OF True refl]
  have al: "take_bit 12 (proc_table_addr s q) = 0" for q
    using assms by (simp add: dirs_ok_def tables_placed_def)
  have low: "low_entries (pgtbl_proc ?s (unat p))"
    by (rule low_entries_identity [where f = 7]) (simp_all add: tabs(1))
  have own: "own_entry s (unat p) (pgdir ?s (unat p) i)" if "i < 1024" for i
  proof -
    consider "i = 0" | "i = 1" | "i = 32" | "i \<notin> {0, 1, 32}" by blast
    then show ?thesis
    proof cases
      case 1
      then show ?thesis using al by (simp add: tabs own_entry_table)
    next
      case 2
      then show ?thesis using own_entry_large [of "0x400000" "unat p" "0x87" s] by (simp add: tabs)
    next
      case 3
      then have "pgdir ?s (unat p) i = user_page (unat p) OR 0x87"
        unfolding user_page_def by (simp only: tabs) simp
      then show ?thesis by (simp add: own_entry_large)
    next
      case 4
      then have "pgdir ?s (unat p) i = pgdir s (unat p) i" by (simp add: tabs)
      then show ?thesis using assms that True by (simp add: dirs_ok_def)
    qed
  qed
  have "low_entries (pgtbl_proc ?s q) \<and> (\<forall>i<1024. own_entry s q (pgdir ?s q i))" if "q < 8" for q
  proof (cases "q = unat p")
    case False
    show ?thesis unfolding tabs(5,6) [OF False] using assms that by (simp add: dirs_ok_def)
  qed (simp add: low own)
  then show ?thesis using assms tabs(4) by (simp add: dirs_ok_def own_entry_cong [of ?s s])
qed

lemma cli_paging_simps [simp, frame_simps]:
  "pgdir (cli s) = pgdir s" "pgtbl (cli s) = pgtbl s" "pgtbl_proc (cli s) = pgtbl_proc s"
  "cr3 (cli s) = cr3 s" "pgtbl_addr (cli s) = pgtbl_addr s" "pgtbl_proc_addr (cli s) = pgtbl_proc_addr s"
  by (simp_all add: cli_def)

lemma map_vid_mem_fails: "\<not> unat p < 8 \<Longrightarrow> map_vid_mem p v a s = (cli s, - 1)"
  by (simp add: map_vid_mem_def Let_def word_le_nat_alt)

lemma low_entries_upd:
  assumes "low_entries t" "page_base 12 a < 0x800000"
  shows "low_entries (t(i := a OR 7))"
  using assms by (auto simp: low_entries_def page_base_or_flags)

lemma dirs_ok_map:
  assumes "dirs_ok s" "page_base 12 a < 0x800000"
  shows "dirs_ok (fst (map_vid_mem p v a s))"
proof (cases "unat p < 8")
  case False
  then show ?thesis using assms(1)
    by (simp add: map_vid_mem_fails dirs_ok_def cli_paging_simps own_entry_cong [of "cli s" s]
        tables_placed_cong [of "cli s" s])
next
  case True
  let ?s = "fst (map_vid_mem p v a s)"
  note tabs = map_vid_mem_tables [where s = s, OF True refl]
  have al: "take_bit 12 (proc_table_addr s q) = 0" for q
    using assms by (simp add: dirs_ok_def tables_placed_def)
  have "pgtbl_proc ?s (unat p) = (pgtbl_proc s (unat p))(unat ((v mod MB4) div KB4) := a OR 7)"
    by (rule ext) (simp add: tabs)
  then have low: "low_entries (pgtbl_proc ?s (unat p))"
    using assms True by (simp add: low_entries_upd dirs_ok_def)
  have own: "own_entry s (unat p) (pgdir ?s (unat p) i)" if "i < 1024" for i
    using assms(1) that True al by (simp add: tabs own_entry_table dirs_ok_def)
  have "low_entries (pgtbl_proc ?s q) \<and> (\<forall>i<1024. own_entry s q (pgdir ?s q i))" if "q < 8" for q
  proof (cases "q = unat p")
    case False
    show ?thesis unfolding tabs(5,6) [OF False] using assms that by (simp add: dirs_ok_def)
  qed (simp add: low own)
  then show ?thesis using assms tabs(4) by (simp add: dirs_ok_def own_entry_cong [of ?s s])
qed

lemma dirs_ok_remove:
  assumes "dirs_ok s" "remove_task_pgdir p s = Some (s', r)"
  shows "dirs_ok s'"
proof -
  have p: "unat p < 8" using assms(2) by (auto simp: remove_task_pgdir_def word_le_nat_alt split: if_splits)
  have s': "s' = s\<lparr>pgdir := (pgdir s)(unat p :=
      (pgdir s (unat p))(32 := pgdir s (unat p) 32 AND NOT 1)), cr3 := unat p\<rparr>"
    using assms(2) by (auto simp: remove_task_pgdir_def Let_def split: if_splits)
  have "own_entry s (unat p) (pgdir s (unat p) 32 AND NOT 1)"
    by (simp add: own_entry_def bit_and_iff bit_not_iff)
  then show ?thesis using assms(1) p unfolding s'
    by (simp add: dirs_ok_def own_entry_def tables_placed_def)
qed

text \<open>A removed process's page faults until the slot is made again.\<close>

lemma remove_task_unmaps:
  assumes "remove_task_pgdir p s = Some (s', r)" "unat (drop_bit 22 va) = 32"
  shows "page_walk_in s' (unat p) va = None"
  using assms by (auto simp: remove_task_pgdir_def Let_def page_walk_in_def bit_and_iff bit_not_iff
      split: if_splits)

text \<open>Each operation works on its own process only.\<close>

lemma walk_in_cong:
  assumes "dirs_ok s" "dirs_ok s'" "q < 8"
    and "pgtbl_addr s' = pgtbl_addr s" "pgtbl_proc_addr s' = pgtbl_proc_addr s"
    and "pgtbl s' = pgtbl s" "pgdir s' q = pgdir s q" "pgtbl_proc s' q = pgtbl_proc s q"
  shows "page_walk_in s' q va = page_walk_in s q va"
proof -
  let ?pde = "pgdir s q (unat (drop_bit 22 va))"
  have own: "own_entry s q ?pde" using assms by (simp add: dirs_ok_def)
  have at: "table_at s' b = table_at s b" if "b = pgtbl_addr s \<or> b = proc_table_addr s q" for b
  proof -
    have "proc_table_addr s' q = proc_table_addr s q" by (simp add: proc_table_addr_def assms)
    then show ?thesis using that table_at_pgtbl [of s] table_at_pgtbl [of s'] assms
        table_at_proc [of s q] table_at_proc [of s' q]
      by (auto simp: dirs_ok_def simp del: table_at_pgtbl)
  qed
  show ?thesis
    using own by (auto simp: page_walk_in_def Let_def assms own_entry_def at split: if_splits)
qed

subsection \<open>States the kernel can reach\<close>

text \<open>
  Boot starts from cleared tables; afterwards the kernel only makes and removes address
  spaces and remaps pages below the process pages (every caller passes the address of a
  video page).
\<close>

definition cleared_tables :: "'a paging_scheme \<Rightarrow> bool" where
  "cleared_tables s \<longleftrightarrow> tables_placed s \<and>
     (\<forall>p<8. \<forall>i<1024. pgdir s p i = 0 \<and> pgtbl_proc s p i = 0)"

inductive paging_reachable :: "'a paging_scheme \<Rightarrow> bool" where
  boot: "cleared_tables s \<Longrightarrow> paging_reachable (init_paging s)"
| make: "paging_reachable s \<Longrightarrow> paging_reachable (fst (make_task_pgdir p s))"
| remove: "paging_reachable s \<Longrightarrow> remove_task_pgdir p s = Some (s', r) \<Longrightarrow> paging_reachable s'"
| remap: "paging_reachable s \<Longrightarrow> page_base 12 a < 0x800000 \<Longrightarrow>
    paging_reachable (fst (map_vid_mem p v a s))"

lemma reachable_dirs_ok: "paging_reachable s \<Longrightarrow> dirs_ok s"
  by (induction rule: paging_reachable.induct)
    (auto simp: cleared_tables_def intro: dirs_ok_init dirs_ok_make dirs_ok_map dirs_ok_remove)

text \<open>A concrete machine: tables where a linker could put them, all entries cleared.\<close>

definition cold_tables :: paging where
  "cold_tables = \<lparr>int_flag = True, port_log = [], memory = (\<lambda>_. 0), master_mask = 0xFF,
     slave_mask = 0xFF, pgdir = (\<lambda>_ _. 0), pgtbl = (\<lambda>_. 0), pgtbl_proc = (\<lambda>_ _. 0), cr3 = 0,
     pgtbl_addr = 0x410000, pgtbl_proc_addr = 0x420000\<rparr>"

lemma cold_placed: "tables_placed cold_tables"
proof -
  have "(0x420000 + of_nat p * 0x1000 :: u32) \<noteq> 0x410000" if "p < 8" for p :: nat
  proof -
    have "(0x420000 + of_nat p * 0x1000 :: u32) = of_nat (0x420000 + p * 0x1000)" by simp
    moreover have "unat (of_nat (0x420000 + p * 0x1000) :: u32) = 0x420000 + p * 0x1000"
      by (rule unat_of_nat32) (use that in simp)
    ultimately have "unat (0x420000 + of_nat p * 0x1000 :: u32) \<noteq> unat (0x410000 :: u32)" by simp
    then show ?thesis by metis
  qed
  moreover have "take_bit 12 (0x410000 :: u32) = 0" "take_bit 12 (0x420000 :: u32) = 0"
    using take_bit_times_4096 [of "0x410"] take_bit_times_4096 [of "0x420"] by simp_all
  ultimately show ?thesis by (simp add: tables_placed_def proc_table_addr_def cold_tables_def)
qed

lemma cold_cleared: "cleared_tables cold_tables"
  using cold_placed by (simp add: cleared_tables_def cold_tables_def)

lemma cold_reachable: "paging_reachable (fst (make_task_pgdir 0 (init_paging cold_tables)))"
  by (intro paging_reachable.intros cold_cleared)

subsection \<open>Properties\<close>

text \<open>
  After \<^verbatim>\<open>init_paging\<close> the processor sees exactly the first 8 MiB, each address at
  itself and for the kernel only, except that the first page (the null pointer's) faults.
\<close>

theorem boot_address_space:
  assumes "tables_placed s"
  shows "page_walk (init_paging s) va =
    (if va < 4096 then None else if va < 0x800000 then Some (va, False) else None)"
  using assms by (rule init_paging_walk)

lemma boot_address_space_witness:
  "page_walk (init_paging cold_tables) 0xB8000 = Some (0xB8000, False)"
  using boot_address_space [OF cold_placed, of "0xB8000"] by simp

text \<open>
  C31: After \<^verbatim>\<open>make_task_pgdir\<close> for a valid process whose directory held no other
  mapping, the addresses from 128 MiB lead to that process's own 4 MiB page, the first page
  still faults, everything else below 8 MiB, the kernel's page included, is mapped to itself
  and open to user mode, and nothing else is mapped.
\<close>

theorem process_address_space:
  assumes "tables_placed s" "unat p < 8"
    and "\<And>i. 2 \<le> i \<Longrightarrow> i < 1024 \<Longrightarrow> \<not> bit (pgdir s (unat p) i) 0"
  shows "page_walk (fst (make_task_pgdir p s)) va =
    (if va < 4096 then None
     else if va < 0x800000 then Some (va, True)
     else if 0x8000000 \<le> va \<and> va < 0x8400000 then Some (user_page (unat p) OR take_bit 22 va, True)
     else None)"
proof -
  let ?i = "unat (drop_bit 22 va)"
  have region: "?i = 32 \<longleftrightarrow> 0x8000000 \<le> va \<and> va < 0x8400000"
    using div_nat_eqI [of 4194304 32 "unat va"] div_times_less_eq_dividend [of "unat va" 4194304]
      dividend_less_div_times [of 4194304 "unat va"]
    by (auto simp: drop_bit_eq_div unat_div word_less_nat_alt word_le_nat_alt)
  have small: "va < 4096 \<Longrightarrow> va < 0x800000" by (simp add: word_less_nat_alt)
  have "page_walk (fst (make_task_pgdir p s)) va = None" if "\<not> va < 0x800000" "?i \<noteq> 32"
  proof -
    have "pgdir (fst (make_task_pgdir p s)) (unat p) ?i = pgdir s (unat p) ?i"
      using high_index [OF that(1)] that(2) by (simp add: make_task_rest(1) [OF assms(2) refl])
    then show ?thesis using assms(3) [of ?i] high_index [OF that(1)]
      by (simp add: page_walk_def make_task_rest(2) [where s = s, OF assms(2) refl] walk_absent)
  qed
  with region small make_task_pgdir_walk [OF assms(1,2) refl, of va] show ?thesis by auto
qed

lemma process_address_space_witness:
  "page_walk (fst (make_task_pgdir 1 cold_tables)) 0x400000 = Some (0x400000, True)"
  using process_address_space [OF cold_placed, of 1 "0x400000"] by (simp add: cold_tables_def)

text \<open>
  C3: In every state the kernel can reach, no address of one process leads to a byte of
  another process's page.
\<close>

theorem process_isolation:
  assumes "paging_reachable s" "p < 8" "q < 8" "p \<noteq> q" "page_walk_in s p va = Some (pa, u)"
  shows "\<not> in_user_page q pa"
  using walk_confined [OF reachable_dirs_ok [OF assms(1)] assms(2,5)]
    user_pages_disjoint [OF assms(2,3,4), of pa] user_pages_disjoint(2) [of q p pa] assms by blast

lemma process_isolation_witness: "\<not> in_user_page 3 (user_page 0 OR take_bit 22 0x8000000)"
proof (rule process_isolation [OF cold_reachable])
  show "page_walk_in (fst (make_task_pgdir 0 (init_paging cold_tables))) 0 0x8000000 =
      Some (user_page 0 OR take_bit 22 0x8000000, True)"
    using make_task_pgdir_walk(2) [where s = "init_paging cold_tables" and p = 0 and va = "0x8000000",
        OF _ _ refl] cold_placed make_task_rest(2) [where s = "init_paging cold_tables" and p = 0, OF _ refl]
    by (simp add: tables_placed_cong [of "init_paging cold_tables" cold_tables] page_walk_def
        drop_bit_eq_div unat_div)
qed simp_all

text \<open>
  Making, removing or remapping the address space of one process leaves every address of
  every other process where it was.
\<close>

theorem other_address_spaces_kept:
  assumes "paging_reachable s" "page_base 12 a < 0x800000" "q < 8" "q \<noteq> unat p"
  shows "page_walk_in (fst (make_task_pgdir p s)) q va = page_walk_in s q va \<and>
    page_walk_in (fst (map_vid_mem p v a s)) q va = page_walk_in s q va"
proof -
  have ok: "dirs_ok s" using assms(1) by (rule reachable_dirs_ok)
  show ?thesis
  proof (cases "unat p < 8")
    case True
    show ?thesis
      using walk_in_cong [OF ok dirs_ok_make [OF ok] assms(3), of p va]
        walk_in_cong [OF ok dirs_ok_map [OF ok assms(2)] assms(3), of p v va]
        make_task_rest(3,4,5) [where s = s, OF True refl] map_vid_mem_tables(4,5,6) [where s = s, OF True refl]
        assms(4) by simp
  next
    case False
    then show ?thesis using walk_in_cong [OF ok _ assms(3), of "cli s" va] dirs_ok_map [OF ok assms(2), of p v]
      by (simp add: map_vid_mem_fails make_task_pgdir_def word_le_nat_alt)
  qed
qed

lemma other_address_spaces_kept_witness:
  "page_walk_in (fst (map_vid_mem 1 0x8400000 0xB8000
     (fst (make_task_pgdir 0 (init_paging cold_tables))))) 0 0 =
   page_walk_in (fst (make_task_pgdir 0 (init_paging cold_tables))) 0 0"
proof -
  have "page_base 12 (0xB8000 :: u32) < 0x800000" by (simp add: page_base_def drop_bit_eq_div push_bit_eq_mult)
  from other_address_spaces_kept [OF cold_reachable this, of 0 1] show ?thesis by simp
qed

text \<open>
  C40: Mapping a video page at a fresh process's 160 MiB also maps it at the null pointer's
  page: the directory entry for 160 MiB and the one for address zero lead to the same table,
  so a process that called \<^verbatim>\<open>vidmap\<close> no longer faults on a null pointer but writes
  to the screen.
\<close>

theorem vidmap_maps_null_page:
  assumes "tables_placed s" "unat p < 8" "va < 4096"
  shows "page_walk (fst (make_task_pgdir p s)) va = None \<and>
    page_walk (fst (map_vid_mem p 0xA000000 a (fst (make_task_pgdir p s)))) va =
      Some (page_base 12 a OR take_bit 12 va, True)"
proof
  have small: "va < 0x800000" "va < 0x400000" using assms(3) by (simp_all add: word_less_nat_alt)
  then show "page_walk (fst (make_task_pgdir p s)) va = None"
    using make_task_pgdir_walk(1) [OF assms(1,2) refl] assms(3) by simp
  have "va div 4096 = 0" using assms(3) by (simp add: word_unat_eq_iff unat_div word_less_nat_alt)
  then have "take_bit 10 (drop_bit 12 va) = (0xA000000 mod MB4) div KB4"
    by (simp add: drop_bit_eq_div)
  then show "page_walk (fst (map_vid_mem p 0xA000000 a (fst (make_task_pgdir p s)))) va =
      Some (page_base 12 a OR take_bit 12 va, True)"
    using assms(1,2) low_address(1) [OF small(2)]
    by (intro map_vid_mem_walk [OF _ assms(2) refl])
      (simp_all add: make_task_rest(1) [OF assms(2) refl])
qed

lemma vidmap_maps_null_page_witness:
  "page_walk (fst (make_task_pgdir 0 cold_tables)) 0 = None \<and>
   page_walk (fst (map_vid_mem 0 0xA000000 0xB8000 (fst (make_task_pgdir 0 cold_tables)))) 0 =
     Some (page_base 12 0xB8000 OR take_bit 12 0, True)"
  by (rule vidmap_maps_null_page [OF cold_placed]) simp_all

text \<open>
  \<^verbatim>\<open>map_vid_mem\<close> switches interrupts off; it switches them back on only when
  the process number is valid, so a call that fails leaves the machine deaf.
\<close>

theorem map_vid_mem_interrupts:
  "int_flag (fst (map_vid_mem p v a s)) = (unat p < 8) \<and>
   snd (map_vid_mem p v a s) = (if unat p < 8 then 0 else - 1)"
  by (simp add: map_vid_mem_def Let_def word_le_nat_alt)

end
