(* ===== verification/Access.thy ===== *)
theory Access
  imports Paging
begin

text \<open>
  Memory as the kernel's C code sees it. A pointer is a virtual address: a byte is read
  and written through the page walk of the directory in \<open>cr3\<close>, and an address
  that the walk does not map is a page fault. The facts here reduce a buffer that is mapped
  in one piece to a region of physical memory.
\<close>

text \<open>What a read at each virtual address yields; only mapped addresses may be asked for.\<close>

definition vmem :: "'a paging_scheme \<Rightarrow> mem" where
  "vmem s = (\<lambda>va. case translate s va of Some pa \<Rightarrow> memory s pa | None \<Rightarrow> 0)"

definition accessible :: "'a paging_scheme \<Rightarrow> u32 \<Rightarrow> nat \<Rightarrow> bool" where
  "accessible s va n \<longleftrightarrow> list_all (\<lambda>i. translate s (va + of_nat i) \<noteq> None) [0..<n]"

definition put_byte :: "u32 \<Rightarrow> u8 \<Rightarrow> 'a paging_scheme \<Rightarrow> 'a paging_scheme option" where
  "put_byte va b s = map_option (\<lambda>pa. s\<lparr>memory := (memory s)(pa := b)\<rparr>) (translate s va)"

fun put_bytes :: "u32 \<Rightarrow> u8 list \<Rightarrow> 'a paging_scheme \<Rightarrow> 'a paging_scheme option" where
  "put_bytes va [] s = Some s"
| "put_bytes va (b # bs) s = Option.bind (put_byte va b s) (put_bytes (va + 1) bs)"

text \<open>A buffer of \<open>n\<close> bytes at \<open>va\<close> that lies in one piece at the physical address \<open>pa\<close>.\<close>

definition mapped_at :: "'a paging_scheme \<Rightarrow> u32 \<Rightarrow> nat \<Rightarrow> u32 \<Rightarrow> bool" where
  "mapped_at s va n pa \<longleftrightarrow> (\<forall>i<n. translate s (va + of_nat i) = Some (pa + of_nat i))"

text \<open>Translation and the view depend on the tables (and memory) only.\<close>

definition same_tables :: "'a paging_scheme \<Rightarrow> 'b paging_scheme \<Rightarrow> bool" where
  "same_tables s t \<longleftrightarrow> pgdir s = pgdir t \<and> pgtbl s = pgtbl t \<and> pgtbl_proc s = pgtbl_proc t \<and>
     cr3 s = cr3 t \<and> pgtbl_addr s = pgtbl_addr t \<and> pgtbl_proc_addr s = pgtbl_proc_addr t"

lemma translate_cong:
  assumes "same_tables s t"
  shows "translate s = translate t"
proof
  fix va
  have "table_at s = table_at t"
    using assms by (intro ext) (simp add: table_at_def proc_table_addr_def same_tables_def)
  then show "translate s va = translate t va"
    using assms by (simp add: translate_def page_walk_def page_walk_in_def same_tables_def cong: if_cong)
qed

lemma vmem_cong: "same_tables s t \<Longrightarrow> memory s = memory t \<Longrightarrow> vmem s = vmem t"
  by (simp add: vmem_def translate_cong [of s t] cong: option.case_cong)

lemma translate_memory [simp]: "translate (s\<lparr>memory := m\<rparr>) = translate s"
  by (rule translate_cong) (simp add: same_tables_def)

lemma put_byte_mapped:
  "translate s va = Some pa \<Longrightarrow> put_byte va b s = Some (s\<lparr>memory := (memory s)(pa := b)\<rparr>)"
  by (simp add: put_byte_def)

lemma mapped_at_memory [simp]: "mapped_at (s\<lparr>memory := m\<rparr>) va n pa = mapped_at s va n pa"
  by (simp add: mapped_at_def)

lemma mapped_at_nth: "mapped_at s va n pa \<Longrightarrow> i < n \<Longrightarrow> translate s (va + of_nat i) = Some (pa + of_nat i)"
  by (simp add: mapped_at_def)

lemma mapped_at_tail: "mapped_at s va (Suc n) pa \<Longrightarrow> mapped_at s (va + 1) n (pa + 1)"
  unfolding mapped_at_def
proof (intro allI impI)
  fix i assume "\<forall>i<Suc n. translate s (va + of_nat i) = Some (pa + of_nat i)" "i < n"
  then have "translate s (va + of_nat (Suc i)) = Some (pa + of_nat (Suc i))" by blast
  then show "translate s (va + 1 + of_nat i) = Some (pa + 1 + of_nat i)" by (simp add: add.assoc)
qed

lemma put_bytes_mapped:
  assumes "mapped_at s va (length bs) pa" "length bs < 4294967296"
  shows "put_bytes va bs s = Some (s\<lparr>memory := write_bytes (memory s) pa bs\<rparr>)"
  using assms
proof (induction bs arbitrary: va pa s)
  case (Cons b bs)
  have "translate s va = Some pa" using mapped_at_nth [OF Cons.prems(1), of 0] by simp
  moreover have "mapped_at s (va + 1) (length bs) (pa + 1)"
    using mapped_at_tail Cons.prems(1) by simp
  ultimately show ?case
    using Cons.IH [of "s\<lparr>memory := (memory s)(pa := b)\<rparr>"] Cons.prems(2)
    by (simp add: put_byte_mapped fun_upd_def flip: write_bytes_Cons)
qed simp

lemma vmem_mapped: "translate s va = Some pa \<Longrightarrow> vmem s va = memory s pa"
  by (simp add: vmem_def)

text \<open>A write leaves the view of every address that leads elsewhere as it was.\<close>

lemma vmem_write_outside:
  assumes "\<And>pa. translate s va = Some pa \<Longrightarrow> length bs \<le> unat (pa - base)"
  shows "vmem (s\<lparr>memory := write_bytes (memory s) base bs\<rparr>) va = vmem s va"
  using assms by (auto simp: vmem_def write_bytes_out split: option.splits)

lemma vmem_write_inside:
  assumes "mapped_at s va n base" "length bs = n" "n < 4294967296" "i < n"
  shows "vmem (s\<lparr>memory := write_bytes (memory s) base bs\<rparr>) (va + of_nat i) = bs ! i"
  using mapped_at_nth [OF assms(1,4)] assms by (simp add: vmem_def write_bytes_in)

lemma bytes_at_vmem_write:
  assumes "mapped_at s va (length bs) base" "length bs < 4294967296"
  shows "bytes_at (vmem (s\<lparr>memory := write_bytes (memory s) base bs\<rparr>)) va (length bs) = bs"
  by (rule nth_equalityI) (use vmem_write_inside [OF assms(1) refl assms(2)] in auto)

lemma accessible_mapped: "mapped_at s va n pa \<Longrightarrow> accessible s va n"
  by (auto simp: accessible_def mapped_at_def list_all_iff)

lemma aligned_plus:
  assumes "take_bit 12 a = 0" "i < 4096"
  shows "take_bit 12 (a + of_nat i) = (of_nat i :: u32)" "drop_bit 12 (a + of_nat i) = drop_bit 12 (a :: u32)"
    "drop_bit 22 (a + of_nat i) = drop_bit 22 a" "a + of_nat i = a OR of_nat i"
proof -
  have small: "take_bit 12 (of_nat i) = (of_nat i :: u32)" "drop_bit 12 (of_nat i) = (0 :: u32)"
    using assms(2) by (simp_all add: take_bit_eq_mod drop_bit_eq_div word_unat_eq_iff unat_mod unat_div unat_of_nat32)
  have "\<not> bit a n \<or> \<not> bit (of_nat i :: u32) n" for n
  proof (cases "n < 12")
    case True
    then show ?thesis using aligned_low_bits [OF assms(1)] by blast
  next
    case False
    have "\<not> bit (take_bit 12 (of_nat i) :: u32) n" using False by (simp add: bit_take_bit_iff)
    then show ?thesis unfolding small(1) by blast
  qed
  then show eq: "a + of_nat i = a OR of_nat i" by (rule disjunctive_add)
  show "take_bit 12 (a + of_nat i) = of_nat i" unfolding eq by (simp add: take_bit_or assms(1) small)
  show d: "drop_bit 12 (a + of_nat i) = drop_bit 12 a" unfolding eq by (simp add: drop_bit_or small)
  have "drop_bit 10 (drop_bit 12 (a + of_nat i)) = drop_bit 10 (drop_bit 12 a)" unfolding d ..
  then show "drop_bit 22 (a + of_nat i) = drop_bit 22 a" by (simp only: drop_bit_drop_bit) simp
qed

text \<open>One page of the process whose directory is loaded, in the table of its low memory.\<close>

lemma table_page_mapped:
  assumes "tables_placed s" "cr3 s < 8" "take_bit 12 v = 0" "take_bit 12 a = 0" "n \<le> 4096"
    and dir: "pgdir s (cr3 s) (unat (drop_bit 22 v)) = proc_table_addr s (cr3 s) OR 7"
    and slot: "pgtbl_proc s (cr3 s) (unat (take_bit 10 (drop_bit 12 v))) = a OR 7"
  shows "mapped_at s v n a"
  unfolding mapped_at_def
proof (intro allI impI)
  fix i assume "i < n"
  then have i: "i < 4096" using assms(5) by simp
  note v = aligned_plus [OF assms(3) i] and a = aligned_plus [OF assms(4) i]
  have al: "take_bit 12 (proc_table_addr s (cr3 s)) = 0" using assms(1,2) by (simp add: tables_placed_def)
  have at: "table_at s (proc_table_addr s (cr3 s)) = Some (pgtbl_proc s (cr3 s))"
    by (rule table_at_proc [OF assms(1,2)])
  have "page_walk_in s (cr3 s) (v + of_nat i) = (if bit (7 :: u32) 0
      then Some (a OR take_bit 12 (v + of_nat i), bit (7 :: u32) 2 \<and> bit (7 :: u32) 2) else None)"
    by (rule walk_4K [OF _ al _ _ _ at _ assms(4)]) (use dir slot v in simp_all)
  then show "translate s (v + of_nat i) = Some (a + of_nat i)"
    by (simp add: translate_def page_walk_def v(1) a(4))
qed

lemma map_vid_mem_mapped:
  assumes "tables_placed s" "unat p < 8" "take_bit 12 v = 0" "take_bit 12 a = 0" "n \<le> 4096"
  shows "mapped_at (fst (map_vid_mem p v a s)) v n a"
proof (rule table_page_mapped)
  let ?s = "fst (map_vid_mem p v a s)"
  note tabs = map_vid_mem_tables [OF assms(2) refl, where s = s and v = v and a = a]
  have slot: "take_bit 10 (drop_bit 12 v) = (v mod MB4) div KB4" "drop_bit 22 v = v div MB4"
    by (simp_all add: take_bit_eq_mod drop_bit_eq_div word_unat_eq_iff unat_div unat_mod mod_mult2_eq [of "unat v" 4096 1024, simplified])
  show "tables_placed ?s" "cr3 ?s < 8" using assms(1,2) tabs(3) by simp_all
  show "pgdir ?s (cr3 ?s) (unat (drop_bit 22 v)) = proc_table_addr ?s (cr3 ?s) OR 7"
    "pgtbl_proc ?s (cr3 ?s) (unat (take_bit 10 (drop_bit 12 v))) = a OR 7"
    unfolding slot tabs(3) by (simp_all add: tabs(1,2))
qed (use assms in simp_all)

end
