(* ===== verification/Process.thy ===== *)
theory Process
  imports Access
begin

text \<open>
  Processes (\<^verbatim>\<open>student-distrib/syscall.h\<close> and the process part of
  \<^verbatim>\<open>syscall.c\<close>): the process control blocks, the bitmap \<^verbatim>\<open>procs\<close> of
  process numbers in use, and the kernel stack the processor switches to. A block lives at the
  bottom of the 8 KiB below 8 MiB that its number selects; the model keeps the blocks in a map
  from the number, and a pointer to a block is the number itself (\<open>None\<close> for NULL).
\<close>

abbreviation FD_CNT :: nat where "FD_CNT \<equiv> 8"
abbreviation FD_START :: nat where "FD_START \<equiv> 2"
abbreviation ARGS_SIZE :: nat where "ARGS_SIZE \<equiv> 128"
abbreviation FD_IN_USE :: u32 where "FD_IN_USE \<equiv> 1"
abbreviation FD_NOT_IN_USE :: u32 where "FD_NOT_IN_USE \<equiv> 0"
abbreviation FIRST_PID :: u8 where "FIRST_PID \<equiv> 0x80"
abbreviation MAX_PID_COUNT :: nat where "MAX_PID_COUNT \<equiv> 8"
abbreviation MB8 :: u32 where "MB8 \<equiv> 0x800000"
abbreviation KB8 :: u32 where "KB8 \<equiv> 0x2000"
abbreviation ADDRESS_SIZE :: u32 where "ADDRESS_SIZE \<equiv> 4"

text \<open>The five constant tables of file operations.\<close>

datatype fops = Std_in_fops | Std_out_fops | Rtc_fops | Fs_fops | Dir_fops

record file_desc =
  jumptable :: "fops option"
  inode :: u32
  file_position :: u32
  flags :: u32

text \<open>\<^verbatim>\<open>argv[0]\<close> and \<^verbatim>\<open>argv[1]\<close> point into \<^verbatim>\<open>raw_argv\<close>: they are offsets.\<close>

record pcb =
  fds :: "file_desc list"
  raw_argv :: "u8 list"
  argv0 :: "nat option"
  argv1 :: "nat option"
  pid :: u32
  parent_ksp :: u32
  parent_kbp :: u32
  ksp :: u32
  kbp :: u32
  parent_pid :: int
  parent_pcb :: "u8 option"
  child_pcb :: "u8 option"
  child_return :: u32

record process = paging +
  procs :: u8
  running_pid :: u8
  program_exception :: u8
  pcbs :: "u8 \<Rightarrow> pcb"
  tss_esp0 :: u32

definition get_pcb :: "u8 \<Rightarrow> u32" where
  "get_pcb proc = MB8 - (ucast proc + 1) * KB8"

definition get_current_pcb :: "'a process_scheme \<Rightarrow> pcb" where
  "get_current_pcb s = pcbs s (running_pid s)"

definition update_pcb :: "u8 \<Rightarrow> (pcb \<Rightarrow> pcb) \<Rightarrow> 'a process_scheme \<Rightarrow> 'a process_scheme" where
  "update_pcb p f s = s\<lparr>pcbs := (pcbs s)(p := f (pcbs s p))\<rparr>"

definition update_fd :: "nat \<Rightarrow> (file_desc \<Rightarrow> file_desc) \<Rightarrow> 'a process_scheme \<Rightarrow> 'a process_scheme" where
  "update_fd fd f s =
     update_pcb (running_pid s) (\<lambda>p. p\<lparr>fds := (fds p)[fd := f (fds p ! fd)]\<rparr>) s"

definition set_program_exception :: "u8 \<Rightarrow> 'a process_scheme \<Rightarrow> 'a process_scheme" where
  "set_program_exception v s = s\<lparr>program_exception := v\<rparr>"

definition set_pid :: "u8 \<Rightarrow> 'a process_scheme \<Rightarrow> 'a process_scheme" where
  "set_pid p s = s\<lparr>running_pid := p\<rparr>"

text \<open>Loads the current block's directory; a number past the directories is outside them.\<close>

definition flush_tlb :: "'a process_scheme \<Rightarrow> 'a process_scheme option" where
  "flush_tlb s =
     (let p = pid (get_current_pcb s) in if p \<ge> 8 then None else Some (s\<lparr>cr3 := unat p\<rparr>))"

text \<open>The kernel stack pointer that \<^verbatim>\<open>execute\<close>, \<^verbatim>\<open>halt\<close> and the scheduler install.\<close>

definition kernel_stack :: "u32 \<Rightarrow> u32" where
  "kernel_stack p = MB8 - KB8 * (p + 1) - ADDRESS_SIZE"

text \<open>
  The search of \<^verbatim>\<open>execute\<close> for a free process number: the mask starts at the top bit
  and moves right. The result is the bitmap with the bit set and the number.
\<close>

fun alloc_pid_loop :: "u8 \<Rightarrow> u8 \<Rightarrow> u8 \<Rightarrow> nat \<Rightarrow> (u8 \<times> u8) option" where
  "alloc_pid_loop used i m 0 = None"
| "alloc_pid_loop used i m (Suc left) =
     (if m AND used = 0 then Some (used OR m, i)
      else alloc_pid_loop used (i + 1) (drop_bit 1 m) left)"

definition alloc_pid :: "u8 \<Rightarrow> (u8 \<times> u8) option" where
  "alloc_pid used = alloc_pid_loop used 0 FIRST_PID MAX_PID_COUNT"

text \<open>The release in \<^verbatim>\<open>halt\<close>; a shift of 32 or more is undefined and never reached.\<close>

definition free_pid :: "u32 \<Rightarrow> u8 \<Rightarrow> u8" where
  "free_pid p used = used AND NOT (drop_bit (unat p) FIRST_PID)"

subsection \<open>The bitmap as a set of process numbers\<close>

definition used_pids :: "u8 \<Rightarrow> nat set" where
  "used_pids used = {i. i < 8 \<and> bit used (7 - i)}"

lemma first_pid_bit: "drop_bit i FIRST_PID = (if i < 8 then push_bit (7 - i) 1 else 0)"
proof (rule bit_word_eqI)
  fix n assume n: "n < LENGTH(8)"
  have first: "bit FIRST_PID k \<longleftrightarrow> k = 7" for k
  proof -
    have "bit (push_bit 7 1 :: u8) k \<longleftrightarrow> k = 7" by (auto simp: bit_simps simp del: push_bit_of_1)
    then show ?thesis by simp
  qed
  have "bit (drop_bit i FIRST_PID) n \<longleftrightarrow> i + n = 7"
    by (simp only: bit_drop_bit_eq o_def first)
  then show "bit (drop_bit i FIRST_PID) n = bit (if i < 8 then push_bit (7 - i) 1 else 0 :: u8) n"
    using n by (auto simp: bit_push_bit_iff bit_1_iff simp del: push_bit_of_1)
qed

lemma and_single_bit: "k < 8 \<Longrightarrow> push_bit k 1 AND x = 0 \<longleftrightarrow> \<not> bit (x :: u8) k"
proof -
  assume k: "k < 8"
  have "bit (push_bit k 1 AND x) n \<longleftrightarrow> n = k \<and> n < 8 \<and> bit x k" for n
    by (auto simp: bit_simps)
  then show ?thesis using k by (metis bit_0_eq bot_apply bot_bool_def bit_word_eqI)
qed

lemma used_pids_alloc: "i < 8 \<Longrightarrow> used_pids (x OR push_bit (7 - i) 1) = insert i (used_pids x)"
  by (auto simp: used_pids_def bit_simps)

lemma used_pids_free: "used_pids (free_pid p x) = used_pids x - {unat p}"
  by (auto simp: used_pids_def free_pid_def first_pid_bit bit_simps)

lemma finite_used_pids [simp]: "finite (used_pids x)"
  by (rule finite_subset [of _ "{..<8}"]) (auto simp: used_pids_def)

lemma alloc_pid_loop_least:
  assumes "i + n = 8" "\<And>j. j < i \<Longrightarrow> j \<in> used_pids x"
  shows "alloc_pid_loop x (of_nat i) (drop_bit i FIRST_PID) n =
    (if \<exists>j<8. j \<notin> used_pids x
     then let j = LEAST j. j \<notin> used_pids x in Some (x OR push_bit (7 - j) 1, of_nat j) else None)"
  using assms
proof (induction n arbitrary: i)
  case 0
  then show ?case by (auto simp: Let_def)
next
  case (Suc n)
  have i: "i < 8" using Suc.prems(1) by simp
  show ?case
  proof (cases "i \<in> used_pids x")
    case True
    then have "\<not> drop_bit i FIRST_PID AND x = 0"
      using i by (simp add: used_pids_def first_pid_bit and_single_bit del: push_bit_of_1)
    then have "alloc_pid_loop x (of_nat i) (drop_bit i FIRST_PID) (Suc n) =
        alloc_pid_loop x (of_nat (Suc i)) (drop_bit (Suc i) FIRST_PID) n"
      by (simp only: alloc_pid_loop.simps if_False drop_bit_drop_bit of_nat_Suc plus_1_eq_Suc)
        (simp add: add.commute)
    also have "\<dots> = (if \<exists>j<8. j \<notin> used_pids x
      then let j = LEAST j. j \<notin> used_pids x in Some (x OR push_bit (7 - j) 1, of_nat j) else None)"
      using Suc.prems True by (intro Suc.IH) (auto simp: less_Suc_eq)
    finally show ?thesis .
  next
    case False
    then have least: "(LEAST j. j \<notin> used_pids x) = i"
      using Suc.prems(2) by (intro Least_equality) (auto simp: not_less [symmetric])
    moreover have "\<not> bit x (7 - i)" using False i by (simp add: used_pids_def)
    ultimately show ?thesis using i False
      by (auto simp: first_pid_bit and_single_bit Let_def simp del: push_bit_of_1)
  qed
qed

lemma alloc_pid_least:
  "alloc_pid x = (if \<exists>j<8. j \<notin> used_pids x
     then let j = LEAST j. j \<notin> used_pids x in Some (x OR push_bit (7 - j) 1, of_nat j) else None)"
  using alloc_pid_loop_least [of 0 8 x] by (simp add: alloc_pid_def)

lemma alloc_pid_Some:
  assumes "alloc_pid x = Some (x', p)"
  shows "unat p < 8" "unat p \<notin> used_pids x" "used_pids x' = insert (unat p) (used_pids x)"
    "\<And>j. j < unat p \<Longrightarrow> j \<in> used_pids x"
proof -
  let ?j = "LEAST j. j \<notin> used_pids x"
  from assms obtain j where j: "j < 8" "j \<notin> used_pids x"
    by (auto simp: alloc_pid_least split: if_splits)
  have least: "?j \<notin> used_pids x" "?j \<le> j" using j(2) by (rule LeastI, rule Least_le)
  then have lt: "?j < 8" using j(1) by simp
  have xp: "x' = x OR push_bit (7 - ?j) 1" "p = of_nat ?j"
    using assms j by (auto simp: alloc_pid_least Let_def split: if_splits)
  have p: "unat p = ?j" using xp(2) lt by (simp add: unat_of_nat)
  show "unat p < 8" "unat p \<notin> used_pids x" using p lt least by simp_all
  show "used_pids x' = insert (unat p) (used_pids x)" unfolding p xp(1) by (rule used_pids_alloc [OF lt])
  show "j \<in> used_pids x" if "j < unat p" for j using that not_less_Least unfolding p by blast
qed

lemma alloc_pid_None: "alloc_pid x = None \<longleftrightarrow> used_pids x = {..<8}"
proof -
  have "used_pids x \<subseteq> {..<8}" by (auto simp: used_pids_def)
  moreover have "alloc_pid x = None \<longleftrightarrow> (\<forall>j<8. j \<in> used_pids x)"
    by (auto simp: alloc_pid_least Let_def)
  ultimately show ?thesis by auto
qed

subsection \<open>The interface of the allocator\<close>

text \<open>
  What \<^verbatim>\<open>execute\<close> and \<^verbatim>\<open>halt\<close> rely on: a number handed out was free, is below
  the limit and is the smallest, and giving it back undoes the allocation.
\<close>

locale pid_allocator =
  fixes alloc :: "'s \<Rightarrow> ('s \<times> nat) option"
    and free :: "nat \<Rightarrow> 's \<Rightarrow> 's"
    and used :: "'s \<Rightarrow> nat set"
    and limit :: nat
  assumes alloc_fresh: "alloc s = Some (s', p) \<Longrightarrow> p \<notin> used s \<and> p < limit \<and> used s' = insert p (used s)"
    and alloc_smallest: "alloc s = Some (s', p) \<Longrightarrow> j < p \<Longrightarrow> j \<in> used s"
    and alloc_full: "alloc s = None \<longleftrightarrow> used s = {..<limit}"
    and free_law: "p < limit \<Longrightarrow> used (free p s) = used s - {p}"
begin

lemma free_undoes: "alloc s = Some (s', p) \<Longrightarrow> used (free p s') = used s"
  using alloc_fresh [of s s' p] free_law [of p s'] by auto

lemma reuse:
  assumes "alloc s = Some (s', p)"
  obtains s'' where "alloc (free p s') = Some (s'', p)"
proof -
  have same: "used (free p s') = used s" using free_undoes [OF assms] .
  have "used s \<noteq> {..<limit}" using alloc_full [of s] assms by auto
  then obtain s'' q where q: "alloc (free p s') = Some (s'', q)"
    using alloc_full [of "free p s'"] same by (cases "alloc (free p s')") auto
  have "\<not> q < p" using alloc_fresh [OF q] alloc_smallest [OF assms, of q] same by auto
  moreover have "\<not> p < q" using alloc_fresh [OF assms] alloc_smallest [OF q, of p] same by auto
  ultimately show thesis using q that by (metis linorder_neqE_nat)
qed

lemma successive_distinct:
  "alloc s = Some (s1, p) \<Longrightarrow> alloc s1 = Some (s2, q) \<Longrightarrow> p < q"
  using alloc_fresh [of s s1 p] alloc_fresh [of s1 s2 q] alloc_smallest [of s s1 p q]
  by (metis insertCI linorder_neqE_nat)

end

interpretation pids: pid_allocator "\<lambda>x. map_option (\<lambda>(u, p). (u, unat p)) (alloc_pid x)"
  "\<lambda>p. free_pid (of_nat p)" used_pids 8
proof
  fix s s' :: u8 and p j :: nat
  assume "map_option (\<lambda>(u, p). (u, unat p)) (alloc_pid s) = Some (s', p)"
  then obtain q where q: "alloc_pid s = Some (s', q)" "p = unat q" by auto
  show "p \<notin> used_pids s \<and> p < 8 \<and> used_pids s' = insert p (used_pids s)"
    using alloc_pid_Some(1-3) [OF q(1)] q(2) by simp
  show "j \<in> used_pids s" if "j < p" using alloc_pid_Some(4) [OF q(1)] q(2) that by simp
next
  fix s show "(map_option (\<lambda>(u, p). (u, unat p)) (alloc_pid s) = None) = (used_pids s = {..<8})"
    by (simp add: alloc_pid_None)
next
  fix p s assume "p < (8 :: nat)"
  then show "used_pids (free_pid (of_nat p) s) = used_pids s - {p}"
    by (simp add: used_pids_free)
qed

subsection \<open>Properties\<close>

text \<open>
  C19: The search of \<^verbatim>\<open>execute\<close> through the bitmap \<^verbatim>\<open>procs\<close> hands out the
  smallest process number that is not in use and marks exactly that one, fails only when all
  eight are in use, and the release in \<^verbatim>\<open>halt\<close> takes back exactly the halted one.
\<close>

theorem pid_allocation:
  "(case alloc_pid x of
      None \<Rightarrow> used_pids x = {..<8}
    | Some (x', p) \<Rightarrow> used_pids x \<inter> {..unat p} = {..<unat p} \<and> unat p < 8 \<and>
        used_pids x' = insert (unat p) (used_pids x)) \<and>
   used_pids (free_pid q x) = used_pids x - {unat q}"
proof (cases "alloc_pid x")
  case (Some r)
  then obtain x' p where r: "alloc_pid x = Some (x', p)" by (cases r) auto
  have "used_pids x \<inter> {..unat p} = {..<unat p}"
    using alloc_pid_Some(2,4) [OF r] by (auto simp: nat_less_le)
  then show ?thesis using alloc_pid_Some(1,3) [OF r] by (simp add: r used_pids_free)
next
  case None
  then show ?thesis using alloc_pid_None [of x] by (simp add: used_pids_free)
qed

text \<open>
  The blocks and the kernel stacks of the eight processes do not overlap: the stack
  that \<^verbatim>\<open>tss.esp0\<close> gives a process starts just below its own block and has 7372
  bytes before it reaches the 820-byte block of the next process number.
\<close>

theorem kernel_stacks_and_blocks:
  assumes "unat p < 8"
  shows "unat (get_pcb p) = 8388608 - (unat p + 1) * 8192 \<and>
    unat (kernel_stack (ucast p)) + 4 = unat (get_pcb p) \<and>
    unat (get_pcb (p + 1)) + 820 + 7372 = unat (kernel_stack (ucast p)) + 4"
proof -
  have "p = of_nat (unat p)" by simp
  then obtain n where p: "p = of_nat n" and n: "n < 8" using assms by metis
  from n consider "n = 0" | "n = 1" | "n = 2" | "n = 3" | "n = 4" | "n = 5" | "n = 6" | "n = 7"
    by linarith
  then show ?thesis by cases (simp_all add: p get_pcb_def kernel_stack_def)
qed

lemma kernel_stacks_and_blocks_witness:
  "unat (get_pcb 2) = 8364032 \<and> unat (kernel_stack 2) = 8364028"
  using kernel_stacks_and_blocks [of 2] by simp

subsection \<open>Updates of a descriptor\<close>

lemma update_fd_simps [simp, frame_simps]:
  "memory (update_fd fd f s) = memory s" "running_pid (update_fd fd f s) = running_pid s"
  "procs (update_fd fd f s) = procs s"
  "fds (get_current_pcb (update_fd fd f s)) =
    (fds (get_current_pcb s))[fd := f (fds (get_current_pcb s) ! fd)]"
  by (simp_all add: update_fd_def update_pcb_def get_current_pcb_def)

lemma same_tables_update_fd [simp]: "same_tables (update_fd fd f s) s"
  by (simp add: same_tables_def update_fd_def update_pcb_def)

lemma vmem_update_fd [simp]: "vmem (update_fd fd f s) = vmem s"
  by (rule vmem_cong) simp_all

lemma translate_update_fd [simp]: "translate (update_fd fd f s) = translate s"
  by (rule translate_cong) simp

end
