(* ===== verification/Lib_String.thy ===== *)
theory Lib_String
  imports Prelude
begin

text \<open>
  The string routines of \<^verbatim>\<open>student-distrib/lib.c\<close>: \<^verbatim>\<open>strlen\<close>,
  \<^verbatim>\<open>strnonspace\<close>, \<^verbatim>\<open>strncmp\<close>, \<^verbatim>\<open>strcpy\<close>,
  \<^verbatim>\<open>strncpy\<close>, \<^verbatim>\<open>strrev\<close> and \<^verbatim>\<open>itoa\<close>, over linear memory.
  A scan for a NUL that is not there does not return, so those loops are
  \<^theory_text>\<open>partial_function\<close>s into \<open>option\<close>; an index outside the digit table of
  \<^verbatim>\<open>itoa\<close> is \<^term>\<open>None\<close> as well.
\<close>

subsection \<open>Length and scanning\<close>

partial_function (option) strlen_loop :: "mem \<Rightarrow> u32 \<Rightarrow> u32 \<Rightarrow> u32 option" where
  "strlen_loop m s len = (if m (s + len) \<noteq> 0 then strlen_loop m s (len + 1) else Some len)"

definition strlen :: "mem \<Rightarrow> u32 \<Rightarrow> u32 option" where
  "strlen m s = strlen_loop m s 0"

partial_function (option) strnonspace_loop :: "mem \<Rightarrow> u32 \<Rightarrow> u32 \<Rightarrow> u32 option" where
  "strnonspace_loop m s i =
     Option.bind (strlen m s)
       (\<lambda>l. if i < l then if m (s + i) \<noteq> 0x20 then Some i else strnonspace_loop m s (i + 1)
            else Some i)"

definition strnonspace :: "mem \<Rightarrow> u32 \<Rightarrow> u32 option" where
  "strnonspace m s = strnonspace_loop m s 0"

subsection \<open>Comparing\<close>

text \<open>\<open>char\<close> is signed: the difference is taken on the sign-extended bytes.\<close>

fun strncmp_loop :: "mem \<Rightarrow> u32 \<Rightarrow> u32 \<Rightarrow> u32 \<Rightarrow> nat \<Rightarrow> int" where
  "strncmp_loop m s1 s2 i 0 = 0"
| "strncmp_loop m s1 s2 i (Suc left) =
     (if m (s1 + i) \<noteq> m (s2 + i) \<or> m (s1 + i) = 0
      then sint (m (s1 + i)) - sint (m (s2 + i))
      else strncmp_loop m s1 s2 (i + 1) left)"

definition strncmp :: "mem \<Rightarrow> u32 \<Rightarrow> u32 \<Rightarrow> u32 \<Rightarrow> int" where
  "strncmp m s1 s2 n = strncmp_loop m s1 s2 0 (unat n)"

subsection \<open>Copying\<close>

partial_function (option) strcpy_loop :: "mem \<Rightarrow> u32 \<Rightarrow> u32 \<Rightarrow> u32 \<Rightarrow> mem option" where
  "strcpy_loop m dest src i =
     (if m (src + i) \<noteq> 0 then strcpy_loop (m(dest + i := m (src + i))) dest src (i + 1)
      else Some (m(dest + i := 0)))"

definition strcpy :: "mem \<Rightarrow> u32 \<Rightarrow> u32 \<Rightarrow> mem option" where
  "strcpy m dest src = strcpy_loop m dest src 0"

fun strncpy_pad :: "mem \<Rightarrow> u32 \<Rightarrow> u32 \<Rightarrow> nat \<Rightarrow> mem" where
  "strncpy_pad m dest i 0 = m"
| "strncpy_pad m dest i (Suc left) = strncpy_pad (m(dest + i := 0)) dest (i + 1) left"

fun strncpy_loop :: "mem \<Rightarrow> u32 \<Rightarrow> u32 \<Rightarrow> u32 \<Rightarrow> nat \<Rightarrow> mem" where
  "strncpy_loop m dest src i 0 = m"
| "strncpy_loop m dest src i (Suc left) =
     (if m (src + i) \<noteq> 0
      then strncpy_loop (m(dest + i := m (src + i))) dest src (i + 1) left
      else strncpy_pad m dest i (Suc left))"

definition strncpy :: "mem \<Rightarrow> u32 \<Rightarrow> u32 \<Rightarrow> u32 \<Rightarrow> mem" where
  "strncpy m dest src n = strncpy_loop m dest src 0 (unat n)"

subsection \<open>Reversing and printing numbers\<close>

text \<open>\<open>beg\<close> and \<open>end\<close> are signed: the empty string gives \<open>end = -1\<close>.\<close>

function strrev_loop :: "mem \<Rightarrow> u32 \<Rightarrow> int \<Rightarrow> int \<Rightarrow> mem" where
  "strrev_loop m s b e =
     (if b < e
      then strrev_loop (m(s + of_int e := m (s + of_int b), s + of_int b := m (s + of_int e)))
             s (b + 1) (e - 1)
      else m)"
  by pat_completeness auto
termination
  by (relation "measure (\<lambda>(m, s, b, e). nat (e - b))") auto

declare strrev_loop.simps [simp del]

definition strrev :: "mem \<Rightarrow> u32 \<Rightarrow> mem option" where
  "strrev m s = map_option (\<lambda>l. strrev_loop m s 0 (sint l - 1)) (strlen m s)"

text \<open>C's remainder on \<open>int\<close> takes the sign of the dividend.\<close>

definition c_rem :: "int \<Rightarrow> int \<Rightarrow> int" where
  "c_rem a b = sgn a * (\<bar>a\<bar> mod \<bar>b\<bar>)"

text \<open>
  \<^verbatim>\<open>lookup\<close> is the 37-byte array of the 36 digits and their NUL; any other index is
  outside it.
\<close>

definition digit_lookup :: "u8 list" where
  "digit_lookup = map of_nat [48, 49, 50, 51, 52, 53, 54, 55, 56, 57, 65, 66, 67, 68, 69, 70, 71, 72,
     73, 74, 75, 76, 77, 78, 79, 80, 81, 82, 83, 84, 85, 86, 87, 88, 89, 90, 0]"

definition lookup_digit :: "int \<Rightarrow> u8 option" where
  "lookup_digit i = (if 0 \<le> i \<and> i < 37 then Some (digit_lookup ! nat i) else None)"

partial_function (option) itoa_loop :: "mem \<Rightarrow> u32 \<Rightarrow> u32 \<Rightarrow> u32 \<Rightarrow> (mem \<times> u32) option" where
  "itoa_loop m newbuf newval radix =
     (if newval = 0 then Some (m, newbuf)
      else if radix = 0 then None
      else Option.bind (lookup_digit (c_rem (sint newval) (sint radix)))
        (\<lambda>ch. itoa_loop (m(newbuf := ch)) (newbuf + 1) (newval div radix) radix))"

definition itoa :: "mem \<Rightarrow> u32 \<Rightarrow> u32 \<Rightarrow> u32 \<Rightarrow> mem option" where
  "itoa m val buf radix =
     (if val = 0 then Some (m(buf := 0x30, buf + 1 := 0))
      else case itoa_loop m buf val radix of
        None \<Rightarrow> None
      | Some (m', newbuf) \<Rightarrow> strrev (m'(newbuf := 0)) buf)"

subsection \<open>Length of a C string\<close>

lemma strlen_loop_cstr:
  assumes "cstr m s xs" "k \<le> length xs"
  shows "strlen_loop m s (of_nat k) = Some (of_nat (length xs))"
  using assms(2)
proof (induction rule: inc_induct)
  case base
  then show ?case using cstr_end [OF assms(1)] by (subst strlen_loop.simps) simp
next
  case (step n)
  then show ?case using cstr_nonzero [OF assms(1)]
    by (subst strlen_loop.simps) (simp add: add.commute)
qed

lemma strlen_cstr: "cstr m s xs \<Longrightarrow> strlen m s = Some (of_nat (length xs))"
  using strlen_loop_cstr [of m s xs 0] by (simp add: strlen_def)

lemma strnonspace_loop_cstr:
  assumes "cstr m s xs" "k \<le> length (takeWhile (\<lambda>c. c = 0x20) xs)"
  shows "strnonspace_loop m s (of_nat k) = Some (of_nat (length (takeWhile (\<lambda>c. c = 0x20) xs)))"
  using assms(2)
proof (induction rule: inc_induct)
  case base
  let ?k = "length (takeWhile (\<lambda>c. c = 0x20) xs)"
  have le: "?k \<le> length xs" by (rule length_takeWhile_le)
  show ?case
  proof (cases "?k < length xs")
    case True
    then have "xs ! ?k \<noteq> 0x20" using nth_length_takeWhile by blast
    with True le cstr_nth [OF assms(1), of ?k] cstr_length [OF assms(1)] show ?thesis
      by (subst strnonspace_loop.simps)
        (simp add: strlen_cstr [OF assms(1)] word_less_nat_alt)
  next
    case False
    with le have "?k = length xs" by simp
    then show ?thesis
      by (subst strnonspace_loop.simps) (simp add: strlen_cstr [OF assms(1)])
  qed
next
  case (step n)
  let ?k = "length (takeWhile (\<lambda>c. c = 0x20) xs)"
  have "n < length xs" using step.hyps length_takeWhile_le [of _ xs] by (meson less_le_trans)
  moreover have "xs ! n = 0x20"
    using step.hyps by (metis (mono_tags, lifting) nth_mem set_takeWhileD takeWhile_nth)
  ultimately show ?case
    using step.IH cstr_nth [OF assms(1), of n] cstr_length [OF assms(1)]
    by (subst strnonspace_loop.simps)
      (simp add: strlen_cstr [OF assms(1)] word_less_nat_alt add.commute)
qed

lemma strnonspace_cstr:
  "cstr m s xs \<Longrightarrow> strnonspace m s = Some (of_nat (length (takeWhile (\<lambda>c. c = 0x20) xs)))"
  using strnonspace_loop_cstr [of m s xs 0] by (simp add: strnonspace_def)

subsection \<open>Comparison up to the first NUL\<close>

text \<open>The first \<open>n\<close> bytes of a string, cut after its first NUL.\<close>

fun cut_nul :: "u8 list \<Rightarrow> u8 list" where
  "cut_nul [] = []"
| "cut_nul (x # xs) = (if x = 0 then [0] else x # cut_nul xs)"

lemma strncmp_loop_zero:
  "strncmp_loop m s1 s2 i n = 0 \<longleftrightarrow>
     cut_nul (bytes_at m (s1 + i) n) = cut_nul (bytes_at m (s2 + i) n)"
proof (induction n arbitrary: i)
  case (Suc n)
  show ?case
    using Suc [of "i + 1"] word_eq_iff_signed [of "m (s1 + i)" "m (s2 + i)"]
    by (auto simp: bytes_at_Suc add.assoc)
qed simp

lemma strncmp_zero_iff:
  "strncmp m s1 s2 n = 0 \<longleftrightarrow>
     cut_nul (bytes_at m s1 (unat n)) = cut_nul (bytes_at m s2 (unat n))"
  using strncmp_loop_zero [of m s1 s2 0] by (simp add: strncmp_def)

subsection \<open>Copying strings\<close>

text \<open>
  \<^verbatim>\<open>strcpy\<close> is right when it never overwrites a byte it has still to read.
\<close>

lemma strcpy_loop_cstr:
  assumes "length xs < 4294967295" "k \<le> length xs" "0 \<notin> set xs"
    and "\<And>j. k \<le> j \<Longrightarrow> j < length xs \<Longrightarrow> m (src + of_nat j) = xs ! j"
    and "m (src + of_nat (length xs)) = 0"
    and "\<And>i j. i \<le> j \<Longrightarrow> j \<le> length xs \<Longrightarrow> i < j \<Longrightarrow> dest + of_nat i \<noteq> src + of_nat j"
  shows "strcpy_loop m dest src (of_nat k) =
    Some (write_bytes m (dest + of_nat k) (drop k xs @ [0]))"
  using assms(2,4,5)
proof (induction "length xs - k" arbitrary: m k)
  case 0
  then have "k = length xs" by simp
  with 0 show ?case
    by (subst strcpy_loop.simps) (simp add: write_bytes_def fun_eq_iff unat_0_iff)
next
  case (Suc l)
  then have k: "k < length xs" by simp
  let ?m = "m(dest + of_nat k := xs ! k)"
  have nz: "xs ! k \<noteq> 0" using k assms(3) nth_mem by force
  have keep: "?m (src + of_nat j) = m (src + of_nat j)" if "k < j" "j \<le> length xs" for j
    using assms(6) [of k j] that by auto
  have "strcpy_loop m dest src (of_nat k) = strcpy_loop ?m dest src (of_nat (Suc k))"
    using Suc.prems(2) [of k] k nz by (subst strcpy_loop.simps) (simp add: add.commute)
  also have "\<dots> = Some (write_bytes ?m (dest + of_nat (Suc k)) (drop (Suc k) xs @ [0]))"
    using Suc k keep by (intro Suc.hyps(1)) auto
  also have "write_bytes ?m (dest + of_nat (Suc k)) (drop (Suc k) xs @ [0]) =
      write_bytes m (dest + of_nat k) (xs ! k # drop (Suc k) xs @ [0])"
    using write_bytes_Cons [of "drop (Suc k) xs @ [0]" m "dest + of_nat k" "xs ! k"] assms(1) k
    by (simp add: add.commute add.left_commute)
  finally show ?case using k by (simp add: Cons_nth_drop_Suc [symmetric])
qed

text \<open>In particular when the two regions are disjoint, or the destination lies below.\<close>

lemma strcpy_cstr:
  assumes "cstr m src xs" "dest = src \<or> length xs < unat (dest - src)"
  shows "strcpy m dest src = Some (write_bytes m dest (xs @ [0]))"
proof -
  have apart: "dest + of_nat i \<noteq> src + of_nat j" if "i < j" "j \<le> length xs" for i j
  proof
    assume "dest + of_nat i = src + of_nat j"
    then have "dest - src = of_nat j - of_nat i" by (simp add: algebra_simps)
    also have "\<dots> = of_nat (j - i)" using that by (simp add: of_nat_diff)
    finally have "unat (dest - src) = unat (of_nat (j - i) :: u32)" by simp
    also have "\<dots> = j - i" using that cstr_length [OF assms(1)] by (intro unat_of_nat32) simp
    finally have "unat (dest - src) = j - i" .
    with that assms(2) show False by auto
  qed
  have "strcpy_loop m dest src (of_nat 0) = Some (write_bytes m (dest + of_nat 0) (drop 0 xs @ [0]))"
    using assms(1) apart cstr_nth [OF assms(1)]
    by (intro strcpy_loop_cstr) (auto simp: cstr_def)
  then show ?thesis by (simp add: strcpy_def)
qed

subsection \<open>Reversal in place\<close>

lemma of_int_add_eq_iff:
  fixes s :: u32
  assumes "0 \<le> i" "i < 4294967296" "0 \<le> j" "j < 4294967296"
  shows "(s + of_int i = s + of_int j) = (i = j)"
  using assms add_of_nat_eq_iff [of "nat i" "nat j" s] by (auto simp: nat_eq_iff)

lemma strrev_loop_outside:
  "(\<And>i. b \<le> i \<Longrightarrow> i \<le> e \<Longrightarrow> a \<noteq> s + of_int i) \<Longrightarrow> strrev_loop m s b e a = m a"
proof (induction m s b e rule: strrev_loop.induct)
  case (1 m s b e)
  show ?case
  proof (cases "b < e")
    case True
    with "1.prems" [of b] "1.prems" [of e] have "a \<noteq> s + of_int b" "a \<noteq> s + of_int e"
      by auto
    with True "1.IH" "1.prems" show ?thesis
      by (subst strrev_loop.simps) (simp add: fun_upd_def)
  qed (subst strrev_loop.simps, simp)
qed

lemma strrev_loop_inside:
  "0 \<le> b \<Longrightarrow> e < 4294967296 \<Longrightarrow> b \<le> i \<Longrightarrow> i \<le> e \<Longrightarrow>
    strrev_loop m s b e (s + of_int i) = m (s + of_int (b + e - i))"
proof (induction m s b e arbitrary: i rule: strrev_loop.induct)
  case (1 m s b e)
  let ?m = "m(s + of_int e := m (s + of_int b), s + of_int b := m (s + of_int e))"
  have same: "s + of_int j = s + of_int k \<longleftrightarrow> j = k" if "b \<le> j" "j \<le> e" "b \<le> k" "k \<le> e" for j k
    using that "1.prems" by (intro of_int_add_eq_iff) auto
  show ?case
  proof (cases "b < e")
    case True
    have step: "strrev_loop m s b e (s + of_int i) = strrev_loop ?m s (b + 1) (e - 1) (s + of_int i)"
      using True by (simp add: strrev_loop.simps [of m s b e])
    show ?thesis
    proof (cases "i = b \<or> i = e")
      case True
      then have "strrev_loop ?m s (b + 1) (e - 1) (s + of_int i) = ?m (s + of_int i)"
        using "1.prems" same by (intro strrev_loop_outside) auto
      with True step same [of b e] "1.prems" show ?thesis by auto
    next
      case False
      have "strrev_loop ?m s (b + 1) (e - 1) (s + of_int i) =
          ?m (s + of_int ((b + 1) + (e - 1) - i))"
        by (rule "1.IH") (use \<open>b < e\<close> "1.prems" False in auto)
      moreover have "s + of_int (b + e - i) \<noteq> s + of_int b" "s + of_int (b + e - i) \<noteq> s + of_int e"
        using same [of "b + e - i" b] same [of "b + e - i" e] "1.prems" False by auto
      ultimately show ?thesis using step by (simp add: algebra_simps)
    qed
  next
    case False
    with "1.prems" have "i = b" "e = b" by auto
    then show ?thesis by (subst strrev_loop.simps) simp
  qed
qed

lemma strrev_cstr:
  assumes "cstr m s xs" "length xs < 2147483648"
  shows "strrev m s = Some (write_bytes m s (rev xs))"
proof -
  let ?n = "length xs"
  have sint: "sint (of_nat ?n :: u32) = int ?n"
    using assms(2) by (simp add: sint32)
  have "strrev_loop m s 0 (int ?n - 1) a = write_bytes m s (rev xs) a" for a
  proof (cases "unat (a - s) < ?n")
    case True
    let ?k = "unat (a - s)"
    have a: "a = s + of_int (int ?k)" by simp
    have "strrev_loop m s 0 (int ?n - 1) (s + of_int (int ?k)) = m (s + of_int (0 + (int ?n - 1) - int ?k))"
      by (rule strrev_loop_inside) (use True assms(2) in \<open>auto simp del: of_nat_unat\<close>)
    also have "0 + (int ?n - 1) - int ?k = int (?n - 1 - ?k)" using True by auto
    also have "m (s + of_int (int (?n - 1 - ?k))) = xs ! (?n - 1 - ?k)"
      using cstr_nth [OF assms(1), of "?n - 1 - ?k"] True by simp
    finally show ?thesis using True a by (simp add: write_bytes_def rev_nth)
  next
    case False
    have "strrev_loop m s 0 (int ?n - 1) a = m a"
    proof (rule strrev_loop_outside)
      fix i assume i: "0 \<le> i" "i \<le> int ?n - 1"
      have "unat (s + of_nat (nat i) - s) = nat i"
        using i assms(2) by (intro add_of_nat_diff) auto
      with i False show "a \<noteq> s + of_int i" by auto
    qed
    with False show ?thesis by (simp add: write_bytes_def)
  qed
  then show ?thesis
    by (simp add: strrev_def strlen_cstr [OF assms(1)] sint fun_eq_iff)
qed

subsection \<open>Numbers as text\<close>

text \<open>The digits of \<open>v\<close> to base \<open>r\<close>, least significant first.\<close>

fun base_digits :: "nat \<Rightarrow> nat \<Rightarrow> nat list" where
  "base_digits r v = (if v = 0 \<or> r < 2 then [] else v mod r # base_digits r (v div r))"

declare base_digits.simps [simp del]

definition number_text :: "nat \<Rightarrow> nat \<Rightarrow> u8 list" where
  "number_text r v =
     (if v = 0 then [0x30] else rev (map (\<lambda>d. digit_lookup ! d) (base_digits r v)))"

text \<open>The number a text denotes: the digits' positions in the table, read left to right.\<close>

definition digit_value :: "u8 \<Rightarrow> nat" where
  "digit_value c = length (takeWhile (\<lambda>x. x \<noteq> c) digit_lookup)"

definition parse_number :: "nat \<Rightarrow> u8 list \<Rightarrow> nat" where
  "parse_number r xs = foldl (\<lambda>a c. a * r + digit_value c) 0 xs"

lemma base_digits_less: "2 \<le> r \<Longrightarrow> d \<in> set (base_digits r v) \<Longrightarrow> d < r"
proof (induction r v rule: base_digits.induct)
  case (1 r v)
  then show ?case by (subst (asm) (2) base_digits.simps) (auto split: if_splits)
qed

lemma digit_value_lookup: "d < 36 \<Longrightarrow> digit_value (digit_lookup ! d) = d"
proof -
  have "\<forall>d<36. digit_value (digit_lookup ! d) = d" by code_simp
  then show "d < 36 \<Longrightarrow> digit_value (digit_lookup ! d) = d" by blast
qed

lemma digit_lookup_nonzero: "d < 36 \<Longrightarrow> digit_lookup ! d \<noteq> 0"
proof -
  have "\<forall>d<36. digit_lookup ! d \<noteq> 0" by code_simp
  then show "d < 36 \<Longrightarrow> digit_lookup ! d \<noteq> 0" by blast
qed

lemma parse_base_digits:
  assumes "2 \<le> r" "r \<le> 36"
  shows "parse_number r (rev (map (\<lambda>d. digit_lookup ! d) (base_digits r v))) = v"
  using assms
proof (induction r v rule: base_digits.induct)
  case (1 r v)
  show ?case
  proof (cases "v = 0")
    case True
    then show ?thesis by (simp add: base_digits.simps parse_number_def)
  next
    case False
    have step: "base_digits r v = v mod r # base_digits r (v div r)"
      using False "1.prems" by (subst base_digits.simps) simp
    have "v mod r < 36" using "1.prems" mod_less_divisor [of r v] by linarith
    then show ?thesis
      using "1.IH" "1.prems" False
      by (simp add: step parse_number_def digit_value_lookup)
  qed
qed

lemma parse_number_text: "2 \<le> r \<Longrightarrow> r \<le> 36 \<Longrightarrow> parse_number r (number_text r v) = v"
  using digit_value_lookup [of 0]
  by (simp add: number_text_def parse_base_digits) (simp add: parse_number_def digit_lookup_def)

lemma length_base_digits: "2 \<le> r \<Longrightarrow> v < 2 ^ k \<Longrightarrow> length (base_digits r v) \<le> k"
proof (induction k arbitrary: v)
  case 0
  then show ?case by (simp add: base_digits.simps)
next
  case (Suc k)
  have "v div r \<le> v div 2" using Suc.prems(1) by (intro div_le_mono2) auto
  also have "\<dots> < 2 ^ k" using Suc.prems(2) by (simp add: less_mult_imp_div_less mult.commute)
  finally show ?case using Suc by (subst base_digits.simps) auto
qed

lemma itoa_loop_digits:
  assumes "2 \<le> unat r" "unat r \<le> 36"
  shows "unat v < 2147483648 \<Longrightarrow> itoa_loop m nb v r =
    (let ds = map (\<lambda>d. digit_lookup ! d) (base_digits (unat r) (unat v))
     in Some (write_bytes m nb ds, nb + of_nat (length ds)))"
proof (induction "unat v" arbitrary: v m nb rule: less_induct)
  case less
  show ?case
  proof (cases "v = 0")
    case True
    then show ?thesis by (simp add: itoa_loop.simps base_digits.simps)
  next
    case False
    let ?q = "v div r"
    let ?d = "unat v mod unat r"
    have r0: "r \<noteq> 0" using assms by auto
    have q: "unat ?q = unat v div unat r" by (simp add: unat_div)
    have v0: "0 < unat v" using False by (simp add: unat_gt_0)
    have lt: "unat ?q < unat v" unfolding q using assms v0 by (intro div_less_dividend) auto
    have rem: "c_rem (sint v) (sint r) = int ?d"
      using less.prems assms v0 by (simp add: c_rem_def sint32 zmod_int sgn_if del: of_nat_unat)
    have d: "?d < 36" using assms mod_less_divisor [of "unat r" "unat v"] by linarith
    have step: "base_digits (unat r) (unat v) = ?d # base_digits (unat r) (unat ?q)"
      using v0 assms by (subst base_digits.simps) (simp add: q)
    have len: "length (base_digits (unat r) (unat ?q)) \<le> 31"
      using less.prems lt assms by (intro length_base_digits) auto
    have "itoa_loop m nb v r = itoa_loop (m(nb := digit_lookup ! ?d)) (nb + 1) ?q r"
      using False r0 rem d by (subst itoa_loop.simps) (simp add: lookup_digit_def)
    then show ?thesis
      using less.hyps [OF lt] less.prems lt len
      by (simp add: step Let_def write_bytes_Cons add.assoc)
  qed
qed

text \<open>A string just written, and the same bytes written backwards.\<close>

lemma cstr_written:
  assumes "0 \<notin> set xs" "length xs < 4294967295"
  shows "cstr (write_bytes m s (xs @ [0])) s xs"
  unfolding cstr_def
proof (intro conjI)
  show "bytes_at (write_bytes m s (xs @ [0])) s (length xs) = xs"
    by (rule nth_equalityI) (use assms in \<open>auto simp: write_bytes_def nth_append\<close>)
qed (use assms in \<open>auto simp: write_bytes_def nth_append\<close>)

lemma write_bytes_reversed: "write_bytes (write_bytes m s (xs @ [x])) s (rev xs) = write_bytes m s (rev xs @ [x])"
  by (auto simp: write_bytes_def fun_eq_iff nth_append)

text \<open>
  What \<^verbatim>\<open>itoa\<close> leaves in memory for a value below \<open>2 ^ 31\<close>: the number's text, a
  NUL, and nothing else changed.
\<close>

lemma itoa_number_text:
  assumes "2 \<le> unat r" "unat r \<le> 36" "unat v < 2147483648"
  shows "itoa m v buf r = Some (write_bytes m buf (number_text (unat r) (unat v) @ [0]))"
proof (cases "v = 0")
  case True
  have "write_bytes m buf [0x30, 0] = m(buf := 0x30, buf + 1 := 0)"
    by (simp flip: write_bytes_Cons)
  with True show ?thesis by (simp add: itoa_def number_text_def)
next
  case False
  let ?ds = "map (\<lambda>d. digit_lookup ! d) (base_digits (unat r) (unat v))"
  have len: "length ?ds \<le> 31" using assms length_base_digits [of "unat r" "unat v" 31] by simp
  let ?m = "write_bytes m buf (?ds @ [0])"
  have m: "(write_bytes m buf ?ds)(buf + of_nat (length ?ds) := 0) = ?m"
    using len by (intro write_bytes_snoc) simp
  have nz: "0 \<notin> set ?ds"
    using base_digits_less [of "unat r" _ "unat v"] assms digit_lookup_nonzero by fastforce
  have "cstr ?m buf ?ds" using len nz by (intro cstr_written) auto
  then have "strrev ?m buf = Some (write_bytes ?m buf (rev ?ds))"
    using len by (intro strrev_cstr) auto
  moreover have "write_bytes ?m buf (rev ?ds) = write_bytes m buf (rev ?ds @ [0])"
    by (rule write_bytes_reversed)
  ultimately show ?thesis
    using False itoa_loop_digits [OF assms, of m buf] m
    by (simp add: itoa_def number_text_def Let_def unat_0_iff)
qed

lemma c_rem_high:
  assumes "2147483648 \<le> unat (v :: u32)" "unat (r :: u32) < 2147483648"
  shows "c_rem (sint v) (sint r) = - int ((4294967296 - unat v) mod unat r)"
proof -
  have "sint v = - int (4294967296 - unat v)"
    using assms(1) unat_lt32 [of v] by (simp add: sint32 of_nat_diff del: of_nat_unat unat_lt32)
  moreover have "0 < 4294967296 - unat v" using unat_lt32 [of v] by linarith
  moreover have "sint r = int (unat r)" using assms(2) by (subst sint32) simp
  ultimately show ?thesis by (simp add: c_rem_def zmod_int sgn_if del: of_nat_unat of_nat_diff)
qed

subsection \<open>Properties\<close>

text \<open>
  For a value below \<open>2 ^ 31\<close> and a radix from 2 to 36, \<^verbatim>\<open>itoa\<close> leaves in its
  buffer a text that reads back as the value, followed by a NUL, and changes nothing else.
\<close>

theorem itoa_round_trip:
  assumes "2 \<le> unat r" "unat r \<le> 36" "unat v < 2147483648"
  shows "\<exists>text. itoa m v buf r = Some (write_bytes m buf (text @ [0])) \<and>
    parse_number (unat r) text = unat v"
  using itoa_number_text [OF assms] parse_number_text [OF assms(1,2)] by blast

lemma itoa_round_trip_witness:
  "\<exists>text. itoa (\<lambda>_. 0) 391 0x1000 10 = Some (write_bytes (\<lambda>_. 0) 0x1000 (text @ [0])) \<and>
    parse_number 10 text = 391"
  using itoa_round_trip [of 10 391 "\<lambda>_. 0" "0x1000"] by simp

text \<open>
  For a value of \<open>2 ^ 31\<close> or more the conversion to \<^verbatim>\<open>i32\<close> before the
  remainder makes the digit negative, so \<^verbatim>\<open>itoa\<close> indexes its table before its
  start unless the negated value is a multiple of the radix.
\<close>

theorem itoa_high_values_out_of_table:
  assumes "2 \<le> unat r" "unat r \<le> 36" "2147483648 \<le> unat v"
    and "(4294967296 - unat v) mod unat r \<noteq> 0"
  shows "itoa m v buf r = None"
proof -
  have "v \<noteq> 0" "r \<noteq> 0" using assms by auto
  moreover have "lookup_digit (c_rem (sint v) (sint r)) = None"
    using c_rem_high [OF assms(3), of r] assms by (simp add: lookup_digit_def del: of_nat_diff)
  ultimately have "itoa_loop m buf v r = None" by (subst itoa_loop.simps) simp
  then show ?thesis using \<open>v \<noteq> 0\<close> by (simp add: itoa_def)
qed

lemma itoa_high_values_out_of_table_witness: "itoa (\<lambda>_. 0) 0xFFFFFFFF 0x1000 16 = None"
  using itoa_high_values_out_of_table [of 16 "0xFFFFFFFF" "\<lambda>_. 0" "0x1000"] by simp

text \<open>
  \<^verbatim>\<open>strncmp\<close> answers 0 exactly when the two strings, each cut after its first
  NUL and after \<open>n\<close> bytes, are equal.
\<close>

theorem strncmp_equal_iff:
  "strncmp m s1 s2 n = 0 \<longleftrightarrow>
     cut_nul (bytes_at m s1 (unat n)) = cut_nul (bytes_at m s2 (unat n))"
  by (rule strncmp_zero_iff)

text \<open>
  \<^verbatim>\<open>strcpy\<close> of a string to a destination that does not lie inside it returns,
  with the string and its NUL at the destination and the rest of memory unchanged.
\<close>

theorem strcpy_copies_string:
  assumes "cstr m src xs" "dest = src \<or> length xs < unat (dest - src)"
  shows "strcpy m dest src = Some (write_bytes m dest (xs @ [0]))"
  using assms by (rule strcpy_cstr)

lemma strcpy_copies_string_witness:
  "strcpy (write_bytes (\<lambda>_. 0) 0x100 [0x68, 0x69]) 0x200 0x100 =
    Some (write_bytes (write_bytes (\<lambda>_. 0) 0x100 [0x68, 0x69]) 0x200 [0x68, 0x69, 0])"
proof -
  have "cstr (write_bytes (\<lambda>_. 0) 0x100 [0x68, 0x69]) 0x100 [0x68, 0x69]"
    by (simp add: cstr_def bytes_at_Suc write_bytes_def)
  from strcpy_copies_string [OF this, of "0x200"] show ?thesis by simp
qed

end
