(* ===== verification/Fs.thy ===== *)
theory Fs
  imports Process Lib_String
begin

text \<open>
  \<^verbatim>\<open>student-distrib/fs.c\<close>: the read-only file system. The image is one object in
  memory: the boot block with its counts and 63 directory entries of 64 bytes, then one
  4 KiB block per inode (the size and 1023 block numbers), then the data blocks. The model
  reads the image where the code does, through the view \<^const>\<open>vmem\<close> of the running
  address space, and writes buffers byte by byte. An inode's block number past its 1023
  entries is outside the array.
\<close>

record fs = process +
  bootblk :: u32
  dir_read_count :: u32

abbreviation FS_MAX_DIR_ENTRIES :: nat where "FS_MAX_DIR_ENTRIES \<equiv> 63"
abbreviation FS_FNAME_LEN :: u32 where "FS_FNAME_LEN \<equiv> 32"
abbreviation FS_INODE_DATA_LEN :: nat where "FS_INODE_DATA_LEN \<equiv> 1023"
abbreviation FS_BLK_SIZE :: u32 where "FS_BLK_SIZE \<equiv> 4096"
abbreviation FT_RTC :: u32 where "FT_RTC \<equiv> 0"
abbreviation FT_DIR :: u32 where "FT_DIR \<equiv> 1"
abbreviation FT_REG :: u32 where "FT_REG \<equiv> 2"

subsection \<open>The image\<close>

definition direntry_cnt :: "mem \<Rightarrow> u32 \<Rightarrow> u32" where
  "direntry_cnt m bb = load32 m bb"

definition inode_cnt :: "mem \<Rightarrow> u32 \<Rightarrow> u32" where
  "inode_cnt m bb = load32 m (bb + 4)"

definition datablk_cnt :: "mem \<Rightarrow> u32 \<Rightarrow> u32" where
  "datablk_cnt m bb = load32 m (bb + 8)"

definition direntry_addr :: "u32 \<Rightarrow> u32 \<Rightarrow> u32" where
  "direntry_addr bb i = bb + 64 + i * 64"

definition inode_addr :: "u32 \<Rightarrow> u32 \<Rightarrow> u32" where
  "inode_addr bb i = bb + 4096 + i * 4096"

definition inode_size :: "mem \<Rightarrow> u32 \<Rightarrow> u32 \<Rightarrow> u32" where
  "inode_size m bb i = load32 m (inode_addr bb i)"

definition inode_data :: "mem \<Rightarrow> u32 \<Rightarrow> u32 \<Rightarrow> u32 \<Rightarrow> u32 option" where
  "inode_data m bb i k =
     (if unat k < FS_INODE_DATA_LEN then Some (load32 m (inode_addr bb i + 4 + k * 4)) else None)"

text \<open>A directory entry is its 64 bytes: the name, the type, the inode number, padding.\<close>

type_synonym dentry = "u8 list"

definition le32 :: "u8 list \<Rightarrow> u32" where
  "le32 bs = load32 (\<lambda>a. if unat a < length bs then bs ! unat a else 0) 0"

definition filename :: "dentry \<Rightarrow> u8 list" where
  "filename d = take 32 d"

definition filetype :: "dentry \<Rightarrow> u32" where
  "filetype d = le32 (drop 32 d)"

definition inode_idx :: "dentry \<Rightarrow> u32" where
  "inode_idx d = le32 (drop 36 d)"

subsection \<open>Opening the file system\<close>

definition open_fs :: "u32 \<Rightarrow> 'a fs_scheme \<Rightarrow> ('a fs_scheme \<times> int) option" where
  "open_fs start s =
     (let i = unat (drop_bit 22 start);
          s = s\<lparr>bootblk := start, pgdir := (pgdir s)(0 := (pgdir s 0)(i := pgdir s 0 i OR PG_PRESENT))\<rparr>
      in if \<not> accessible s start 4 then None
         else if unat (direntry_cnt (vmem s) start) \<ge> FS_MAX_DIR_ENTRIES
         then Some (s\<lparr>pgdir := (pgdir s)(0 := (pgdir s 0)(i := pgdir s 0 i AND NOT 1))\<rparr>, - 1)
         else Some (s, 0))"

subsection \<open>Directory entries\<close>

text \<open>
  The entry that the lookup copies out on success; \<^verbatim>\<open>-1\<close> is the inner \<open>None\<close>.
  The outer one is a name that is not a mapped string. No caller passes a null
  \<^verbatim>\<open>dentry\<close>.
\<close>

definition read_dentry_by_name :: "u32 \<Rightarrow> 'a fs_scheme \<Rightarrow> dentry option option" where
  "read_dentry_by_name fname s =
     (case strlen (vmem s) fname of
        None \<Rightarrow> None
      | Some len \<Rightarrow>
          if \<not> accessible s fname (unat len + 1) then None
          else Some (map_option (\<lambda>i. bytes_at (vmem s) (direntry_addr (bootblk s) (of_nat i)) 64)
            (List.find (\<lambda>i. len \<le> FS_FNAME_LEN \<and>
               strncmp (vmem s) fname (direntry_addr (bootblk s) (of_nat i)) FS_FNAME_LEN = 0)
             [0..<FS_MAX_DIR_ENTRIES])))"

definition read_dentry_by_index :: "u32 \<Rightarrow> 'a fs_scheme \<Rightarrow> dentry option" where
  "read_dentry_by_index idx s =
     (if idx \<ge> inode_cnt (vmem s) (bootblk s) then None
      else Some (bytes_at (vmem s) (direntry_addr (bootblk s) idx) 64))"

subsection \<open>File data\<close>

function read_data_loop ::
  "u32 \<Rightarrow> u32 \<Rightarrow> u32 \<Rightarrow> u32 \<Rightarrow> int \<Rightarrow> int \<Rightarrow> u32 \<Rightarrow> u32 \<Rightarrow> 'a fs_scheme \<Rightarrow> ('a fs_scheme \<times> int) option"
where
  "read_data_loop datablks i offset buf len reads datablk_idx datablk_offset s =
     (if reads < len then
        Option.bind (inode_data (vmem s) (bootblk s) i datablk_idx) (\<lambda>datablk.
          if of_int reads + offset \<ge> inode_size (vmem s) (bootblk s) i then Some (s, reads)
          else Option.bind
            (put_byte (buf + of_int reads) (vmem s (datablks + datablk * FS_BLK_SIZE + datablk_offset)) s)
            (\<lambda>s. if datablk_offset + 1 \<ge> FS_BLK_SIZE
              then Option.bind (inode_data (vmem s) (bootblk s) i (datablk_idx + 1)) (\<lambda>next.
                if next \<ge> datablk_cnt (vmem s) (bootblk s) then Some (s, - 1)
                else read_data_loop datablks i offset buf len (reads + 1) (datablk_idx + 1) 0 s)
              else read_data_loop datablks i offset buf len (reads + 1) datablk_idx (datablk_offset + 1) s))
      else Some (s, reads))"
  by pat_completeness auto
termination
  by (relation "measure (\<lambda>(d, i, off, buf, len, reads, idx, boff, s). nat (len - reads))") auto

declare read_data_loop.simps [simp del]

definition read_data :: "u32 \<Rightarrow> u32 \<Rightarrow> u32 \<Rightarrow> u32 \<Rightarrow> 'a fs_scheme \<Rightarrow> ('a fs_scheme \<times> int) option" where
  "read_data i offset buf ulength s =
     (let bb = bootblk s;
          m = vmem s;
          datablks = inode_addr bb (inode_cnt m bb);
          datablk_idx = offset div FS_BLK_SIZE;
          datablk_offset = offset mod FS_BLK_SIZE
      in if buf = 0 then Some (s, - 1)
         else if i \<ge> inode_cnt m bb then Some (s, - 1)
         else if offset \<ge> inode_size m bb i then Some (s, 0)
         else if offset + ulength \<ge> direntry_cnt m bb * FS_BLK_SIZE then Some (s, - 1)
         else Option.bind (inode_data m bb i datablk_idx) (\<lambda>b.
           if b \<ge> datablk_cnt m bb then Some (s, - 1)
           else read_data_loop datablks i offset buf (sint ulength) 0 datablk_idx datablk_offset s))"

subsection \<open>The operations on open files and directories\<close>

definition file_open :: "u32 \<Rightarrow> int" where
  "file_open name = 0"

definition file_close :: "int \<Rightarrow> int" where
  "file_close fd = 0"

definition file_write :: "int \<Rightarrow> u32 \<Rightarrow> int \<Rightarrow> int" where
  "file_write fd buf nbytes = - 1"

definition file_read :: "nat \<Rightarrow> u32 \<Rightarrow> u32 \<Rightarrow> 'a fs_scheme \<Rightarrow> ('a fs_scheme \<times> int) option" where
  "file_read fd buf nbytes s =
     (let f = fds (get_current_pcb s) ! fd in
      if flags f AND FD_IN_USE = FD_NOT_IN_USE then Some (s, - 1)
      else
        let nbytes = (if nbytes = 0 then inode_size (vmem s) (bootblk s) (inode f) else nbytes)
        in Option.bind (read_data (inode f) (file_position f) buf nbytes s) (\<lambda>(s, bytes_read).
             Some (if bytes_read \<ge> 0
               then update_fd fd (\<lambda>f. f\<lparr>file_position := file_position f + of_int bytes_read\<rparr>) s
               else s, bytes_read)))"

definition file_read_name :: "u32 \<Rightarrow> u32 \<Rightarrow> u32 \<Rightarrow> u32 \<Rightarrow> 'a fs_scheme \<Rightarrow> ('a fs_scheme \<times> int) option" where
  "file_read_name fname buf offset sz s =
     (if fname = 0 then Some (s, - 1)
      else Option.bind (read_dentry_by_name fname s) (\<lambda>r. case r of
        None \<Rightarrow> Some (s, - 1)
      | Some d \<Rightarrow>
          let sz = (if sz = 0 then inode_size (vmem s) (bootblk s) (inode_idx d) else sz)
          in read_data (inode_idx d) offset buf sz s))"

definition dir_open :: "'a fs_scheme \<Rightarrow> 'a fs_scheme \<times> int" where
  "dir_open s = (s\<lparr>dir_read_count := 0\<rparr>, 0)"

definition dir_close :: "int \<Rightarrow> int" where
  "dir_close fd = 0"

definition dir_write :: "int \<Rightarrow> u32 \<Rightarrow> int \<Rightarrow> int" where
  "dir_write fd buf nbytes = - 1"

text \<open>
  \<open>stale\<close> is what the uninitialised entry on the stack holds: when there is no such
  entry the code still copies from it, and then answers 0. A name that is not terminated
  within the entry is read past its end.
\<close>

definition dir_read :: "dentry \<Rightarrow> u32 \<Rightarrow> int \<Rightarrow> 'a fs_scheme \<Rightarrow> ('a fs_scheme \<times> int) option" where
  "dir_read stale buf nbytes s =
     (let i = read_dentry_by_index (dir_read_count s) s;
          s = s\<lparr>dir_read_count := dir_read_count s + 1\<rparr>;
          d = (case i of Some d \<Rightarrow> d | None \<Rightarrow> stale);
          len = length (takeWhile (\<lambda>c. c \<noteq> 0) d);
          bytes = min (min nbytes 32) (int len)
      in if len = length d then None
         else if bytes < 0 then Some (s, - 1)
         else map_option (\<lambda>s. (s, if i = None then 0 else bytes)) (put_bytes buf (take (nat bytes) d) s))"

subsection \<open>Names\<close>

definition entry_name :: "dentry \<Rightarrow> u8 list" where
  "entry_name d = takeWhile (\<lambda>c. c \<noteq> 0) (filename d)"

definition dentries :: "'a fs_scheme \<Rightarrow> dentry list" where
  "dentries s = map (\<lambda>i. bytes_at (vmem s) (direntry_addr (bootblk s) (of_nat i)) 64) [0..<63]"

lemma dentries_frame:
  assumes "\<And>a. unat (a - bootblk s) < 4096 \<Longrightarrow> vmem s' a = vmem s a" "bootblk s' = bootblk s"
  shows "dentries s' = dentries s"
  unfolding dentries_def assms(2)
proof (rule map_cong [OF refl], rule bytes_at_cong)
  fix i j :: nat assume i: "i \<in> set [0..<63]" and j: "j < 64"
  have "direntry_addr (bootblk s) (of_nat i) + of_nat j - bootblk s = of_nat (64 + 64 * i + j)"
    by (simp add: direntry_addr_def)
  moreover have "64 + 64 * i + j < 4096" using i j by (simp del: upt_rec_numeral)
  ultimately have "unat (direntry_addr (bootblk s) (of_nat i) + of_nat j - bootblk s) < 4096" by (simp only: unat_of_nat32)
  then show "vmem s' (direntry_addr (bootblk s) (of_nat i) + of_nat j) = vmem s (direntry_addr (bootblk s) (of_nat i) + of_nat j)"
    by (rule assms(1))
qed

lemma cut_nul_takeWhile:
  "cut_nul ys = takeWhile (\<lambda>c. c \<noteq> 0) ys @ (if 0 \<in> set ys then [0] else [])"
  by (induction ys) auto

lemma cut_nul_eq_iff:
  assumes "length ys = length zs"
  shows "cut_nul ys = cut_nul zs \<longleftrightarrow> takeWhile (\<lambda>c. c \<noteq> 0) ys = takeWhile (\<lambda>c. c \<noteq> 0) zs"
  using assms by (induction ys zs rule: list_induct2) auto

lemma take_bytes_at: "k \<le> n \<Longrightarrow> take k (bytes_at m a n) = bytes_at m a k"
  by (rule nth_equalityI) auto

lemma takeWhile_cstr:
  assumes "cstr m a xs" "length xs \<le> n"
  shows "takeWhile (\<lambda>c. c \<noteq> 0) (bytes_at m a n) = xs"
proof (cases "length xs = n")
  case True
  then have "bytes_at m a n = xs" using assms(1) by (simp add: cstr_def)
  then show ?thesis using assms(1) by (auto simp: cstr_def)
next
  case False
  have "takeWhile (\<lambda>c. c \<noteq> 0) (bytes_at m a n) = take (length xs) (bytes_at m a n)"
    using assms False cstr_nonzero [OF assms(1)] cstr_end [OF assms(1)]
    by (intro takeWhile_eq_take_P_nth) auto
  also have "\<dots> = bytes_at m a (length xs)" using assms(2) by (rule take_bytes_at)
  also have "\<dots> = xs" using assms(1) by (simp add: cstr_def)
  finally show ?thesis .
qed

lemma strncmp_entry:
  assumes "cstr m fname xs" "length xs \<le> 32"
  shows "strncmp m fname a 32 = 0 \<longleftrightarrow> entry_name (bytes_at m a 64) = xs"
  using takeWhile_cstr [OF assms]
  by (auto simp: strncmp_zero_iff cut_nul_eq_iff entry_name_def filename_def take_bytes_at)

lemma find_map: "List.find P (map f xs) = map_option f (List.find (\<lambda>x. P (f x)) xs)"
  by (induction xs) auto

lemma find_none: "(\<And>x. x \<in> set xs \<Longrightarrow> \<not> P x) \<Longrightarrow> List.find P xs = None"
  by (auto simp: find_None_iff)

lemma read_dentry_by_name_find:
  assumes "cstr (vmem s) fname xs" "accessible s fname (length xs + 1)"
  shows "read_dentry_by_name fname s =
    Some (if length xs \<le> 32 then List.find (\<lambda>d. entry_name d = xs) (dentries s) else None)"
proof -
  have len: "strlen (vmem s) fname = Some (of_nat (length xs))" using assms(1) by (rule strlen_cstr)
  have un: "unat (of_nat (length xs) :: u32) = length xs"
    using cstr_length [OF assms(1)] by (intro unat_of_nat32) simp
  have le: "of_nat (length xs) \<le> (32 :: u32) \<longleftrightarrow> length xs \<le> 32"
    using un by (simp add: word_le_nat_alt)
  show ?thesis
  proof (cases "length xs \<le> 32")
    case True
    then show ?thesis using assms len un le strncmp_entry [OF assms(1) True]
      by (simp add: read_dentry_by_name_def dentries_def find_map del: upt_rec_numeral)
  next
    case False
    then show ?thesis using assms len un le
      by (simp add: read_dentry_by_name_def find_none del: upt_rec_numeral)
  qed
qed

subsection \<open>File contents\<close>

text \<open>What a file holds according to the image: byte \<open>k\<close> is in the block its inode names.\<close>

definition block_no :: "mem \<Rightarrow> u32 \<Rightarrow> u32 \<Rightarrow> nat \<Rightarrow> u32" where
  "block_no m bb i k = load32 m (inode_addr bb i + 4 + of_nat k * 4)"

definition content_addr :: "mem \<Rightarrow> u32 \<Rightarrow> u32 \<Rightarrow> nat \<Rightarrow> u32" where
  "content_addr m bb i k = inode_addr bb (inode_cnt m bb) +
     block_no m bb i (k div 4096) * 4096 + of_nat (k mod 4096)"

definition file_content :: "mem \<Rightarrow> u32 \<Rightarrow> u32 \<Rightarrow> u8 list" where
  "file_content m bb i = map (\<lambda>k. m (content_addr m bb i k)) [0..<unat (inode_size m bb i)]"

text \<open>The part of the image that a read of file \<open>i\<close> looks at.\<close>

definition image_part :: "mem \<Rightarrow> u32 \<Rightarrow> u32 \<Rightarrow> u32 set" where
  "image_part m bb i = {a. unat (a - bb) < 12} \<union> {a. unat (a - inode_addr bb i) < 4096} \<union>
     {a. \<exists>k<unat (inode_size m bb i). a = content_addr m bb i k}"

definition blocks_valid :: "mem \<Rightarrow> u32 \<Rightarrow> u32 \<Rightarrow> nat \<Rightarrow> bool" where
  "blocks_valid m bb i n \<longleftrightarrow> (\<forall>k\<le>n div 4096. k < 1023 \<and> block_no m bb i k < datablk_cnt m bb)"

definition agree :: "mem \<Rightarrow> mem \<Rightarrow> u32 \<Rightarrow> u32 \<Rightarrow> bool" where
  "agree m m' bb i \<longleftrightarrow> (\<forall>a\<in>image_part m bb i. m' a = m a)"

lemma load32_cong:
  "(\<And>j. j < 4 \<Longrightarrow> m' (a + of_nat j) = m (a + of_nat j)) \<Longrightarrow> load32 m' a = load32 m a"
proof -
  assume eq: "\<And>j. j < 4 \<Longrightarrow> m' (a + of_nat j) = m (a + of_nat j)"
  show "load32 m' a = load32 m a"
    using eq [of 0] eq [of 1] eq [of 2] eq [of 3] by (simp add: load32_def)
qed

lemma load32_agree:
  assumes "agree m m' bb i" and "\<And>j. j < 4 \<Longrightarrow> a + of_nat j \<in> image_part m bb i"
  shows "load32 m' a = load32 m a"
  using assms by (intro load32_cong) (simp add: agree_def)

lemma agree_counts:
  assumes "agree m m' bb i"
  shows "direntry_cnt m' bb = direntry_cnt m bb" "inode_cnt m' bb = inode_cnt m bb"
    "datablk_cnt m' bb = datablk_cnt m bb" "inode_size m' bb i = inode_size m bb i"
proof -
  have stats: "bb + of_nat j \<in> image_part m bb i" if "j < 12" for j
    using that by (simp add: image_part_def)
  have "bb + of_nat (c + j) \<in> image_part m bb i" if "c + 4 \<le> 12" "j < 4" for c j :: nat
    using stats [of "c + j"] that by simp
  then have at: "load32 m' (bb + of_nat c) = load32 m (bb + of_nat c)" if "c + 4 \<le> 12" for c
    using that by (intro load32_agree [OF assms]) (simp add: add.assoc)
  show "direntry_cnt m' bb = direntry_cnt m bb" "inode_cnt m' bb = inode_cnt m bb"
    "datablk_cnt m' bb = datablk_cnt m bb"
    using at [of 0] at [of 4] at [of 8] by (simp_all add: direntry_cnt_def inode_cnt_def datablk_cnt_def)
  show "inode_size m' bb i = inode_size m bb i"
    unfolding inode_size_def by (rule load32_agree [OF assms]) (simp add: image_part_def)
qed

lemma inode_in_image: "x < 4096 \<Longrightarrow> inode_addr bb i + of_nat x \<in> image_part m bb i"
  by (simp add: image_part_def)

lemma agree_blocks:
  assumes "agree m m' bb i" "k < 1023"
  shows "block_no m' bb i k = block_no m bb i k"
  unfolding block_no_def
proof (rule load32_agree [OF assms(1)])
  fix j :: nat assume "j < 4"
  have "inode_addr bb i + 4 + of_nat k * 4 + of_nat j = inode_addr bb i + of_nat (4 + k * 4 + j)"
    by (simp add: add.assoc)
  moreover have "inode_addr bb i + of_nat (4 + k * 4 + j) \<in> image_part m bb i"
    by (rule inode_in_image) (use \<open>j < 4\<close> assms(2) in simp)
  ultimately show "inode_addr bb i + 4 + of_nat k * 4 + of_nat j \<in> image_part m bb i"
    by (simp only:)
qed

lemma inode_data_block:
  "k < 1023 \<Longrightarrow> inode_data m bb i (of_nat k) = Some (block_no m bb i k)"
  by (simp add: inode_data_def block_no_def)

lemma agree_content_addr:
  assumes "agree m m' bb i" "k div 4096 < 1023"
  shows "content_addr m' bb i k = content_addr m bb i k"
  using agree_counts(2) [OF assms(1)] agree_blocks [OF assms] by (simp add: content_addr_def)

lemma agree_content:
  "agree m m' bb i \<Longrightarrow> k < unat (inode_size m bb i) \<Longrightarrow>
    m' (content_addr m bb i k) = m (content_addr m bb i k)"
  by (auto simp: agree_def image_part_def)

lemma agree_refl [simp]: "agree m m bb i"
  by (simp add: agree_def)

text \<open>A buffer none of whose physical bytes lies under the part of the image being read.\<close>

definition clear_of_image :: "'a fs_scheme \<Rightarrow> u32 \<Rightarrow> nat \<Rightarrow> u32 \<Rightarrow> bool" where
  "clear_of_image s i n pb \<longleftrightarrow>
     (\<forall>a\<in>image_part (vmem s) (bootblk s) i. \<forall>pa. translate s a = Some pa \<longrightarrow> n \<le> unat (pa - pb))"

lemma clear_agree:
  assumes "clear_of_image s i n pb" "length bs \<le> n"
  shows "agree (vmem s) (vmem (s\<lparr>memory := write_bytes (memory s) pb bs\<rparr>)) (bootblk s) i"
  unfolding agree_def
proof
  fix a assume "a \<in> image_part (vmem s) (bootblk s) i"
  then show "vmem (s\<lparr>memory := write_bytes (memory s) pb bs\<rparr>) a = vmem s a"
    using assms by (intro vmem_write_outside) (auto simp: clear_of_image_def intro: order_trans)
qed

lemma div_mod_next:
  "(x :: nat) mod 4096 + 1 \<ge> 4096 \<Longrightarrow> Suc x div 4096 = x div 4096 + 1 \<and> Suc x mod 4096 = 0"
  "\<not> x mod 4096 + 1 \<ge> 4096 \<Longrightarrow> Suc x div 4096 = x div 4096 \<and> Suc x mod 4096 = x mod 4096 + 1"
  using mod_less_divisor [of 4096 x] by (auto simp: div_Suc mod_Suc)

lemma read_data_loop_copies:
  fixes s :: "'a fs_scheme" and i pb :: u32 and off n len :: nat
  defines "content \<equiv> drop off (file_content (vmem s) (bootblk s) i)"
  defines "st r \<equiv> s\<lparr>memory := write_bytes (memory s) pb (take r content)\<rparr>"
  assumes n: "n = min len (unat (inode_size (vmem s) (bootblk s) i) - off)"
    and off: "off < unat (inode_size (vmem s) (bootblk s) i)" and len: "len < 2147483648"
    and buf: "mapped_at s buf n pb" and clear: "clear_of_image s i n pb"
    and valid: "blocks_valid (vmem s) (bootblk s) i (off + n)"
    and r: "r \<le> n"
  shows "read_data_loop (inode_addr (bootblk s) (inode_cnt (vmem s) (bootblk s))) i (of_nat off) buf
    (int len) (int r) (of_nat ((off + r) div 4096)) (of_nat ((off + r) mod 4096)) (st r) =
    Some (st n, int n)"
  using r
proof (induction "n - r" arbitrary: r)
  case 0
  let ?m = "vmem s" and ?bb = "bootblk s"
  have [simp]: "r = n" using 0 by simp
  have agree: "agree ?m (vmem (st n)) ?bb i" unfolding st_def using clear by (rule clear_agree) simp
  have k: "(off + n) div 4096 < 1023" using valid by (auto simp: blocks_valid_def)
  have size: "unat (inode_size ?m ?bb i) < 4294967296" by simp
  have idx: "inode_data (vmem (st n)) ?bb i (of_nat ((off + n) div 4096)) =
      Some (block_no (vmem (st n)) ?bb i ((off + n) div 4096))"
    by (rule inode_data_block [OF k])
  have "off + n \<le> unat (inode_size ?m ?bb i)" using n off by (simp add: min_def split: if_splits)
  then have "off + n < 4294967296" by (rule le_less_trans [OF _ size])
  then have un: "unat (of_int (int n) + of_nat off :: u32) = n + off"
    by (simp add: add.commute flip: of_nat_add)
  have ended: "inode_size ?m ?bb i \<le> of_int (int n) + of_nat off" if "int n < int len"
    using that n off un by (simp add: word_le_nat_alt min_def split: if_splits)
  have bb: "bootblk (st x) = ?bb" for x by (simp add: st_def)
  show ?case
    using ended by (subst read_data_loop.simps) (auto simp: bb idx agree_counts(4) [OF agree])
next
  case (Suc d)
  let ?m = "vmem s" and ?bb = "bootblk s"
  have rn: "r < n" using Suc by simp
  have "Suc r \<le> n" "d = n - Suc r" using Suc by simp_all
  note IH = Suc.hyps(1) [OF this(2,1)]
  have agree: "agree ?m (vmem (st r)) ?bb i" unfolding st_def using clear by (rule clear_agree) (use rn in simp)
  have agree': "agree ?m (vmem (st (Suc r))) ?bb i" unfolding st_def using clear by (rule clear_agree) (use rn in simp)
  have size: "unat (inode_size ?m ?bb i) < 4294967296" by simp
  have in_file: "off + r < unat (inode_size ?m ?bb i)" using rn n by (simp add: min_def split: if_splits)
  have k: "(off + n) div 4096 < 1023" using valid by (auto simp: blocks_valid_def)
  have kr: "(off + r) div 4096 < 1023" using k rn div_le_mono [of "off + r" "off + n" 4096] by simp
  have kr': "(off + Suc r) div 4096 \<le> (off + n) div 4096" using rn by (intro div_le_mono) simp
  have byte: "vmem (st r) (content_addr ?m ?bb i (off + r)) = content ! r"
    using agree_content [OF agree in_file] in_file
    by (simp add: content_def file_content_def)
  have addr: "inode_addr ?bb (inode_cnt ?m ?bb) + block_no (vmem (st r)) ?bb i ((off + r) div 4096) * 4096 +
      of_nat ((off + r) mod 4096) = content_addr ?m ?bb i (off + r)"
    by (simp add: content_addr_def agree_blocks [OF agree kr])
  have wr: "put_byte (buf + of_int (int r)) (content ! r) (st r) = Some (st (Suc r))"
  proof -
    have "length content = unat (inode_size ?m ?bb i) - off" by (simp add: content_def file_content_def)
    then have r: "r < length content" using in_file by simp
    then have "(write_bytes (memory s) pb (take r content))(pb + of_nat r := content ! r) =
        write_bytes (memory s) pb (take (Suc r) content)"
      using write_bytes_snoc [of "take r content" "memory s" pb "content ! r"] in_file size
      by (simp add: take_Suc_conv_app_nth)
    moreover have "translate (st r) (buf + of_nat r) = Some (pb + of_nat r)"
      using mapped_at_nth [OF buf rn] by (simp add: st_def)
    ultimately show ?thesis by (simp add: put_byte_mapped) (simp add: st_def)
  qed
  have not_end: "\<not> inode_size ?m ?bb i \<le> of_int (int r) + of_nat off"
  proof -
    have "unat (of_nat (off + r) :: u32) = off + r"
      by (rule unat_of_nat32) (rule less_trans [OF in_file size])
    with in_file show ?thesis by (simp add: word_le_nat_alt add.commute)
  qed
  have bb: "bootblk (st x) = ?bb" for x by (simp add: st_def)
  have next_off: "of_nat ((off + r) mod 4096) + 1 \<ge> (4096 :: u32) \<longleftrightarrow> (off + r) mod 4096 + 1 \<ge> 4096"
  proof -
    have "unat (of_nat ((off + r) mod 4096 + 1) :: u32) = (off + r) mod 4096 + 1"
      using mod_less_divisor [of 4096 "off + r"] by (intro unat_of_nat32) simp
    moreover have "unat (4096 :: u32) = 4096" by simp
    ultimately show ?thesis by (simp only: word_le_nat_alt of_nat_add of_nat_1)
  qed
  have step: "read_data_loop (inode_addr ?bb (inode_cnt ?m ?bb)) i (of_nat off) buf (int len) (int r)
      (of_nat ((off + r) div 4096)) (of_nat ((off + r) mod 4096)) (st r) =
    (if (off + r) mod 4096 + 1 \<ge> 4096
     then Option.bind (inode_data (vmem (st (Suc r))) ?bb i (of_nat ((off + r) div 4096) + 1)) (\<lambda>next.
        if next \<ge> datablk_cnt (vmem (st (Suc r))) ?bb then Some (st (Suc r), - 1)
        else read_data_loop (inode_addr ?bb (inode_cnt ?m ?bb)) i (of_nat off) buf (int len)
          (int r + 1) (of_nat ((off + r) div 4096) + 1) 0 (st (Suc r)))
     else read_data_loop (inode_addr ?bb (inode_cnt ?m ?bb)) i (of_nat off) buf (int len)
          (int r + 1) (of_nat ((off + r) div 4096)) (of_nat ((off + r) mod 4096) + 1) (st (Suc r)))"
    using rn n not_end
    by (subst read_data_loop.simps)
      (simp only: bb inode_data_block [OF kr] bind.bind_lunit agree_counts(4) [OF agree] addr byte wr
        next_off if_False Option.bind.simps of_nat_less_iff min_less_iff_conj if_True)
  show ?case
  proof (cases "(off + r) mod 4096 + 1 \<ge> 4096")
    case True
    note nx = div_mod_next(1) [OF True]
    have "(off + r) div 4096 + 1 \<le> (off + n) div 4096" using kr' nx by simp
    then have kn: "(off + r) div 4096 + 1 < 1023"
        "block_no ?m ?bb i ((off + r) div 4096 + 1) < datablk_cnt ?m ?bb"
      using valid unfolding blocks_valid_def by blast+
    have "inode_data (vmem (st (Suc r))) ?bb i (of_nat ((off + r) div 4096 + 1)) =
        Some (block_no ?m ?bb i ((off + r) div 4096 + 1))"
      using inode_data_block [OF kn(1)] agree_blocks [OF agree' kn(1)] by simp
    moreover have "\<not> block_no ?m ?bb i ((off + r) div 4096 + 1) \<ge> datablk_cnt (vmem (st (Suc r))) ?bb"
      using kn(2) agree_counts(3) [OF agree'] by simp
    ultimately show ?thesis using step True nx IH by (simp add: add.commute)
  next
    case False
    show ?thesis using step False div_mod_next(2) [OF False] IH by (simp add: add.commute)
  qed
qed

text \<open>A read whose checks succeed copies the file's bytes from the offset on.\<close>

lemma read_data_copies:
  fixes s :: "'a fs_scheme" and i offset ulength :: u32
  defines "m \<equiv> vmem s" and "bb \<equiv> bootblk s"
  defines "n \<equiv> min (unat ulength) (unat (inode_size m bb i) - unat offset)"
  assumes "buf \<noteq> 0" "i < inode_cnt m bb" and off: "offset < inode_size m bb i"
    and "offset + ulength < direntry_cnt m bb * 4096" and len: "unat ulength < 2147483648"
    and buf: "mapped_at s buf n pb" and clear: "clear_of_image s i n pb"
    and valid: "blocks_valid m bb i (unat offset + n)"
  shows "read_data i offset buf ulength s =
    Some (s\<lparr>memory := write_bytes (memory s) pb (take n (drop (unat offset) (file_content m bb i)))\<rparr>, int n)"
proof -
  let ?k = "unat offset div 4096"
  have k: "?k < 1023" "block_no m bb i ?k < datablk_cnt m bb"
  proof -
    have "?k \<le> (unat offset + n) div 4096" by (intro div_le_mono) simp
    with valid show "?k < 1023" "block_no m bb i ?k < datablk_cnt m bb"
      unfolding blocks_valid_def by blast+
  qed
  have off': "unat offset < unat (inode_size m bb i)" using off by (simp add: word_less_nat_alt)
  have idx: "offset div 4096 = of_nat ?k"
    using le_less_trans [OF div_le_dividend unat_lt32 [of offset], of 4096]
    by (simp add: word_unat_eq_iff unat_div)
  have boff: "offset mod 4096 = of_nat (unat offset mod 4096)"
    using le_less_trans [OF mod_less_eq_dividend unat_lt32 [of offset], of 4096]
    by (simp add: word_unat_eq_iff unat_mod)
  have len': "sint ulength = int (unat ulength)" using len by (subst sint32) simp
  have "read_data i offset buf ulength s =
      read_data_loop (inode_addr bb (inode_cnt m bb)) i offset buf (sint ulength) 0
        (offset div 4096) (offset mod 4096) s"
    using assms(4-7) k(2) [unfolded not_le [symmetric]] inode_data_block [OF k(1), of m bb i]
    unfolding read_data_def Let_def m_def [symmetric] bb_def [symmetric] idx
    by (simp add: not_le [symmetric] del: of_nat_unat not_le)
  also have "\<dots> = Some (s\<lparr>memory := write_bytes (memory s) pb (take n (drop (unat offset) (file_content m bb i)))\<rparr>, int n)"
    using read_data_loop_copies [of n "unat ulength" s i "unat offset" buf pb 0] off' len buf clear valid
    unfolding idx boff len' by (simp add: n_def m_def bb_def del: of_nat_unat)
  finally show ?thesis .
qed

subsection \<open>Reading a file from start to end\<close>

text \<open>
  The interface \<^verbatim>\<open>read\<close> gives a program such as \<^verbatim>\<open>cat\<close>: each call yields the
  next bytes and moves the position past them.
\<close>

locale sequential_reader =
  fixes chunk :: "nat \<Rightarrow> 's \<Rightarrow> ('s \<times> 'b list) option"
    and content :: "'s \<Rightarrow> 'b list"
    and pos :: "'s \<Rightarrow> nat"
    and ready :: "'s \<Rightarrow> bool"
    and limit :: nat
  assumes chunk_law: "ready s \<Longrightarrow> 0 < n \<Longrightarrow> n \<le> limit \<Longrightarrow>
    \<exists>s'. chunk n s = Some (s', take n (drop (pos s) (content s))) \<and> ready s' \<and>
      content s' = content s \<and> pos s' = pos s + length (take n (drop (pos s) (content s)))"
begin

text \<open>The loop of a reader: call again until a call yields nothing.\<close>

primrec drain :: "nat \<Rightarrow> nat \<Rightarrow> 's \<Rightarrow> ('s \<times> 'b list) option" where
  "drain n 0 s = None"
| "drain n (Suc fuel) s = Option.bind (chunk n s) (\<lambda>(s', bs).
     if bs = [] then Some (s', []) else map_option (\<lambda>(s'', cs). (s'', bs @ cs)) (drain n fuel s'))"

lemma drain_reads_rest:
  assumes "ready s" "0 < n" "n \<le> limit" "length (content s) - pos s < fuel"
  shows "\<exists>s'. drain n fuel s = Some (s', drop (pos s) (content s)) \<and> ready s' \<and> content s' = content s"
  using assms
proof (induction fuel arbitrary: s)
  case (Suc fuel)
  let ?bs = "take n (drop (pos s) (content s))"
  obtain s' where s': "chunk n s = Some (s', ?bs)" "ready s'" "content s' = content s"
    "pos s' = pos s + length ?bs"
    using chunk_law [OF Suc.prems(1,2,3)] by blast
  show ?case
  proof (cases "?bs = []")
    case True
    then have "drop (pos s) (content s) = []" using Suc.prems(2) by auto
    with True s' show ?thesis by auto
  next
    case False
    then have "0 < length ?bs" by blast
    then have "length (content s') - pos s' < fuel" using Suc.prems(4) s' by auto
    from Suc.IH [OF s'(2) Suc.prems(2,3) this] obtain t where
      t: "drain n fuel s' = Some (t, drop (pos s') (content s))" "ready t" "content t = content s"
      using s'(3) by auto
    have "take n xs @ drop (length (take n xs)) xs = xs" for xs :: "'b list"
      by (cases "n \<le> length xs") simp_all
    then have "?bs @ drop (pos s') (content s) = drop (pos s) (content s)"
      unfolding s'(4) by (metis add.commute drop_drop)
    with False s'(1) t show ?thesis by auto
  qed
qed simp

end

subsection \<open>Open files are sequential readers\<close>

lemma bootblk_update_fd [simp]:
  "bootblk (update_fd fd f s) = bootblk s" "dir_read_count (update_fd fd f s) = dir_read_count s"
  by (simp_all add: update_fd_def update_pcb_def)

definition fd_inode :: "nat \<Rightarrow> 'a fs_scheme \<Rightarrow> u32" where
  "fd_inode fd s = inode (fds (get_current_pcb s) ! fd)"

definition fd_pos :: "nat \<Rightarrow> 'a fs_scheme \<Rightarrow> nat" where
  "fd_pos fd s = unat (file_position (fds (get_current_pcb s) ! fd))"

definition fd_content :: "nat \<Rightarrow> 'a fs_scheme \<Rightarrow> u8 list" where
  "fd_content fd s = file_content (vmem s) (bootblk s) (fd_inode fd s)"

definition file_chunk :: "nat \<Rightarrow> u32 \<Rightarrow> nat \<Rightarrow> 'a fs_scheme \<Rightarrow> ('a fs_scheme \<times> u8 list) option" where
  "file_chunk fd buf n s =
     map_option (\<lambda>(s', k). (s', bytes_at (vmem s') buf (nat k))) (file_read fd buf (of_nat n) s)"

text \<open>
  An open descriptor on a file whose blocks all exist, and a buffer of \<open>limit\<close> bytes that is
  mapped in one piece away from the image. The bound on the size is the one the code checks.
\<close>

definition file_ready :: "nat \<Rightarrow> u32 \<Rightarrow> nat \<Rightarrow> u32 \<Rightarrow> 'a fs_scheme \<Rightarrow> bool" where
  "file_ready fd buf limit pb s \<longleftrightarrow>
     (let m = vmem s; bb = bootblk s; i = fd_inode fd s; sz = unat (inode_size m bb i) in
      buf \<noteq> 0 \<and> limit < 2147483648 \<and> fd < length (fds (get_current_pcb s)) \<and>
      flags (fds (get_current_pcb s) ! fd) AND FD_IN_USE \<noteq> FD_NOT_IN_USE \<and>
      i < inode_cnt m bb \<and> unat (direntry_cnt m bb) < 63 \<and>
      sz + limit < unat (direntry_cnt m bb) * 4096 \<and> blocks_valid m bb i sz \<and>
      mapped_at s buf limit pb \<and> clear_of_image s i limit pb \<and> fd_pos fd s \<le> sz)"

lemma length_file_content [simp]: "length (file_content m bb i) = unat (inode_size m bb i)"
  by (simp add: file_content_def)

lemma mapped_at_mono: "mapped_at s va n pa \<Longrightarrow> k \<le> n \<Longrightarrow> mapped_at s va k pa"
  by (simp add: mapped_at_def)

lemma clear_of_image_mono: "clear_of_image s i n pb \<Longrightarrow> k \<le> n \<Longrightarrow> clear_of_image s i k pb"
  by (fastforce simp: clear_of_image_def)

lemma blocks_valid_mono: "blocks_valid m bb i n \<Longrightarrow> k \<le> n \<Longrightarrow> blocks_valid m bb i k"
  unfolding blocks_valid_def by (meson div_le_mono order_trans)

lemma agree_content_valid:
  assumes "agree m m' bb i" "blocks_valid m bb i (unat (inode_size m bb i))"
    "k < unat (inode_size m bb i)"
  shows "content_addr m' bb i k = content_addr m bb i k"
proof -
  have "k div 4096 \<le> unat (inode_size m bb i) div 4096" using assms(3) by (intro div_le_mono) simp
  then have "k div 4096 < 1023" using assms(2) unfolding blocks_valid_def by blast
  then show ?thesis by (rule agree_content_addr [OF assms(1)])
qed

lemma agree_image:
  assumes "agree m m' bb i" "blocks_valid m bb i (unat (inode_size m bb i))"
  shows "image_part m' bb i = image_part m bb i" "file_content m' bb i = file_content m bb i"
    "blocks_valid m' bb i n = blocks_valid m bb i n \<or> unat (inode_size m bb i) < n"
proof -
  show "image_part m' bb i = image_part m bb i"
    using agree_content_valid [OF assms] by (auto simp: image_part_def agree_counts [OF assms(1)])
  show "file_content m' bb i = file_content m bb i"
    using agree_content_valid [OF assms] agree_content [OF assms(1)]
    by (simp add: file_content_def agree_counts [OF assms(1)])
  show "blocks_valid m' bb i n = blocks_valid m bb i n \<or> unat (inode_size m bb i) < n"
    using agree_blocks [OF assms(1)] by (auto simp: blocks_valid_def agree_counts [OF assms(1)])
qed

lemma file_read_step:
  fixes s :: "'a fs_scheme" and fd :: nat
  defines "bs n \<equiv> take n (drop (fd_pos fd s) (fd_content fd s))"
  assumes ready: "file_ready fd buf limit pb s" and n: "0 < n" "n \<le> limit"
  shows "\<exists>s1. file_read fd buf (of_nat n) s = Some (update_fd fd
        (\<lambda>f. f\<lparr>file_position := file_position f + of_nat (length (bs n))\<rparr>) s1, int (length (bs n))) \<and>
      s1 = s\<lparr>memory := write_bytes (memory s) pb (bs n)\<rparr>"
proof -
  let ?f = "fds (get_current_pcb s) ! fd" and ?m = "vmem s" and ?bb = "bootblk s"
  let ?i = "fd_inode fd s" and ?s1 = "s\<lparr>memory := write_bytes (memory s) pb (bs n)\<rparr>"
  let ?sz = "unat (inode_size ?m ?bb ?i)"
  note r = ready [unfolded file_ready_def Let_def]
  have un: "unat (of_nat n :: u32) = n" using n r by (intro unat_of_nat32) linarith
  have n0: "(of_nat n :: u32) \<noteq> 0" using un n by auto
  have read: "read_data ?i (file_position ?f) buf (of_nat n) s = Some (?s1, int (length (bs n)))"
  proof (cases "fd_pos fd s < ?sz")
    case True
    let ?n = "min n (?sz - fd_pos fd s)"
    have pos: "fd_pos fd s = unat (file_position ?f)" by (simp add: fd_pos_def)
    have bound: "file_position ?f + of_nat n < direntry_cnt ?m ?bb * 4096"
    proof -
      have "file_position ?f + of_nat n = of_nat (fd_pos fd s + n)" by (simp add: pos)
      moreover have "unat (of_nat (fd_pos fd s + n) :: u32) = fd_pos fd s + n"
        by (rule unat_of_nat32) (use r n in linarith)
      moreover have "direntry_cnt ?m ?bb * 4096 = of_nat (unat (direntry_cnt ?m ?bb) * 4096)" by simp
      moreover have "unat (of_nat (unat (direntry_cnt ?m ?bb) * 4096) :: u32) = unat (direntry_cnt ?m ?bb) * 4096"
        by (rule unat_of_nat32) (use r in linarith)
      ultimately show ?thesis using r n by (simp only: word_less_nat_alt) linarith
    qed
    have "read_data ?i (file_position ?f) buf (of_nat n) s =
      Some (s\<lparr>memory := write_bytes (memory s) pb (take ?n (drop (fd_pos fd s) (fd_content fd s)))\<rparr>, int ?n)"
      using read_data_copies [of buf ?i s "file_position ?f" "of_nat n" pb] True r n bound un
        mapped_at_mono [of s buf limit pb ?n] clear_of_image_mono [of s ?i limit pb ?n]
        blocks_valid_mono [of ?m ?bb ?i ?sz "fd_pos fd s + ?n"]
      by (simp add: pos fd_content_def word_less_nat_alt)
    moreover have "take ?n (drop (fd_pos fd s) (fd_content fd s)) = bs n"
      by (rule nth_equalityI) (simp_all add: bs_def fd_content_def)
    moreover have "length (bs n) = ?n" by (simp add: bs_def fd_content_def)
    ultimately show ?thesis by simp
  next
    case False
    then have "bs n = []" by (simp add: bs_def fd_content_def)
    moreover have "\<not> inode_cnt ?m ?bb \<le> ?i" using r by (simp only: not_le)
    moreover have "inode_size ?m ?bb ?i \<le> file_position ?f"
      using False by (simp add: fd_pos_def word_le_nat_alt)
    ultimately show ?thesis using r by (simp add: read_data_def Let_def)
  qed
  then show ?thesis using r n0 by (simp add: file_read_def Let_def fd_inode_def)
qed

lemma file_ready_step:
  fixes s :: "'a fs_scheme" and fd :: nat
  assumes ready: "file_ready fd buf limit pb s" and bs: "bs = take n (drop (fd_pos fd s) (fd_content fd s))"
    and n: "n \<le> limit"
    and s': "s' = update_fd fd (\<lambda>f. f\<lparr>file_position := file_position f + of_nat (length bs)\<rparr>)
        (s\<lparr>memory := write_bytes (memory s) pb bs\<rparr>)"
  shows "file_ready fd buf limit pb s'" "fd_content fd s' = fd_content fd s"
    "fd_pos fd s' = fd_pos fd s + length bs" "bytes_at (vmem s') buf (length bs) = bs"
proof -
  let ?m = "vmem s" and ?bb = "bootblk s" and ?i = "fd_inode fd s"
  let ?sz = "unat (inode_size ?m ?bb ?i)" and ?s1 = "s\<lparr>memory := write_bytes (memory s) pb bs\<rparr>"
  note r = ready [unfolded file_ready_def Let_def]
  have fd: "fd < length (fds (get_current_pcb s))" using r by simp
  have len: "length bs \<le> n" "length bs \<le> ?sz - fd_pos fd s"
    by (simp_all add: bs fd_content_def)
  have pcb: "get_current_pcb ?s1 = get_current_pcb s" by (simp add: get_current_pcb_def)
  have view: "vmem s' = vmem ?s1" "translate s' = translate s" "bootblk s' = ?bb"
    by (simp_all add: s')
  have inode: "fd_inode fd s' = ?i" by (simp add: s' fd_inode_def pcb fd)
  have agree: "agree ?m (vmem s') ?bb ?i"
    unfolding view(1) by (rule clear_agree [of s ?i limit pb]) (use r len n in auto)
  have valid: "blocks_valid ?m ?bb ?i ?sz" using r by simp
  note same = agree_counts [OF agree] agree_image [OF agree valid]
  show content: "fd_content fd s' = fd_content fd s"
    by (simp add: fd_content_def inode view(3) same)
  have "unat (file_position (fds (get_current_pcb s) ! fd) + of_nat (length bs)) = fd_pos fd s + length bs"
  proof -
    have "fd_pos fd s + length bs \<le> ?sz" using len(2) r by linarith
    then have "fd_pos fd s + length bs < 4294967296" by (rule le_less_trans) simp
    then have "unat (of_nat (fd_pos fd s + length bs) :: u32) = fd_pos fd s + length bs"
      by (rule unat_of_nat32)
    then show ?thesis by (simp add: fd_pos_def)
  qed
  then show pos: "fd_pos fd s' = fd_pos fd s + length bs"
    by (simp add: fd_pos_def s' pcb fd)
  have lim: "length bs \<le> limit" using len(1) n by simp
  have buf: "mapped_at s buf limit pb" "limit < 2147483648" "clear_of_image s ?i limit pb" using r by blast+
  have "length bs < 4294967296" using lim buf(2) by simp
  with mapped_at_mono [OF buf(1) lim] show "bytes_at (vmem s') buf (length bs) = bs"
    unfolding view(1) by (rule bytes_at_vmem_write)
  have "mapped_at s' buf limit pb" using r by (simp add: mapped_at_def view(2))
  moreover have "clear_of_image s' ?i limit pb"
    using buf(3) unfolding clear_of_image_def view(2,3) same(5) .
  moreover have "blocks_valid (vmem s') ?bb ?i ?sz" using same(7) [of ?sz] valid by simp
  moreover have "flags (fds (get_current_pcb s') ! fd) = flags (fds (get_current_pcb s) ! fd)"
      "length (fds (get_current_pcb s')) = length (fds (get_current_pcb s))"
    by (simp_all add: s' pcb fd)
  moreover have "fd_pos fd s + length bs \<le> ?sz" using len(2) r by linarith
  ultimately show "file_ready fd buf limit pb s'"
    using r by (simp add: file_ready_def Let_def inode view(3) same pos)
qed

interpretation opened: sequential_reader "file_chunk fd buf" "fd_content fd" "fd_pos fd"
  "file_ready fd buf limit pb" limit
  for fd :: nat and buf pb :: u32 and limit :: nat
proof
  fix s :: "'a fs_scheme" and n :: nat
  let ?bs = "take n (drop (fd_pos fd s) (fd_content fd s))"
  assume ready: "file_ready fd buf limit pb s" and n: "0 < n" "n \<le> limit"
  let ?s' = "update_fd fd (\<lambda>f. f\<lparr>file_position := file_position f + of_nat (length ?bs)\<rparr>)
      (s\<lparr>memory := write_bytes (memory s) pb ?bs\<rparr>)"
  note step = file_ready_step [OF ready refl n(2) refl]
  have "file_read fd buf (of_nat n) s = Some (?s', int (length ?bs))"
    using file_read_step [OF ready n] by blast
  then have "file_chunk fd buf n s = Some (?s', ?bs)"
    unfolding file_chunk_def using step(4) by (simp only: option.map prod.case nat_int)
  with step(1-3) show "\<exists>s'. file_chunk fd buf n s = Some (s', ?bs) \<and> file_ready fd buf limit pb s' \<and>
      fd_content fd s' = fd_content fd s \<and> fd_pos fd s' = fd_pos fd s + length ?bs"
    by blast
qed

subsection \<open>A small image\<close>

text \<open>
  One file, five bytes long, in a boot-time address space: the image at 0x440000 has two
  inodes and three data blocks, and entry 0 names inode 1, whose first block is block 1.
\<close>

definition demo_image :: mem where
  "demo_image = (\<lambda>a.
     if a = 0x440000 then 2 else if a = 0x440004 then 2 else if a = 0x440008 then 3
     else if a = 0x440040 then 0x66 else if a = 0x440060 then 2 else if a = 0x440064 then 1
     else if a = 0x442000 then 5 else if a = 0x442004 then 1
     else if a = 0x444000 then 0x68 else if a = 0x444001 then 0x65 else if a = 0x444002 then 0x6C
     else if a = 0x444003 then 0x6C else if a = 0x444004 then 0x6F
     else if a = 0x500100 then 0x66 else 0)"

definition idle_fd :: file_desc where
  "idle_fd = \<lparr>jumptable = None, inode = 0, file_position = 0, flags = 0\<rparr>"

definition demo_fds :: "file_desc list" where
  "demo_fds = [\<lparr>jumptable = Some Std_in_fops, inode = 0, file_position = 0, flags = 1\<rparr>,
     \<lparr>jumptable = Some Std_out_fops, inode = 0, file_position = 0, flags = 1\<rparr>,
     \<lparr>jumptable = Some Fs_fops, inode = 1, file_position = 0, flags = 1\<rparr>,
     idle_fd, idle_fd, idle_fd, idle_fd, idle_fd]"

definition blank_pcb :: pcb where
  "blank_pcb = \<lparr>fds = demo_fds, raw_argv = replicate 128 0, argv0 = None, argv1 = None, pid = 0,
     parent_ksp = 0, parent_kbp = 0, ksp = 0, kbp = 0, parent_pid = - 1, parent_pcb = None,
     child_pcb = None, child_return = 0\<rparr>"

definition demo_cold :: fs where
  "demo_cold = paging.extend cold_tables
     \<lparr>procs = 0x80, running_pid = 0, program_exception = 0, pcbs = (\<lambda>_. blank_pcb), tss_esp0 = 0,
      bootblk = 0x440000, dir_read_count = 0\<rparr>"

definition demo :: fs where
  "demo = init_paging (demo_cold\<lparr>memory := demo_image\<rparr>)"

lemma demo_fields [simp]:
  "bootblk demo = 0x440000" "running_pid demo = 0" "pcbs demo = (\<lambda>_. blank_pcb)"
  "memory demo = demo_image" "procs demo = 0x80" "dir_read_count demo = 0"
  by (simp_all add: demo_def init_paging_def Let_def demo_cold_def paging.extend_def cold_tables_def
      del: upt_rec_numeral)

lemma demo_walk:
  "unat va < 0x800000 \<Longrightarrow> translate demo va = (if unat va < 4096 then None else Some va)"
proof -
  assume va: "unat va < 0x800000"
  have "tables_placed (demo_cold\<lparr>memory := demo_image\<rparr>)"
    using cold_placed
    by (simp add: tables_placed_def proc_table_addr_def demo_cold_def paging.extend_def)
  from init_paging_walk [OF this, of va] va show ?thesis
    by (simp add: translate_def demo_def word_less_nat_alt)
qed

lemma demo_translate: "4096 \<le> unat va \<Longrightarrow> unat va < 0x800000 \<Longrightarrow> translate demo va = Some va"
  by (simp add: demo_walk)

lemma demo_vmem: "4096 \<le> unat va \<Longrightarrow> unat va < 0x800000 \<Longrightarrow> vmem demo va = demo_image va"
  using vmem_mapped [OF demo_translate] by simp

lemma demo_counts [simp]:
  "direntry_cnt (vmem demo) 0x440000 = 2" "inode_cnt (vmem demo) 0x440000 = 2"
  "datablk_cnt (vmem demo) 0x440000 = 3" "inode_size (vmem demo) 0x440000 1 = 5"
  "block_no (vmem demo) 0x440000 1 0 = 1"
  by (simp_all add: direntry_cnt_def inode_cnt_def datablk_cnt_def inode_size_def inode_addr_def
      block_no_def load32_def demo_vmem demo_image_def)

lemma demo_content_addr: "k < 5 \<Longrightarrow> content_addr (vmem demo) 0x440000 1 k = 0x444000 + of_nat k"
  by (simp add: content_addr_def inode_addr_def)

lemma upt5: "[0..<5] = [0, 1, 2, 3, 4 :: nat]"
  by (simp add: upt_rec)

lemma demo_content: "file_content (vmem demo) 0x440000 1 = [0x68, 0x65, 0x6C, 0x6C, 0x6F]"
  by (simp add: file_content_def upt5 demo_content_addr demo_vmem demo_image_def)

lemma demo_valid: "n < 4096 \<Longrightarrow> blocks_valid (vmem demo) 0x440000 1 n"
  by (simp add: blocks_valid_def)

lemma demo_image_part:
  "a \<in> image_part (vmem demo) 0x440000 1 \<Longrightarrow> 0x440000 \<le> unat a \<and> unat a < 0x450000"
proof -
  assume "a \<in> image_part (vmem demo) 0x440000 1"
  then consider "unat (a - 0x440000) < 12" | "unat (a - 0x442000) < 4096"
    | k where "k < 5" "a = 0x444000 + of_nat k"
    by (auto simp: image_part_def inode_addr_def demo_content_addr)
  then show ?thesis
  proof cases
    case 1
    with unat_offset_eq [OF this] show ?thesis by simp
  next
    case 2
    with unat_offset_eq [OF this] show ?thesis by simp
  next
    case 3
    then have "unat (a - 0x444000) < 5" by simp
    with unat_offset_eq [OF this] show ?thesis by simp
  qed
qed

lemma demo_buffer:
  assumes "n \<le> 0x1000"
  shows "mapped_at demo 0x500000 n 0x500000" "clear_of_image demo 1 n 0x500000"
proof -
  have "unat (0x500000 + of_nat i :: u32) = 0x500000 + i" if "i < n" for i
  proof -
    have "unat (of_nat (0x500000 + i) :: u32) = 0x500000 + i"
      by (rule unat_of_nat32) (use that assms in simp)
    then show ?thesis by simp
  qed
  then show "mapped_at demo 0x500000 n 0x500000"
    using assms by (simp add: mapped_at_def demo_translate)
  show "clear_of_image demo 1 n 0x500000"
    unfolding clear_of_image_def
  proof (intro ballI allI impI)
    fix a pa assume a: "a \<in> image_part (vmem demo) (bootblk demo) 1" "translate demo a = Some pa"
    then have "unat a < 0x450000" using demo_image_part by simp
    with a(2) have "pa = a" "unat pa < 0x450000" by (auto simp: demo_walk split: if_splits)
    then show "n \<le> unat (pa - 0x500000)" using assms by (simp add: unat_sub_if')
  qed
qed

lemma demo_ready: "file_ready 2 0x500000 2 0x500000 demo"
  by (simp add: file_ready_def Let_def get_current_pcb_def blank_pcb_def demo_fds_def fd_inode_def
      fd_pos_def demo_valid demo_buffer)

subsection \<open>Properties\<close>

text \<open>
  C21: Looking a file up by name yields the first of the 63 directory entries whose name, cut
  at its NUL or at 32 bytes, is the given string, and fails for any longer string.
\<close>

theorem name_lookup:
  assumes "cstr (vmem s) fname xs" "accessible s fname (length xs + 1)"
  shows "read_dentry_by_name fname s =
    Some (if length xs \<le> 32 then List.find (\<lambda>d. entry_name d = xs) (dentries s) else None)"
  using assms by (rule read_dentry_by_name_find)

lemma name_lookup_witness:
  "read_dentry_by_name 0x500100 demo =
    Some (List.find (\<lambda>d. entry_name d = [0x66]) (dentries demo))"
proof -
  have "cstr (vmem demo) 0x500100 [0x66]"
    by (simp add: cstr_def bytes_at_Suc demo_vmem demo_image_def)
  moreover have "accessible demo 0x500100 2"
    by (simp add: accessible_def upt_rec demo_translate)
  ultimately show ?thesis using name_lookup [of demo "0x500100" "[0x66]"] by (simp add: numeral_2_eq_2)
qed

text \<open>
  C13: A read whose arguments pass the checks stores exactly the file's bytes from the offset
  on, at most \<open>ulength\<close> of them and none past the end of the file, in the buffer, returns
  their number and changes no other byte of memory.
\<close>

theorem read_data_correct:
  assumes "buf \<noteq> 0" "i < inode_cnt (vmem s) (bootblk s)"
    and "offset < inode_size (vmem s) (bootblk s) i"
    and "offset + ulength < direntry_cnt (vmem s) (bootblk s) * 4096" "unat ulength < 2147483648"
    and "n = min (unat ulength) (unat (inode_size (vmem s) (bootblk s) i) - unat offset)"
    and "mapped_at s buf n pb" "clear_of_image s i n pb"
    and "blocks_valid (vmem s) (bootblk s) i (unat offset + n)"
  shows "read_data i offset buf ulength s = Some (s\<lparr>memory := write_bytes (memory s) pb
    (take n (drop (unat offset) (file_content (vmem s) (bootblk s) i)))\<rparr>, int n)"
  using read_data_copies [of buf i s offset ulength pb] assms by simp

lemma read_data_correct_witness:
  "read_data 1 2 0x500000 100 demo =
    Some (demo\<lparr>memory := write_bytes demo_image 0x500000 [0x6C, 0x6C, 0x6F]\<rparr>, 3)"
  using read_data_correct [of "0x500000" 1 demo 2 100 3 "0x500000"]
  by (simp add: demo_content demo_valid demo_buffer)

text \<open>
  A read that one of the checks on its arguments rejects leaves the machine as it was. The
  last check compares the end of
  the request with the number of directory entries times the block size, not with the number
  of data blocks, so a request inside a file is refused when there are few entries.
\<close>

theorem read_data_rejections:
  "read_data i offset 0 ulength s = Some (s, - 1) \<and>
   (buf \<noteq> 0 \<and> inode_cnt (vmem s) (bootblk s) \<le> i \<longrightarrow>
     read_data i offset buf ulength s = Some (s, - 1)) \<and>
   (buf \<noteq> 0 \<and> i < inode_cnt (vmem s) (bootblk s) \<and> inode_size (vmem s) (bootblk s) i \<le> offset \<longrightarrow>
     read_data i offset buf ulength s = Some (s, 0)) \<and>
   (buf \<noteq> 0 \<and> i < inode_cnt (vmem s) (bootblk s) \<and> offset < inode_size (vmem s) (bootblk s) i \<and>
     direntry_cnt (vmem s) (bootblk s) * 4096 \<le> offset + ulength \<longrightarrow>
     read_data i offset buf ulength s = Some (s, - 1))"
  by (simp add: read_data_def Let_def not_le [symmetric] del: not_le)

lemma read_data_rejections_witness: "read_data 1 0 0x500000 0x2000 demo = Some (demo, - 1)"
  using read_data_rejections [of 1 0 "0x2000" demo "0x500000"] by simp

text \<open>
  C18: Reading an open file again and again with any buffer size, as \<^verbatim>\<open>cat\<close> does, until
  a read yields nothing, delivers the rest of the file exactly once and in order, and ends.
\<close>

theorem reading_drains_file:
  assumes "file_ready fd buf limit pb s" "0 < n" "n \<le> limit"
    and "length (fd_content fd s) - fd_pos fd s < fuel"
  shows "\<exists>s'. sequential_reader.drain (file_chunk fd buf) n fuel s =
    Some (s', drop (fd_pos fd s) (fd_content fd s)) \<and> fd_content fd s' = fd_content fd s"
  using opened.drain_reads_rest [OF assms] by blast

lemma reading_drains_file_witness:
  "\<exists>s'. sequential_reader.drain (file_chunk 2 0x500000) 2 6 demo =
    Some (s', [0x68, 0x65, 0x6C, 0x6C, 0x6F]) \<and> fd_content 2 s' = [0x68, 0x65, 0x6C, 0x6C, 0x6F]"
proof -
  have "fd_content 2 demo = [0x68, 0x65, 0x6C, 0x6C, 0x6F]" "fd_pos 2 demo = 0"
    by (simp_all add: fd_content_def fd_pos_def fd_inode_def get_current_pcb_def blank_pcb_def
        demo_fds_def demo_content)
  with reading_drains_file [OF demo_ready, of 2 6] show ?thesis by simp
qed

end
