(* ===== verification/Lib_Memory.thy ===== *)
theory Lib_Memory
  imports Prelude
begin

text \<open>
  The memory routines of \<^verbatim>\<open>student-distrib/lib.c\<close>: \<^verbatim>\<open>memset\<close>,
  \<^verbatim>\<open>memset_word\<close>, \<^verbatim>\<open>memset_dword\<close>, \<^verbatim>\<open>memcpy\<close> and
  \<^verbatim>\<open>memmove\<close>. They are inline assembly; each loop of the assembly is a recursion
  on the count register, with \<open>edi\<close> and \<open>esi\<close> passed along. The reference
  operations \<open>copy_bytes\<close> and \<open>fill_bytes\<close> say in one line what the routines are
  for, and the lemmas show when the optimised routines compute them.
\<close>

subsection \<open>Reference operations\<close>

definition copy_bytes :: "mem \<Rightarrow> u32 \<Rightarrow> u32 \<Rightarrow> nat \<Rightarrow> mem" where
  "copy_bytes m d s n = (\<lambda>a. if unat (a - d) < n then m (s + (a - d)) else m a)"

definition fill_bytes :: "mem \<Rightarrow> u32 \<Rightarrow> nat \<Rightarrow> u8 \<Rightarrow> mem" where
  "fill_bytes m d n c = (\<lambda>a. if unat (a - d) < n then c else m a)"

declare copy_bytes_def [mem_defs] fill_bytes_def [mem_defs]

subsection \<open>The routines\<close>

text \<open>\<^verbatim>\<open>.memcpy_bottom\<close>: one byte per turn, \<open>edx\<close> counts down.\<close>

fun memcpy_bottom :: "mem \<Rightarrow> u32 \<Rightarrow> u32 \<Rightarrow> nat \<Rightarrow> mem" where
  "memcpy_bottom m edi esi 0 = m"
| "memcpy_bottom m edi esi (Suc edx) = memcpy_bottom (m(edi := m esi)) (edi + 1) (esi + 1) edx"

text \<open>\<^verbatim>\<open>movsl\<close> reads a double word and then writes it.\<close>

definition movsl :: "mem \<Rightarrow> u32 \<Rightarrow> u32 \<Rightarrow> mem" where
  "movsl m edi esi = m(edi := m esi, edi + 1 := m (esi + 1),
     edi + 2 := m (esi + 2), edi + 3 := m (esi + 3))"

fun rep_movsl :: "mem \<Rightarrow> u32 \<Rightarrow> u32 \<Rightarrow> nat \<Rightarrow> mem \<times> u32 \<times> u32" where
  "rep_movsl m edi esi 0 = (m, edi, esi)"
| "rep_movsl m edi esi (Suc ecx) = rep_movsl (movsl m edi esi) (edi + 4) (esi + 4) ecx"

definition memcpy_aligned :: "mem \<Rightarrow> u32 \<Rightarrow> u32 \<Rightarrow> nat \<Rightarrow> mem" where
  "memcpy_aligned m edi esi ecx =
     (let edx = ecx mod 4; (m', edi', esi') = rep_movsl m edi esi (ecx div 4)
      in memcpy_bottom m' edi' esi' edx)"

fun memcpy_top :: "mem \<Rightarrow> u32 \<Rightarrow> u32 \<Rightarrow> nat \<Rightarrow> mem" where
  "memcpy_top m edi esi 0 = m"
| "memcpy_top m edi esi (Suc ecx) =
     (if edi AND 3 = 0 then memcpy_aligned m edi esi (Suc ecx)
      else memcpy_top (m(edi := m esi)) (edi + 1) (esi + 1) ecx)"

definition memcpy :: "mem \<Rightarrow> u32 \<Rightarrow> u32 \<Rightarrow> u32 \<Rightarrow> mem" where
  "memcpy m dest src n = memcpy_top m dest src (unat n)"

text \<open>
  \<^verbatim>\<open>memset\<close>: \<open>eax\<close> holds the byte four times, \<^verbatim>\<open>stosl\<close> stores
  the double word.
\<close>

fun memset_bottom :: "mem \<Rightarrow> u32 \<Rightarrow> u32 \<Rightarrow> nat \<Rightarrow> mem" where
  "memset_bottom m eax edi 0 = m"
| "memset_bottom m eax edi (Suc edx) = memset_bottom (m(edi := ucast eax)) eax (edi + 1) edx"

fun rep_stosl :: "mem \<Rightarrow> u32 \<Rightarrow> u32 \<Rightarrow> nat \<Rightarrow> mem \<times> u32" where
  "rep_stosl m eax edi 0 = (m, edi)"
| "rep_stosl m eax edi (Suc ecx) = rep_stosl (store32 m edi eax) eax (edi + 4) ecx"

definition memset_aligned :: "mem \<Rightarrow> u32 \<Rightarrow> u32 \<Rightarrow> nat \<Rightarrow> mem" where
  "memset_aligned m eax edi ecx =
     (let edx = ecx mod 4; (m', edi') = rep_stosl m eax edi (ecx div 4)
      in memset_bottom m' eax edi' edx)"

fun memset_top :: "mem \<Rightarrow> u32 \<Rightarrow> u32 \<Rightarrow> nat \<Rightarrow> mem" where
  "memset_top m eax edi 0 = m"
| "memset_top m eax edi (Suc ecx) =
     (if edi AND 3 = 0 then memset_aligned m eax edi (Suc ecx)
      else memset_top (m(edi := ucast eax)) eax (edi + 1) ecx)"

definition memset :: "mem \<Rightarrow> u32 \<Rightarrow> u32 \<Rightarrow> u32 \<Rightarrow> mem" where
  "memset m s c n =
     (let c' = c AND 0xFF;
          eax = push_bit 24 c' OR push_bit 16 c' OR push_bit 8 c' OR c'
      in memset_top m eax s (unat n))"

fun rep_stosw :: "mem \<Rightarrow> u32 \<Rightarrow> u32 \<Rightarrow> nat \<Rightarrow> mem" where
  "rep_stosw m eax edi 0 = m"
| "rep_stosw m eax edi (Suc ecx) =
     rep_stosw (m(edi := ucast eax, edi + 1 := ucast (drop_bit 8 eax))) eax (edi + 2) ecx"

definition memset_word :: "mem \<Rightarrow> u32 \<Rightarrow> u32 \<Rightarrow> u32 \<Rightarrow> mem" where
  "memset_word m s c n = rep_stosw m c s (unat n)"

definition memset_dword :: "mem \<Rightarrow> u32 \<Rightarrow> u32 \<Rightarrow> u32 \<Rightarrow> mem" where
  "memset_dword m s c n = fst (rep_stosl m c s (unat n))"

text \<open>
  \<^verbatim>\<open>memmove\<close>: \<^verbatim>\<open>rep movsb\<close> upwards when \<open>esi \<ge> edi\<close> (unsigned), else from the
  last byte downwards with the direction flag set.
\<close>

fun rep_movsb_up :: "mem \<Rightarrow> u32 \<Rightarrow> u32 \<Rightarrow> nat \<Rightarrow> mem" where
  "rep_movsb_up m edi esi 0 = m"
| "rep_movsb_up m edi esi (Suc ecx) = rep_movsb_up (m(edi := m esi)) (edi + 1) (esi + 1) ecx"

fun rep_movsb_down :: "mem \<Rightarrow> u32 \<Rightarrow> u32 \<Rightarrow> nat \<Rightarrow> mem" where
  "rep_movsb_down m edi esi 0 = m"
| "rep_movsb_down m edi esi (Suc ecx) = rep_movsb_down (m(edi := m esi)) (edi - 1) (esi - 1) ecx"

definition memmove :: "mem \<Rightarrow> u32 \<Rightarrow> u32 \<Rightarrow> u32 \<Rightarrow> mem" where
  "memmove m dest src n =
     (if dest \<le> src then rep_movsb_up m dest src (unat n)
      else rep_movsb_down m (dest + n - 1) (src + n - 1) (unat n))"

subsection \<open>Copying upwards\<close>

text \<open>
  A copy that runs upwards is right when the destination is the source itself or does
  not start inside the source region.
\<close>

definition up_safe :: "u32 \<Rightarrow> u32 \<Rightarrow> nat \<Rightarrow> bool" where
  "up_safe d s n \<longleftrightarrow> d = s \<or> n \<le> unat (d - s)"

lemma copy_bytes_0 [simp]: "copy_bytes m d s 0 = m"
  by (simp add: copy_bytes_def)

lemma copy_bytes_self [simp]: "copy_bytes m d d n = m"
  by (simp add: copy_bytes_def fun_eq_iff)

lemma up_safe_Suc: "up_safe d s (Suc n) \<Longrightarrow> up_safe (d + 1) (s + 1) n"
  by (auto simp: up_safe_def)

lemma up_safe_step:
  "up_safe d s (n + k) \<Longrightarrow> up_safe (d + of_nat k) (s + of_nat k) n"
  by (auto simp: up_safe_def)

lemma unat_offset_step:
  fixes a d :: u32
  assumes "a \<noteq> d"
  shows "unat (a - (d + 1)) = unat (a - d) - 1"
proof -
  have eq: "a - (d + 1) = (a - d) - 1" by simp
  show ?thesis unfolding eq by (rule unat_minus_one32) (use assms in simp)
qed

lemma copy_bytes_Suc:
  assumes "up_safe d s (Suc n)" and "n < 4294967295"
  shows "copy_bytes (m(d := m s)) (d + 1) (s + 1) n = copy_bytes m d s (Suc n)"
proof (cases "d = s")
  case True
  then show ?thesis by simp
next
  case False
  with assms(1) have le: "Suc n \<le> unat (d - s)" by (simp add: up_safe_def)
  show ?thesis
  proof
    fix a
    show "copy_bytes (m(d := m s)) (d + 1) (s + 1) n a = copy_bytes m d s (Suc n) a"
    proof (cases "a = d")
      case True
      have "unat (d - (d + 1)) = 4294967295" by simp
      with assms(2) True show ?thesis by (simp add: copy_bytes_def)
    next
      case False
      then have pos: "0 < unat (a - d)" by (simp add: unat_gt_0)
      have src: "s + 1 + (a - (d + 1)) = s + (a - d)" by simp
      have "s + (a - d) \<noteq> d" if "unat (a - d) < Suc n"
      proof
        assume "s + (a - d) = d"
        then have "a - d = d - s" by (simp add: algebra_simps)
        with that le show False by simp
      qed
      with False pos src unat_offset_step [OF False] show ?thesis
        by (auto simp: copy_bytes_def)
    qed
  qed
qed

lemma memcpy_bottom_copy:
  "up_safe d s n \<Longrightarrow> n < 4294967296 \<Longrightarrow> memcpy_bottom m d s n = copy_bytes m d s n"
proof (induction n arbitrary: m d s)
  case (Suc n)
  then show ?case using up_safe_Suc copy_bytes_Suc by simp
qed simp

lemma rep_movsb_up_bottom: "rep_movsb_up m d s n = memcpy_bottom m d s n"
  by (induction n arbitrary: m d s) auto

lemma memcpy_bottom_add:
  "memcpy_bottom m d s (k + n) =
     memcpy_bottom (memcpy_bottom m d s k) (d + of_nat k) (s + of_nat k) n"
  by (induction k arbitrary: m d s) (auto simp: algebra_simps)

lemma up_safe_ne:
  assumes "up_safe d s n" "d \<noteq> s" "i < n"
  shows "s + of_nat i \<noteq> d"
proof
  assume "s + of_nat i = d"
  then have "d - s = of_nat i" by auto
  moreover have le: "n \<le> unat (d - s)" using assms by (simp add: up_safe_def)
  moreover have "i < 4294967296"
    using le assms(3) unat_lt32 [of "d - s"] by linarith
  ultimately show False using assms(3) by simp
qed

lemma movsl_bottom:
  assumes "up_safe d s (n + 4)"
  shows "movsl m d s = memcpy_bottom m d s 4"
proof (cases "d = s")
  case True
  then show ?thesis by (simp add: movsl_def numeral_eq_Suc)
next
  case False
  then have "s + 1 \<noteq> d" "s + 2 \<noteq> d" "s + 3 \<noteq> d"
    using up_safe_ne [OF assms, of 1] up_safe_ne [OF assms, of 2] up_safe_ne [OF assms, of 3]
    by simp_all
  then show ?thesis by (auto simp: movsl_def numeral_eq_Suc fun_eq_iff add.commute)
qed

lemma rep_movsl_bottom:
  assumes "up_safe d s (4 * k)"
  shows "rep_movsl m d s k =
    (memcpy_bottom m d s (4 * k), d + of_nat (4 * k), s + of_nat (4 * k))"
  using assms
proof (induction k arbitrary: m d s)
  case (Suc k)
  have safe: "up_safe (d + 4) (s + 4) (4 * k)"
    using up_safe_step [of d s "4 * k" 4] Suc.prems by (simp add: add.commute)
  have first: "movsl m d s = memcpy_bottom m d s 4"
    using Suc.prems by (intro movsl_bottom [of d s "4 * k"]) (simp add: add.commute)
  have "memcpy_bottom (memcpy_bottom m d s 4) (d + 4) (s + 4) (4 * k) =
      memcpy_bottom m d s (4 + 4 * k)"
    using memcpy_bottom_add [of m d s 4 "4 * k"] by simp
  then show ?case by (simp add: first Suc.IH [OF safe] algebra_simps)
qed simp

lemma memcpy_aligned_bottom:
  assumes "up_safe d s n"
  shows "memcpy_aligned m d s n = memcpy_bottom m d s n"
proof -
  have "up_safe d s (4 * (n div 4))"
    using assms by (auto simp: up_safe_def)
  moreover have "4 * (n div 4) + n mod 4 = n" by simp
  ultimately show ?thesis
    using memcpy_bottom_add [of m d s "4 * (n div 4)" "n mod 4"]
    by (simp add: memcpy_aligned_def rep_movsl_bottom)
qed

lemma memcpy_top_bottom: "up_safe d s n \<Longrightarrow> memcpy_top m d s n = memcpy_bottom m d s n"
proof (induction n arbitrary: m d s)
  case (Suc n)
  then show ?case
    using up_safe_Suc [of d s n] memcpy_aligned_bottom [OF Suc.prems, of m]
    by (simp add: fun_upd_def)
qed simp

lemma memcpy_is_copy:
  "up_safe dest src (unat n) \<Longrightarrow> memcpy m dest src n = copy_bytes m dest src (unat n)"
  by (simp add: memcpy_def memcpy_top_bottom memcpy_bottom_copy)

subsection \<open>Filling\<close>

lemma fill_bytes_0 [simp]: "fill_bytes m d 0 c = m"
  by (simp add: fill_bytes_def)

lemma fill_bytes_Suc:
  assumes "n < 4294967295"
  shows "fill_bytes (m(d := c)) (d + 1) n c = fill_bytes m d (Suc n) c"
proof
  fix a
  show "fill_bytes (m(d := c)) (d + 1) n c a = fill_bytes m d (Suc n) c a"
  proof (cases "a = d")
    case True
    then show ?thesis by (simp add: fill_bytes_def)
  next
    case False
    then have "0 < unat (a - d)" by (simp add: unat_gt_0)
    with False unat_offset_step [OF False] show ?thesis by (auto simp: fill_bytes_def)
  qed
qed

lemma memset_bottom_fill:
  "n < 4294967296 \<Longrightarrow> memset_bottom m eax d n = fill_bytes m d n (ucast eax)"
  by (induction n arbitrary: m d) (auto simp: fill_bytes_Suc)

lemma memset_bottom_add:
  "memset_bottom m eax d (k + n) = memset_bottom (memset_bottom m eax d k) eax (d + of_nat k) n"
  by (induction k arbitrary: m d) (auto simp: algebra_simps)

text \<open>A register that holds one byte four times.\<close>

definition replicated :: "u32 \<Rightarrow> bool" where
  "replicated eax \<longleftrightarrow> (\<forall>k<4. ucast (drop_bit (8 * k) eax) = (ucast eax :: u8))"

lemma store32_bottom:
  assumes "replicated eax"
  shows "store32 m d eax = memset_bottom m eax d 4"
proof -
  have "ucast (drop_bit 8 eax) = (ucast eax :: u8)" "ucast (drop_bit 16 eax) = (ucast eax :: u8)"
    "ucast (drop_bit 24 eax) = (ucast eax :: u8)"
    using assms unfolding replicated_def
    by (auto dest: spec [of _ 1] spec [of _ 2] spec [of _ 3])
  then show ?thesis by (auto simp: store32_def numeral_eq_Suc fun_eq_iff add.commute)
qed

lemma rep_stosl_bottom:
  assumes "replicated eax"
  shows "rep_stosl m eax d k = (memset_bottom m eax d (4 * k), d + of_nat (4 * k))"
proof (induction k arbitrary: m d)
  case (Suc k)
  have "memset_bottom (memset_bottom m eax d 4) eax (d + 4) (4 * k) =
      memset_bottom m eax d (4 + 4 * k)"
    using memset_bottom_add [of m eax d 4 "4 * k"] by simp
  then show ?case by (simp add: store32_bottom [OF assms] Suc.IH algebra_simps)
qed simp

lemma memset_aligned_bottom:
  assumes "replicated eax"
  shows "memset_aligned m eax d n = memset_bottom m eax d n"
proof -
  have "4 * (n div 4) + n mod 4 = n" by simp
  then show ?thesis
    using memset_bottom_add [of m eax d "4 * (n div 4)" "n mod 4"]
    by (simp add: memset_aligned_def rep_stosl_bottom [OF assms])
qed

lemma memset_top_bottom:
  assumes "replicated eax"
  shows "memset_top m eax d n = memset_bottom m eax d n"
proof (induction n arbitrary: m d)
  case (Suc n)
  then show ?case using memset_aligned_bottom [OF assms, of m d "Suc n"] by (simp add: fun_upd_def)
qed simp

lemma replicated_byte:
  fixes c :: u32
  defines "c' \<equiv> c AND 0xFF"
  shows "replicated (push_bit 24 c' OR push_bit 16 c' OR push_bit 8 c' OR c')"
    and "ucast (push_bit 24 c' OR push_bit 16 c' OR push_bit 8 c' OR c') = (ucast c :: u8)"
proof -
  have c': "bit c' i \<longleftrightarrow> i < 8 \<and> bit c i" for i
  proof -
    have "c' = take_bit 8 c" by (simp add: c'_def take_bit_eq_mask mask_eq_exp_minus_1)
    then show ?thesis by (auto simp: bit_simps dest: bit_imp_le_length)
  qed
  show "ucast (push_bit 24 c' OR push_bit 16 c' OR push_bit 8 c' OR c') = (ucast c :: u8)"
    by (rule bit_word_eqI) (auto simp: bit_simps c')
  show "replicated (push_bit 24 c' OR push_bit 16 c' OR push_bit 8 c' OR c')"
    unfolding replicated_def
  proof (intro allI impI)
    fix k :: nat assume "k < 4"
    then consider "k = 0" | "k = 1" | "k = 2" | "k = 3" by linarith
    then show "ucast (drop_bit (8 * k) (push_bit 24 c' OR push_bit 16 c' OR push_bit 8 c' OR c')) =
        (ucast (push_bit 24 c' OR push_bit 16 c' OR push_bit 8 c' OR c') :: u8)"
      by cases (auto intro!: bit_word_eqI simp: bit_simps c')
  qed
qed

lemma memset_is_fill: "memset m s c n = fill_bytes m s (unat n) (ucast c)"
  unfolding memset_def Let_def memset_top_bottom [OF replicated_byte(1)]
  by (subst memset_bottom_fill) (simp_all only: unat_lt32 replicated_byte(2))

subsection \<open>Copying downwards\<close>

text \<open>A downward copy is right when the source does not start inside the destination.\<close>

lemma rep_movsb_down_copy:
  assumes "n \<le> unat (s - d)"
  shows "rep_movsb_down m (d + of_nat n - 1) (s + of_nat n - 1) n = copy_bytes m d s n"
  using assms
proof (induction n arbitrary: m)
  case (Suc n)
  let ?m = "m(d + of_nat n := m (s + of_nat n))"
  have n: "n < 4294967296" using Suc.prems unat_lt32 [of "s - d"] by linarith
  have "rep_movsb_down m (d + of_nat (Suc n) - 1) (s + of_nat (Suc n) - 1) (Suc n) =
      rep_movsb_down ?m (d + of_nat n - 1) (s + of_nat n - 1) n"
    by (simp add: algebra_simps)
  also have "\<dots> = copy_bytes ?m d s n" using Suc by simp
  also have "\<dots> = copy_bytes m d s (Suc n)"
  proof
    fix a
    have last: "unat (a - d) = n \<longleftrightarrow> a = d + of_nat n"
      using n by (metis add_of_nat_diff offset_of_nat)
    have "s + (a - d) \<noteq> d + of_nat n" if "unat (a - d) < n"
    proof
      assume "s + (a - d) = d + of_nat n"
      then have "s - d = of_nat n - of_nat (unat (a - d))" by (simp add: algebra_simps)
      also have "\<dots> = of_nat (n - unat (a - d))" using that by (simp add: of_nat_diff)
      finally have "unat (s - d) = n - unat (a - d)" using n by simp
      with Suc.prems show False by linarith
    qed
    with last show "copy_bytes ?m d s n a = copy_bytes m d s (Suc n) a"
      by (auto simp: copy_bytes_def less_Suc_eq)
  qed
  finally show ?case .
qed simp

lemma memmove_is_copy:
  assumes "unat dest + unat n \<le> 4294967296" and "unat src + unat n \<le> 4294967296"
  shows "memmove m dest src n = copy_bytes m dest src (unat n)"
proof (cases "dest \<le> src")
  case True
  have "up_safe dest src (unat n)"
  proof (cases "dest = src")
    case False
    with True have "unat (src - dest) = unat src - unat dest"
      by (simp add: unat_sub)
    with False assms unat_diff_rev [OF False] show ?thesis by (simp add: up_safe_def)
  qed (simp add: up_safe_def)
  then show ?thesis
    using True by (simp add: memmove_def rep_movsb_up_bottom memcpy_bottom_copy)
next
  case False
  then have lt: "unat src < unat dest" by (simp add: word_le_nat_alt)
  then have "unat (dest - src) = unat dest - unat src"
    by (simp add: unat_sub word_le_nat_alt)
  moreover have "src \<noteq> dest" using lt by auto
  ultimately have "unat n \<le> unat (src - dest)"
    using lt unat_diff_rev [of src dest] assms by linarith
  from rep_movsb_down_copy [OF this, of m] False show ?thesis
    by (simp add: memmove_def)
qed

subsection \<open>Properties\<close>

text \<open>
  \<^verbatim>\<open>memcpy\<close>, with its byte loop up to an aligned destination, its double-word
  loop and its byte loop at the end, copies exactly \<open>n\<close> bytes whenever the destination does
  not start inside the source region; nothing else changes.
\<close>

theorem memcpy_copies:
  assumes "dest = src \<or> unat n \<le> unat (dest - src)"
  shows "memcpy m dest src n = copy_bytes m dest src (unat n)"
  using assms by (intro memcpy_is_copy) (simp add: up_safe_def)

lemma memcpy_copies_witness:
  "memcpy (\<lambda>a. ucast a) 0x103 0x200 9 = copy_bytes (\<lambda>a. ucast a) 0x103 0x200 9"
  using memcpy_copies [of "0x103" "0x200" 9 "\<lambda>a. ucast a"] by simp

text \<open>
  \<^verbatim>\<open>memset\<close> stores the low byte of its second argument in exactly \<open>n\<close> bytes,
  for every alignment and every count.
\<close>

theorem memset_fills: "memset m s c n = fill_bytes m s (unat n) (ucast c)"
  by (rule memset_is_fill)

text \<open>
  C33: \<^verbatim>\<open>memmove\<close> copies correctly for every overlap of the two regions, as long as
  neither wraps around the end of the address space.
\<close>

theorem memmove_copies:
  assumes "unat dest + unat n \<le> 4294967296" "unat src + unat n \<le> 4294967296"
  shows "memmove m dest src n = copy_bytes m dest src (unat n)"
  using assms by (rule memmove_is_copy)

lemma memmove_copies_witness:
  "memmove (\<lambda>a. ucast a) 0x102 0x100 8 = copy_bytes (\<lambda>a. ucast a) 0x102 0x100 8"
  using memmove_copies [of "0x102" 8 "0x100" "\<lambda>a. ucast a"] by simp

end
