(* ===== verification/Terminal.thy ===== *)
theory Terminal
  imports Fs
begin

text \<open>
  The three terminals of \<^verbatim>\<open>student-distrib/terminal_driver.h\<close> and the lookups of
  \<^verbatim>\<open>terminal_driver.c\<close>, with the cursor that \<^verbatim>\<open>lib.c\<close> keeps for the
  terminal on display. A pointer to a terminal is its index. The walk up the process tree
  dereferences a null parent when it runs off the tree, and does not end on a cycle of
  parents: both are \<open>None\<close>.
\<close>

abbreviation TERMINAL_NUM :: u8 where "TERMINAL_NUM \<equiv> 3"
abbreviation LINE_BUFFER_SIZE :: nat where "LINE_BUFFER_SIZE \<equiv> 128"
abbreviation VIDEO :: u32 where "VIDEO \<equiv> 0xB8000"
abbreviation ATTRIB :: u8 where "ATTRIB \<equiv> 2"
abbreviation NUM_ROWS :: u16 where "NUM_ROWS \<equiv> 25"
abbreviation NUM_COLS :: u16 where "NUM_COLS \<equiv> 80"
abbreviation TASK_NOT_RUNNING :: u8 where "TASK_NOT_RUNNING \<equiv> 0"
abbreviation TASK_RUNNING :: u8 where "TASK_RUNNING \<equiv> 1"
abbreviation RTC_DEFAULT_REAL_FREQ :: u32 where "RTC_DEFAULT_REAL_FREQ \<equiv> 1024"
abbreviation RTC_DEFAULT_VIRT_FREQ :: u32 where "RTC_DEFAULT_VIRT_FREQ \<equiv> 2"

record virtual_rtc =
  virt_freq :: u32
  real_freq :: u32
  int_count :: u32
  rtc_flag :: u8

record terminal =
  line_buf :: "u8 list"
  line_buf_index :: u32
  term_x :: u16
  term_y :: u16
  term_pid :: u32
  term_id :: u8
  read_flag :: u8
  vid_mem_buf :: u32
  running :: u8
  status :: u8
  vidmapped :: u8
  rtc :: virtual_rtc

record terms = fs +
  current_terminal :: u8
  terminals :: "terminal list"
  screen_x :: u16
  screen_y :: u16

definition terminal_at :: "nat \<Rightarrow> 'a terms_scheme \<Rightarrow> terminal" where
  "terminal_at t s = terminals s ! t"

definition update_terminal :: "nat \<Rightarrow> (terminal \<Rightarrow> terminal) \<Rightarrow> 'a terms_scheme \<Rightarrow> 'a terms_scheme" where
  "update_terminal t f s = s\<lparr>terminals := (terminals s)[t := f (terminals s ! t)]\<rparr>"

definition get_terminal_from_pid :: "u32 \<Rightarrow> 'a terms_scheme \<Rightarrow> nat option" where
  "get_terminal_from_pid p s = List.find (\<lambda>i. term_pid (terminal_at i s) = p) [0..<3]"

text \<open>
  The loop's condition is true whenever it can be evaluated with a parent at hand, and
  dereferences the parent when there is none. The arguments are the lookup and the blocks.
\<close>

partial_function (option) running_loop ::
  "(u32 \<Rightarrow> nat option) \<Rightarrow> (u8 \<Rightarrow> pcb) \<Rightarrow> pcb \<Rightarrow> nat option option"
where
  "running_loop lookup blocks p =
     (case parent_pcb p of
        None \<Rightarrow> None
      | Some q \<Rightarrow>
          (case lookup (of_int (parent_pid p)) of
             Some t \<Rightarrow> Some (Some t)
           | None \<Rightarrow> running_loop lookup blocks (blocks q)))"

definition get_running_terminal :: "'a terms_scheme \<Rightarrow> nat option option" where
  "get_running_terminal s =
     (let p = get_current_pcb s in
      case get_terminal_from_pid (pid p) s of
        Some t \<Rightarrow> Some (Some t)
      | None \<Rightarrow> if parent_pcb p = None then Some None
          else running_loop (\<lambda>p. get_terminal_from_pid p s) (pcbs s) p)"

text \<open>The first terminal that is not running is taken for a new shell.\<close>

definition new_terminal :: "u32 \<Rightarrow> 'a terms_scheme \<Rightarrow> 'a terms_scheme \<times> nat option" where
  "new_terminal p s =
     (case List.find (\<lambda>i. running (terminal_at i s) = 0) [0..<3] of
        None \<Rightarrow> (s, None)
      | Some i \<Rightarrow> (update_terminal i (\<lambda>t. t\<lparr>term_pid := p, running := 1\<rparr>) s, Some i))"

subsection \<open>Lookups\<close>

lemma find_0_2: "List.find P [0..<3] =
    (if P 0 then Some 0 else if P 1 then Some 1 else if P 2 then Some 2 else None)"
  by (simp add: upt_rec numeral_2_eq_2)

lemma all_below_3: "(\<forall>t<3. P t) \<longleftrightarrow> P 0 \<and> P 1 \<and> P (2 :: nat)"
  by (auto simp: numeral_3_eq_3 numeral_2_eq_2 less_Suc_eq)

lemma get_terminal_from_pid_Some:
  "get_terminal_from_pid p s = Some t \<Longrightarrow> t < 3 \<and> term_pid (terminal_at t s) = p"
  by (auto simp: get_terminal_from_pid_def find_0_2 split: if_splits)

lemma get_terminal_from_pid_None:
  "get_terminal_from_pid p s = None \<longleftrightarrow> (\<forall>t<3. term_pid (terminal_at t s) \<noteq> p)"
  by (auto simp: get_terminal_from_pid_def find_None_iff)

lemma terminal_at_update:
  "length (terminals s) = 3 \<Longrightarrow> u < 3 \<Longrightarrow>
    terminal_at t (update_terminal u f s) = (if t = u then f (terminal_at t s) else terminal_at t s)"
  by (simp add: terminal_at_def update_terminal_def)

lemma update_terminal_frame [simp, frame_simps]:
  "memory (update_terminal t f s) = memory s" "pcbs (update_terminal t f s) = pcbs s"
  "running_pid (update_terminal t f s) = running_pid s" "procs (update_terminal t f s) = procs s"
  "current_terminal (update_terminal t f s) = current_terminal s"
  "screen_x (update_terminal t f s) = screen_x s" "screen_y (update_terminal t f s) = screen_y s"
  "bootblk (update_terminal t f s) = bootblk s" "int_flag (update_terminal t f s) = int_flag s"
  "length (terminals (update_terminal t f s)) = length (terminals s)"
  by (simp_all add: update_terminal_def)

lemma same_tables_update_terminal [simp]: "same_tables (update_terminal t f s) s"
  by (simp add: same_tables_def update_terminal_def)

lemma translate_update_terminal [simp]: "translate (update_terminal t f s) = translate s"
  by (rule translate_cong) simp

lemma get_terminal_from_pid_update:
  assumes "\<And>t. term_pid (f t) = term_pid t" "length (terminals s) = 3"
  shows "get_terminal_from_pid p (update_terminal u f s) = get_terminal_from_pid p s"
proof -
  have "term_pid (terminal_at i (update_terminal u f s)) = term_pid (terminal_at i s)" for i
  proof (cases "u < 3")
    case True
    with assms show ?thesis by (simp add: terminal_at_update)
  next
    case False
    with assms(2) show ?thesis by (simp add: terminal_at_def update_terminal_def list_update_beyond)
  qed
  then show ?thesis by (simp add: get_terminal_from_pid_def)
qed

lemma get_terminal_from_pid_cong:
  "terminals s = terminals s' \<Longrightarrow> get_terminal_from_pid p s = get_terminal_from_pid p s'"
  by (simp add: get_terminal_from_pid_def terminal_at_def)

lemma get_running_terminal_cong:
  assumes "terminals s = terminals s'" "pcbs s = pcbs s'" "running_pid s = running_pid s'"
  shows "get_running_terminal s = get_running_terminal s'"
proof -
  have lookup: "get_terminal_from_pid q s = get_terminal_from_pid q s'" for q
    using assms(1) by (rule get_terminal_from_pid_cong)
  show ?thesis unfolding get_running_terminal_def get_current_pcb_def lookup assms(2,3) ..
qed

lemma get_running_terminal_update:
  assumes "\<And>t. term_pid (f t) = term_pid t" "length (terminals s) = 3"
  shows "get_running_terminal (update_terminal u f s) = get_running_terminal s"
  unfolding get_running_terminal_def get_current_pcb_def get_terminal_from_pid_update [OF assms]
    update_terminal_frame ..

subsection \<open>The terminal a process runs on\<close>

text \<open>
  A process whose number a terminal carries runs on that terminal; any other one runs
  where its parent runs.
\<close>

inductive runs_on :: "'a terms_scheme \<Rightarrow> u8 \<Rightarrow> nat \<Rightarrow> bool" for s where
  root: "get_terminal_from_pid (pid (pcbs s p)) s = Some t \<Longrightarrow> runs_on s p t"
| child: "get_terminal_from_pid (pid (pcbs s p)) s = None \<Longrightarrow> parent_pcb (pcbs s p) = Some q \<Longrightarrow>
    of_int (parent_pid (pcbs s p)) = pid (pcbs s q) \<Longrightarrow> runs_on s q t \<Longrightarrow> runs_on s p t"

inductive_cases runs_on_elim: "runs_on s p t"

lemma running_loop_finds:
  assumes "runs_on s q t" "parent_pcb p = Some q" "of_int (parent_pid p) = pid (pcbs s q)"
  shows "running_loop (\<lambda>p. get_terminal_from_pid p s) (pcbs s) p = Some (Some t)"
  using assms
proof (induction arbitrary: p rule: runs_on.induct)
  case (root q t)
  then show ?case by (subst running_loop.simps) simp
next
  case (child q q' t)
  have "running_loop (\<lambda>p. get_terminal_from_pid p s) (pcbs s) (pcbs s q) = Some (Some t)" using child.hyps child.IH by blast
  then show ?case using child by (subst running_loop.simps) simp
qed

lemma get_running_terminal_runs_on:
  "runs_on s (running_pid s) t \<Longrightarrow> get_running_terminal s = Some (Some t)"
  by (erule runs_on_elim)
    (simp_all add: get_running_terminal_def get_current_pcb_def Let_def running_loop_finds)

lemma runs_on_fun: "runs_on s p t \<Longrightarrow> runs_on s p u \<Longrightarrow> t = u"
proof (induction arbitrary: u rule: runs_on.induct)
  case (root p t)
  from root.prems root.hyps show ?case by (cases rule: runs_on.cases) simp_all
next
  case (child p q t)
  from child.prems show ?case
  proof (cases rule: runs_on.cases)
    case root
    with child.hyps(1) show ?thesis by simp
  next
    case (child q')
    then have "q' = q" using \<open>parent_pcb (pcbs s p) = Some q\<close> by simp
    with child show ?thesis using \<open>\<And>u. runs_on s q u \<Longrightarrow> t = u\<close> by blast
  qed
qed

text \<open>It depends on the process numbers and the parents; nothing else in the blocks counts.\<close>

definition same_links :: "'a process_scheme \<Rightarrow> 'b process_scheme \<Rightarrow> bool" where
  "same_links s s' \<longleftrightarrow> (\<forall>p. pid (pcbs s p) = pid (pcbs s' p) \<and> parent_pid (pcbs s p) = parent_pid (pcbs s' p) \<and>
     parent_pcb (pcbs s p) = parent_pcb (pcbs s' p))"

lemma runs_on_links:
  assumes "runs_on s p t" "same_links s s'" "terminals s' = terminals s"
  shows "runs_on s' p t"
proof -
  have same: "get_terminal_from_pid n s' = get_terminal_from_pid n s" for n
    using assms(3) by (rule get_terminal_from_pid_cong)
  from assms(1) show ?thesis
  proof induction
    case (root p t)
    then show ?case using assms(2) same by (intro runs_on.root) (simp add: same_links_def)
  next
    case (child p q t)
    then show ?case using assms(2) same by (intro runs_on.child [of s' p q]) (simp_all add: same_links_def)
  qed
qed

subsection \<open>A running system\<close>

text \<open>
  The small image with three terminals: process 0 is the shell of terminal 0 and process 2 a
  program it started.
\<close>

definition demo_terminal :: "u32 \<Rightarrow> u8 \<Rightarrow> u32 \<Rightarrow> terminal" where
  "demo_terminal p i vid = \<lparr>line_buf = replicate 128 0, line_buf_index = 0, term_x = 0, term_y = 0,
     term_pid = p, term_id = i, read_flag = 0, vid_mem_buf = vid, running = 1, status = 1,
     vidmapped = 0, rtc = \<lparr>virt_freq = 2, real_freq = 1024, int_count = 0, rtc_flag = 0\<rparr>\<rparr>"

definition demo_terms :: terms where
  "demo_terms = fs.extend (demo\<lparr>running_pid := 2,
       pcbs := (\<lambda>p. if p = 2 then blank_pcb\<lparr>pid := 2, parent_pid := 0, parent_pcb := Some 0\<rparr> else blank_pcb)\<rparr>)
     \<lparr>current_terminal = 0,
      terminals = [demo_terminal 0 0 0xB9000, demo_terminal 5 1 0xBA000, demo_terminal 6 2 0xBB000],
      screen_x = 0, screen_y = 0\<rparr>"

lemma demo_terms_fields [simp]:
  "running_pid demo_terms = 2" "current_terminal demo_terms = 0" "screen_x demo_terms = 0"
  "screen_y demo_terms = 0" "memory demo_terms = demo_image"
  "pcbs demo_terms = (\<lambda>p. if p = 2 then blank_pcb\<lparr>pid := 2, parent_pid := 0, parent_pcb := Some 0\<rparr> else blank_pcb)"
  "terminals demo_terms = [demo_terminal 0 0 0xB9000, demo_terminal 5 1 0xBA000, demo_terminal 6 2 0xBB000]"
  "procs demo_terms = 0x80" "bootblk demo_terms = 0x440000"
  using demo_fields by (simp_all add: demo_terms_def fs.extend_def del: demo_fields)

lemma demo_terms_tables: "same_tables demo_terms demo"
  by (simp add: same_tables_def demo_terms_def fs.extend_def)

lemma demo_terms_translate: "4096 \<le> unat va \<Longrightarrow> unat va < 0x800000 \<Longrightarrow> translate demo_terms va = Some va"
  using translate_cong [OF demo_terms_tables] demo_translate by simp

lemma demo_terms_runs: "runs_on demo_terms 2 0"
proof (rule runs_on.child)
  show "runs_on demo_terms 0 0"
    by (rule runs_on.root)
      (simp add: get_terminal_from_pid_def find_0_2 terminal_at_def demo_terminal_def blank_pcb_def)
qed (simp_all add: get_terminal_from_pid_def find_0_2 terminal_at_def demo_terminal_def blank_pcb_def)

subsection \<open>Properties\<close>

text \<open>
  For a process whose chain of parents reaches a process that a terminal carries,
  \<^verbatim>\<open>get_running_terminal\<close> returns, with that terminal and no other.
\<close>

theorem running_terminal_of_process:
  assumes "runs_on s (running_pid s) t"
  shows "get_running_terminal s = Some (Some t) \<and> (\<forall>u. runs_on s (running_pid s) u \<longrightarrow> u = t)"
  using assms get_running_terminal_runs_on runs_on_fun by blast

lemma running_terminal_of_process_witness: "get_running_terminal demo_terms = Some (Some 0)"
  using running_terminal_of_process [of demo_terms 0] demo_terms_runs by simp

text \<open>
  When no terminal carries a process or any of its ancestors, the loop condition of
  \<^verbatim>\<open>get_running_terminal\<close> dereferences the null parent of the topmost one: the lookup
  faults where the last statement means to return null.
\<close>

theorem running_terminal_null_dereference:
  assumes "get_terminal_from_pid (pid (get_current_pcb s)) s = None"
    and "parent_pcb (get_current_pcb s) = Some q" "parent_pcb (pcbs s q) = None"
    and "get_terminal_from_pid (of_int (parent_pid (get_current_pcb s))) s = None"
  shows "get_running_terminal s = None"
proof -
  let ?loop = "running_loop (\<lambda>p. get_terminal_from_pid p s) (pcbs s)"
  have "?loop (pcbs s q) = None" using assms(3) by (subst running_loop.simps) simp
  then have "?loop (get_current_pcb s) = None"
    using assms(2,4) by (subst running_loop.simps) simp
  then show ?thesis using assms(1,2) by (simp add: get_running_terminal_def Let_def)
qed

lemma running_terminal_null_dereference_witness:
  "get_running_terminal (demo_terms\<lparr>terminals := [demo_terminal 4 0 0xB9000, demo_terminal 5 1 0xBA000,
     demo_terminal 6 2 0xBB000]\<rparr>) = None"
  by (rule running_terminal_null_dereference [where q = 0])
    (simp_all add: get_terminal_from_pid_def find_0_2 terminal_at_def demo_terminal_def blank_pcb_def
      get_current_pcb_def)

end
