(* ===== verification/Rtc.thy ===== *)
theory Rtc
  imports Terminal
begin

text \<open>
  \<^verbatim>\<open>student-distrib/rtc.c\<close>: the real-time clock. The hardware interrupts at a fixed
  rate and each terminal counts interrupts until its virtual frequency is met. A byte read
  from the device is an argument of the operation that reads it, and the spinning of
  \<^verbatim>\<open>rtc_read\<close> is followed over a given number of clock interrupts; it is
  \<open>None\<close> when they do not suffice.
\<close>

datatype rtc_rate = HZ1024 | HZ512 | HZ256 | HZ128 | HZ64 | HZ32 | HZ16 | HZ8 | HZ4 | HZ2

text \<open>The enumerators' values: the rate selector, 6 for 1024 Hz and up.\<close>

primrec rate_code :: "rtc_rate \<Rightarrow> nat" where
  "rate_code HZ1024 = 6" | "rate_code HZ512 = 7" | "rate_code HZ256 = 8" | "rate_code HZ128 = 9"
| "rate_code HZ64 = 10" | "rate_code HZ32 = 11" | "rate_code HZ16 = 12" | "rate_code HZ8 = 13"
| "rate_code HZ4 = 14" | "rate_code HZ2 = 15"

lemma rate_code_inj: "rate_code a = rate_code b \<Longrightarrow> a = b"
  by (cases a; cases b) simp_all

text \<open>Rates are ordered as their codes: a greater rate is a slower clock.\<close>

instantiation rtc_rate :: linorder
begin

definition less_eq_rtc_rate :: "rtc_rate \<Rightarrow> rtc_rate \<Rightarrow> bool" where
  "less_eq_rtc_rate a b \<longleftrightarrow> rate_code a \<le> rate_code b"

definition less_rtc_rate :: "rtc_rate \<Rightarrow> rtc_rate \<Rightarrow> bool" where
  "less_rtc_rate a b \<longleftrightarrow> rate_code a < rate_code b"

instance
  by standard (auto simp: less_eq_rtc_rate_def less_rtc_rate_def intro: rate_code_inj)

end

abbreviation RTC_SEL_PORT :: u16 where "RTC_SEL_PORT \<equiv> 0x70"
abbreviation RTC_DATA_PORT :: u16 where "RTC_DATA_PORT \<equiv> 0x71"
abbreviation RTC_IRQ :: u32 where "RTC_IRQ \<equiv> 8"
abbreviation RTC_REG_A :: u32 where "RTC_REG_A \<equiv> 0xA"
abbreviation RTC_REG_B :: u32 where "RTC_REG_B \<equiv> 0xB"
abbreviation RTC_REG_C :: u32 where "RTC_REG_C \<equiv> 0xC"
abbreviation RTC_DIS_NMI :: u32 where "RTC_DIS_NMI \<equiv> 0x80"
abbreviation PIE_MASK :: u32 where "PIE_MASK \<equiv> 0x40"
abbreviation TOP_BYTE_NIBBLE :: u32 where "TOP_BYTE_NIBBLE \<equiv> 0xF0"
abbreviation RTC_BASE_FREQ :: u32 where "RTC_BASE_FREQ \<equiv> 32768"
abbreviation PID_COUNT :: nat where "PID_COUNT \<equiv> 8"

definition rate_freq :: "rtc_rate \<Rightarrow> u32" where
  "rate_freq r = drop_bit (rate_code r - 1) RTC_BASE_FREQ"

definition update_rtc :: "nat \<Rightarrow> (virtual_rtc \<Rightarrow> virtual_rtc) \<Rightarrow> 'a terms_scheme \<Rightarrow> 'a terms_scheme" where
  "update_rtc t f = update_terminal t (\<lambda>x. x\<lparr>rtc := f (rtc x)\<rparr>)"

text \<open>\<open>prev\<close> is the byte that the data port yields.\<close>

definition set_real_freq_rtc :: "u32 \<Rightarrow> rtc_rate \<Rightarrow> 'a terms_scheme \<Rightarrow> 'a terms_scheme option" where
  "set_real_freq_rtc prev r s =
     (let s = outb (RTC_REG_A OR RTC_DIS_NMI) RTC_SEL_PORT s;
          s = outb (RTC_REG_A OR RTC_DIS_NMI) RTC_SEL_PORT s;
          s = outb ((prev AND TOP_BYTE_NIBBLE) OR of_nat (rate_code r)) RTC_DATA_PORT s
      in map_option (\<lambda>t. case t of
           None \<Rightarrow> s
         | Some t \<Rightarrow> update_rtc t (\<lambda>v. v\<lparr>real_freq := rate_freq r\<rparr>) s) (get_running_terminal s))"

definition init_rtc :: "u32 \<Rightarrow> u32 \<Rightarrow> 'a terms_scheme \<Rightarrow> 'a terms_scheme option" where
  "init_rtc prev_b prev_a s =
     (let s = enable_irq RTC_IRQ s;
          s = outb (RTC_REG_B OR RTC_DIS_NMI) RTC_SEL_PORT s;
          s = outb (RTC_REG_B OR RTC_DIS_NMI) RTC_SEL_PORT s;
          s = outb (prev_b OR PIE_MASK) RTC_DATA_PORT s
      in set_real_freq_rtc prev_a HZ1024 s)"

definition ack_rtc_int :: "'a terms_scheme \<Rightarrow> 'a terms_scheme" where
  "ack_rtc_int s = outb RTC_REG_C RTC_SEL_PORT s"

definition tick_rtc :: "virtual_rtc \<Rightarrow> virtual_rtc" where
  "tick_rtc v =
     (let c = int_count v + 1
      in v\<lparr>int_count := c, rtc_flag := (if real_freq v \<le> virt_freq v * c then 1 else 0)\<rparr>)"

definition tick_pid :: "nat \<Rightarrow> 'a terms_scheme \<Rightarrow> 'a terms_scheme" where
  "tick_pid i s =
     (case get_terminal_from_pid (of_nat i) s of
        None \<Rightarrow> s
      | Some t \<Rightarrow> update_rtc t tick_rtc s)"

definition irqh_rtc :: "'a terms_scheme \<Rightarrow> 'a terms_scheme" where
  "irqh_rtc s = send_eoi RTC_IRQ (fold tick_pid [0..<PID_COUNT] (ack_rtc_int s))"

text \<open>The spin, over \<open>n\<close> clock interrupts.\<close>

fun rtc_wait :: "nat \<Rightarrow> nat \<Rightarrow> 'a terms_scheme \<Rightarrow> 'a terms_scheme option" where
  "rtc_wait t n s =
     (if rtc_flag (rtc (terminal_at t s)) \<noteq> 0 then Some s
      else case n of 0 \<Rightarrow> None | Suc k \<Rightarrow> rtc_wait t k (irqh_rtc s))"

declare rtc_wait.simps [simp del]

definition rtc_read :: "nat \<Rightarrow> 'a terms_scheme \<Rightarrow> ('a terms_scheme \<times> int) option" where
  "rtc_read n s =
     Option.bind (get_running_terminal s) (\<lambda>t. case t of
       None \<Rightarrow> Some (s, - 1)
     | Some t \<Rightarrow>
         map_option (\<lambda>s. (s, 0))
           (rtc_wait t n (update_rtc t (\<lambda>v. v\<lparr>rtc_flag := 0, int_count := 0\<rparr>) s)))"

definition set_virtual_freq_rtc :: "u32 \<Rightarrow> 'a terms_scheme \<Rightarrow> ('a terms_scheme \<times> int) option" where
  "set_virtual_freq_rtc freq s =
     map_option (\<lambda>t. case t of
       None \<Rightarrow> (s, - 1)
     | Some t \<Rightarrow>
         if freq = 0 \<or> freq > real_freq (rtc (terminal_at t s)) \<or> freq AND (freq - 1) \<noteq> 0 then (s, - 1)
         else (update_rtc t (\<lambda>v. v\<lparr>int_count := 0, virt_freq := freq\<rparr>) s, 0))
       (get_running_terminal s)"

definition rtc_write :: "u32 \<Rightarrow> int \<Rightarrow> 'a terms_scheme \<Rightarrow> ('a terms_scheme \<times> int) option" where
  "rtc_write buf nbytes s =
     (if buf = 0 \<or> nbytes \<noteq> 4 then Some (s, - 1)
      else if \<not> accessible s buf 4 then None
      else map_option (\<lambda>(s, r). (s, if r \<noteq> 0 then - 1 else 4))
        (set_virtual_freq_rtc (load32 (vmem s) buf) s))"

definition rtc_open :: "'a terms_scheme \<Rightarrow> ('a terms_scheme \<times> int) option" where
  "rtc_open s = map_option (\<lambda>(s, r). (s, 0)) (set_virtual_freq_rtc RTC_DEFAULT_VIRT_FREQ s)"

definition rtc_close :: "int \<Rightarrow> int" where
  "rtc_close fd = 0"

subsection \<open>Powers of two\<close>

lemma and_pred_double: "0 < m \<Longrightarrow> (2 * m) AND (2 * m - 1) = 2 * (m AND (m - 1 :: nat))"
proof -
  assume "0 < m"
  then have "(2 * m - 1) div 2 = m - 1" "(2 * m - 1) \<noteq> 0" by presburger+
  with \<open>0 < m\<close> show ?thesis by (subst and_nat_unfold) simp
qed

lemma and_pred_odd: "(2 * m + 1) AND (2 * m :: nat) = 2 * m"
  by (subst and_nat_unfold) simp

lemma and_pred_zero_iff: "0 < (n :: nat) \<Longrightarrow> n AND (n - 1) = 0 \<longleftrightarrow> (\<exists>k. n = 2 ^ k)"
proof (induction n rule: less_induct)
  case (less n)
  consider m where "n = 2 * m" "0 < m" | m where "n = 2 * m + 1" using less.prems
    by (metis evenE oddE gr0I mult_0_right less_numeral_extra(3))
  then show ?case
  proof cases
    case 1
    have "(\<exists>k. n = 2 ^ k) \<longleftrightarrow> (\<exists>k. m = 2 ^ k)"
    proof
      assume "\<exists>k. n = 2 ^ k"
      then obtain k where "2 * m = 2 ^ k" using 1 by auto
      then show "\<exists>k. m = 2 ^ k" by (cases k) auto
    next
      assume "\<exists>k. m = 2 ^ k"
      then obtain k where "m = 2 ^ k" by blast
      then have "n = 2 ^ Suc k" using 1 by simp
      then show "\<exists>k. n = 2 ^ k" by blast
    qed
    then show ?thesis using less.IH [of m] 1 and_pred_double [of m] by simp
  next
    case 2
    have "(\<exists>k. n = 2 ^ k) \<longleftrightarrow> m = 0"
    proof
      assume "\<exists>k. n = 2 ^ k"
      then obtain k where "2 * m + 1 = 2 ^ k" using 2 by auto
      then show "m = 0" by (cases k) (auto, presburger)
    next
      assume "m = 0"
      then have "n = 2 ^ 0" using 2 by simp
      then show "\<exists>k. n = 2 ^ k" by blast
    qed
    then show ?thesis using 2 and_pred_odd [of m] by simp
  qed
qed

lemma power_of_two_word:
  fixes x :: u32
  shows "x \<noteq> 0 \<and> x AND (x - 1) = 0 \<longleftrightarrow> (\<exists>k. unat x = 2 ^ k)"
proof (cases "x = 0")
  case False
  then have "0 < unat x" by (simp add: unat_gt_0)
  moreover have "x AND (x - 1) = 0 \<longleftrightarrow> unat x AND (unat x - 1) = 0"
    using unat_minus_one32 [OF False] by (simp add: word_unat_eq_iff unsigned_and_eq)
  ultimately show ?thesis using and_pred_zero_iff [of "unat x"] False by simp
qed simp

subsection \<open>Counting interrupts\<close>

lemma update_rtc_frame [simp, frame_simps]:
  "pcbs (update_rtc t f s) = pcbs s" "running_pid (update_rtc t f s) = running_pid s"
  "length (terminals (update_rtc t f s)) = length (terminals s)"
  by (simp_all add: update_rtc_def)

lemma get_terminal_from_pid_rtc [simp]:
  "length (terminals s) = 3 \<Longrightarrow> get_terminal_from_pid p (update_rtc t f s) = get_terminal_from_pid p s"
  unfolding update_rtc_def by (rule get_terminal_from_pid_update) simp_all

lemma rtc_at_update:
  "length (terminals s) = 3 \<Longrightarrow> u < 3 \<Longrightarrow>
    rtc (terminal_at t (update_rtc u f s)) = (if t = u then f (rtc (terminal_at t s)) else rtc (terminal_at t s))"
  by (simp add: update_rtc_def terminal_at_update)

lemma tick_pid_frame:
  assumes "length (terminals s) = 3"
  shows "length (terminals (tick_pid i s)) = 3" "get_terminal_from_pid p (tick_pid i s) = get_terminal_from_pid p s"
  using assms by (auto simp: tick_pid_def split: option.splits)

lemma fold_tick_pid:
  assumes "length (terminals s) = 3" "get_terminal_from_pid (of_nat p) s = Some t" "distinct xs"
    "\<And>i. i \<in> set xs \<Longrightarrow> i < 4294967296" "p < 4294967296"
  shows "rtc (terminal_at t (fold tick_pid xs s)) =
      (if p \<in> set xs then tick_rtc (rtc (terminal_at t s)) else rtc (terminal_at t s)) \<and>
    length (terminals (fold tick_pid xs s)) = 3 \<and>
    (\<forall>q. get_terminal_from_pid q (fold tick_pid xs s) = get_terminal_from_pid q s)"
  using assms
proof (induction xs arbitrary: s)
  case (Cons i xs)
  have t: "t < 3" "term_pid (terminal_at t s) = of_nat p"
    using get_terminal_from_pid_Some [OF Cons.prems(2)] by auto
  note frame = tick_pid_frame [OF Cons.prems(1)]
  have step: "rtc (terminal_at t (tick_pid i s)) =
      (if p = i then tick_rtc (rtc (terminal_at t s)) else rtc (terminal_at t s))"
  proof (cases "get_terminal_from_pid (of_nat i) s")
    case None
    then have "p \<noteq> i" using Cons.prems(2) by auto
    with None show ?thesis by (simp add: tick_pid_def)
  next
    case (Some u)
    then have u: "u < 3" "term_pid (terminal_at u s) = of_nat i"
      using get_terminal_from_pid_Some by blast+
    have "t = u \<longleftrightarrow> p = i"
    proof
      assume "t = u"
      then have "(of_nat p :: u32) = of_nat i" using t u by simp
      then have "unat (of_nat p :: u32) = unat (of_nat i :: u32)" by simp
      then show "p = i" using Cons.prems(4) [of i] Cons.prems(5) by simp
    next
      assume "p = i"
      then show "t = u" using Some Cons.prems(2) by simp
    qed
    with Some u(1) Cons.prems(1) show ?thesis by (simp add: tick_pid_def rtc_at_update)
  qed
  from Cons.IH [of "tick_pid i s"] Cons.prems frame step show ?case by auto
qed simp

lemma terminals_outb [simp]: "terminals (outb d p s) = terminals s"
  by (simp add: outb_def)

lemma terminals_send_eoi [simp]: "terminals (send_eoi i s) = terminals s"
  by (simp add: send_eoi_def)

lemma irqh_rtc_ticks:
  assumes "length (terminals s) = 3" "get_terminal_from_pid (of_nat p) s = Some t" "p < 8"
  shows "rtc (terminal_at t (irqh_rtc s)) = tick_rtc (rtc (terminal_at t s))"
    "length (terminals (irqh_rtc s)) = 3"
    "get_terminal_from_pid q (irqh_rtc s) = get_terminal_from_pid q s"
proof -
  let ?s = "ack_rtc_int s"
  have same: "terminals ?s = terminals s" by (simp add: ack_rtc_int_def)
  have "get_terminal_from_pid (of_nat p) ?s = Some t"
    using assms(2) get_terminal_from_pid_cong [OF same] by simp
  from fold_tick_pid [OF _ this, of "[0..<8]"] same assms
  have "rtc (terminal_at t (fold tick_pid [0..<8] ?s)) = tick_rtc (rtc (terminal_at t ?s)) \<and>
    length (terminals (fold tick_pid [0..<8] ?s)) = 3 \<and>
    (\<forall>q. get_terminal_from_pid q (fold tick_pid [0..<8] ?s) = get_terminal_from_pid q ?s)"
    by (simp del: upt_rec_numeral)
  moreover have "terminals (irqh_rtc s) = terminals (fold tick_pid [0..<8] ?s)" by (simp add: irqh_rtc_def)
  ultimately show "rtc (terminal_at t (irqh_rtc s)) = tick_rtc (rtc (terminal_at t s))"
    "length (terminals (irqh_rtc s)) = 3"
    "get_terminal_from_pid q (irqh_rtc s) = get_terminal_from_pid q s"
    using get_terminal_from_pid_cong [OF same] by (simp_all add: terminal_at_def get_terminal_from_pid_def same)
qed

subsection \<open>Waiting\<close>

lemma rtc_wait_first:
  assumes "\<And>j. j < m \<Longrightarrow> rtc_flag (rtc (terminal_at t ((irqh_rtc ^^ j) s))) = 0"
    "rtc_flag (rtc (terminal_at t ((irqh_rtc ^^ m) s))) \<noteq> 0"
  shows "rtc_wait t n s = (if m \<le> n then Some ((irqh_rtc ^^ m) s) else None)"
  using assms
proof (induction m arbitrary: n s)
  case 0
  then show ?case by (subst rtc_wait.simps) simp
next
  case (Suc m)
  have flag: "rtc_flag (rtc (terminal_at t s)) = 0" using Suc.prems(1) [of 0] by simp
  show ?case
  proof (cases n)
    case 0
    then show ?thesis using flag by (subst rtc_wait.simps) simp
  next
    case (Suc k)
    have "rtc_wait t k (irqh_rtc s) = (if m \<le> k then Some ((irqh_rtc ^^ m) (irqh_rtc s)) else None)"
    proof (rule Suc.IH)
      show "rtc_flag (rtc (terminal_at t ((irqh_rtc ^^ j) (irqh_rtc s)))) = 0" if "j < m" for j
        using Suc.prems(1) [of "Suc j"] that by (simp add: funpow_swap1)
      show "rtc_flag (rtc (terminal_at t ((irqh_rtc ^^ m) (irqh_rtc s)))) \<noteq> 0"
        using Suc.prems(2) by (simp add: funpow_swap1)
    qed
    then show ?thesis using flag Suc by (subst rtc_wait.simps) (simp add: funpow_swap1)
  qed
qed

lemma irqh_rtc_iterate:
  assumes "length (terminals s) = 3" "get_terminal_from_pid (of_nat p) s = Some t" "p < 8"
  shows "length (terminals ((irqh_rtc ^^ k) s)) = 3 \<and>
    get_terminal_from_pid (of_nat p) ((irqh_rtc ^^ k) s) = Some t \<and>
    rtc (terminal_at t ((irqh_rtc ^^ k) s)) = (tick_rtc ^^ k) (rtc (terminal_at t s))"
  using assms
proof (induction k)
  case (Suc k)
  then show ?case using irqh_rtc_ticks [of "(irqh_rtc ^^ k) s" p t] by simp
qed simp

lemma tick_rtc_iterate:
  "(tick_rtc ^^ k) (v\<lparr>rtc_flag := 0, int_count := 0\<rparr>) =
     v\<lparr>int_count := of_nat k, rtc_flag := (if 0 < k \<and> real_freq v \<le> virt_freq v * of_nat k then 1 else 0)\<rparr>"
  by (induction k) (simp_all add: tick_rtc_def Let_def algebra_simps)

text \<open>The number of interrupts a read waits for: the real frequency over the virtual one, rounded up.\<close>

definition ticks_needed :: "virtual_rtc \<Rightarrow> nat" where
  "ticks_needed v = (unat (real_freq v) + unat (virt_freq v) - 1) div unat (virt_freq v)"

lemma ticks_needed_least:
  assumes "0 < unat (virt_freq v)" "virt_freq v \<le> real_freq v" "unat (real_freq v) \<le> 2147483648"
  shows "k < ticks_needed v \<Longrightarrow> \<not> real_freq v \<le> virt_freq v * of_nat k"
    and "real_freq v \<le> virt_freq v * of_nat (ticks_needed v)" "0 < ticks_needed v"
proof -
  let ?r = "unat (real_freq v)" and ?w = "unat (virt_freq v)" and ?m = "ticks_needed v"
  have wr: "?w \<le> ?r" using assms(2) by (simp add: word_le_nat_alt)
  have upper: "?w * ?m \<le> ?r + ?w - 1" unfolding ticks_needed_def by (rule times_div_less_eq_dividend)
  have lower: "?r \<le> ?w * ?m"
    using dividend_less_times_div [of ?w "?r + ?w - 1"] assms(1) unfolding ticks_needed_def by linarith
  have prod: "unat (virt_freq v * of_nat k) = ?w * k" if "k \<le> ?m" for k
  proof -
    have "?w * k \<le> ?w * ?m" using that by simp
    then have "?w * k < 4294967296" using upper assms(3) wr by linarith
    then have "unat (of_nat (?w * k) :: u32) = ?w * k" by (rule unat_of_nat32)
    then show ?thesis by simp
  qed
  show "real_freq v \<le> virt_freq v * of_nat ?m" using prod [of ?m] lower by (simp add: word_le_nat_alt)
  show "0 < ?m" using lower wr assms(1) by (cases "?m = 0") simp_all
  show "\<not> real_freq v \<le> virt_freq v * of_nat k" if k: "k < ?m"
  proof -
    have "?w * (k + 1) \<le> ?r + ?w - 1" using upper mult_le_mono2 [of "k + 1" ?m ?w] k by linarith
    then have "?w * k < ?r" using assms(1) by (simp add: distrib_left)
    then show ?thesis using prod [of k] k by (simp add: word_le_nat_alt)
  qed
qed

lemma rtc_read_waits:
  assumes "length (terminals s) = 3" "get_running_terminal s = Some (Some t)"
    "get_terminal_from_pid (of_nat p) s = Some t" "p < 8"
    and v: "v = rtc (terminal_at t s)" "0 < unat (virt_freq v)" "virt_freq v \<le> real_freq v"
      "unat (real_freq v) \<le> 2147483648"
  shows "rtc_read n s \<noteq> None \<longleftrightarrow> ticks_needed v \<le> n"
    "ticks_needed v \<le> n \<Longrightarrow> \<exists>s'. rtc_read n s = Some (s', 0)"
proof -
  let ?s = "update_rtc t (\<lambda>v. v\<lparr>rtc_flag := 0, int_count := 0\<rparr>) s"
  have t: "t < 3" using get_terminal_from_pid_Some [OF assms(3)] by simp
  have len: "length (terminals ?s) = 3" using assms(1) by simp
  have get: "get_terminal_from_pid (of_nat p) ?s = Some t" using assms(1,3) by simp
  have "rtc (terminal_at t ((irqh_rtc ^^ k) ?s)) =
      v\<lparr>int_count := of_nat k, rtc_flag := (if 0 < k \<and> real_freq v \<le> virt_freq v * of_nat k then 1 else 0)\<rparr>" for k
    using irqh_rtc_iterate [OF len get assms(4), of k] assms(1) t v(1)
    by (simp add: rtc_at_update tick_rtc_iterate del: virtual_rtc.simps)
  then have flag: "rtc_flag (rtc (terminal_at t ((irqh_rtc ^^ k) ?s))) =
      (if 0 < k \<and> real_freq v \<le> virt_freq v * of_nat k then 1 else 0)" for k by simp
  have "rtc_wait t n ?s = (if ticks_needed v \<le> n then Some ((irqh_rtc ^^ ticks_needed v) ?s) else None)"
    by (rule rtc_wait_first) (use flag ticks_needed_least [OF v(2,3,4)] in auto)
  then have "rtc_read n s = (if ticks_needed v \<le> n then Some ((irqh_rtc ^^ ticks_needed v) ?s, 0) else None)"
    using assms(2) by (simp add: rtc_read_def)
  then show "rtc_read n s \<noteq> None \<longleftrightarrow> ticks_needed v \<le> n"
    "ticks_needed v \<le> n \<Longrightarrow> \<exists>s'. rtc_read n s = Some (s', 0)" by auto
qed

subsection \<open>Properties\<close>

text \<open>
  A requested frequency is accepted exactly when it is a power of two no greater than
  the real frequency of the caller's terminal; then it is stored and the count restarts, and
  otherwise nothing changes.
\<close>

theorem rtc_frequency_accepted:
  assumes "get_running_terminal s = Some (Some t)"
  shows "set_virtual_freq_rtc freq s =
    Some (if (\<exists>k. unat freq = 2 ^ k) \<and> freq \<le> real_freq (rtc (terminal_at t s))
          then (update_rtc t (\<lambda>v. v\<lparr>int_count := 0, virt_freq := freq\<rparr>) s, 0) else (s, - 1))"
  using assms power_of_two_word [of freq] by (auto simp: set_virtual_freq_rtc_def not_le)

lemma rtc_frequency_accepted_witness:
  "set_virtual_freq_rtc 12 demo_terms = Some (demo_terms, - 1)"
proof -
  have "\<not> (\<exists>k. (12 :: nat) = 2 ^ k)"
  proof
    assume "\<exists>k. (12 :: nat) = 2 ^ k"
    then have "(12 :: nat) AND (12 - 1) = 0" using and_pred_zero_iff [of 12] by simp
    then show False by simp
  qed
  with rtc_frequency_accepted [OF get_running_terminal_runs_on, of demo_terms 0 12] demo_terms_runs
  show ?thesis by simp
qed

text \<open>
  C38: A read of the clock returns 0, and it does so after exactly the real frequency divided
  by the virtual one, rounded up, interrupts of the hardware clock.
\<close>

theorem rtc_read_interrupts:
  assumes "length (terminals s) = 3" "get_running_terminal s = Some (Some t)"
    "get_terminal_from_pid (of_nat p) s = Some t" "p < 8"
    and "v = rtc (terminal_at t s)" "0 < unat (virt_freq v)" "virt_freq v \<le> real_freq v"
      "unat (real_freq v) \<le> 2147483648"
  shows "(rtc_read n s \<noteq> None) = (ticks_needed v \<le> n) \<and>
    (\<forall>s' r. rtc_read n s = Some (s', r) \<longrightarrow> r = 0)"
  using rtc_read_waits [OF assms, of n] by (metis not_None_eq option.inject prod.inject)

lemma rtc_read_interrupts_witness: "rtc_read 511 demo_terms = None \<and> rtc_read 512 demo_terms \<noteq> None"
proof -
  have run: "get_running_terminal demo_terms = Some (Some 0)"
    by (rule get_running_terminal_runs_on) (simp add: demo_terms_runs)
  have get: "get_terminal_from_pid (of_nat 0) demo_terms = Some 0"
    by (simp add: get_terminal_from_pid_def find_0_2 terminal_at_def demo_terminal_def)
  note wait = rtc_read_interrupts [OF _ run get _ refl]
  show ?thesis using wait [of 511] wait [of 512]
    by (simp add: terminal_at_def demo_terminal_def ticks_needed_def del: not_None_eq)
qed

end
