(* ===== verification/Display.thy ===== *)
theory Display
  imports Terminal Lib_Memory
begin

text \<open>
  The screen part of \<^verbatim>\<open>student-distrib/lib.c\<close>: the cursor, \<^verbatim>\<open>clear\<close>,
  \<^verbatim>\<open>scroll_up\<close>, \<^verbatim>\<open>putc\<close>, \<^verbatim>\<open>terminal_putc\<close> and
  \<^verbatim>\<open>puts\<close>. Video memory is written through the page walk, because the kernel
  redirects the video page of each process either to the screen or to the buffer of its
  terminal. Both operands of the \<^verbatim>\<open>memmove\<close> in \<^verbatim>\<open>scroll_up\<close> lie in the one
  video page, so it is the physical \<^const>\<open>memmove\<close> in the frame behind that page.
\<close>

abbreviation VGA_DATA_REGISTER :: u16 where "VGA_DATA_REGISTER \<equiv> 0x3D5"
abbreviation VGA_ADDRESS_REGISTER :: u16 where "VGA_ADDRESS_REGISTER \<equiv> 0x3D4"
abbreviation VGA_CURSOR_HIGH_REGISTER :: u32 where "VGA_CURSOR_HIGH_REGISTER \<equiv> 0x0E"
abbreviation VGA_CURSOR_LOW_REGISTER :: u32 where "VGA_CURSOR_LOW_REGISTER \<equiv> 0x0F"

subsection \<open>The cursor\<close>

definition set_cursor_location :: "u16 \<Rightarrow> u16 \<Rightarrow> 'a terms_scheme \<Rightarrow> 'a terms_scheme" where
  "set_cursor_location x y s =
     (let vga_position = y * NUM_COLS + x;
          s = outb VGA_CURSOR_HIGH_REGISTER 0x3D4 s;
          s = outb (ucast (drop_bit 8 vga_position)) VGA_DATA_REGISTER s;
          s = outb VGA_CURSOR_LOW_REGISTER VGA_ADDRESS_REGISTER s
      in outb (ucast vga_position) VGA_DATA_REGISTER s)"

definition set_screen_x :: "u16 \<Rightarrow> 'a terms_scheme \<Rightarrow> 'a terms_scheme" where
  "set_screen_x x s =
     (if x < NUM_COLS then set_cursor_location x (screen_y s) (s\<lparr>screen_x := x\<rparr>) else s)"

definition set_screen_y :: "u16 \<Rightarrow> 'a terms_scheme \<Rightarrow> 'a terms_scheme" where
  "set_screen_y y s =
     (if y < NUM_ROWS then set_cursor_location (screen_x s) y (s\<lparr>screen_y := y\<rparr>) else s)"

definition set_screen_xy :: "u16 \<Rightarrow> u16 \<Rightarrow> 'a terms_scheme \<Rightarrow> 'a terms_scheme" where
  "set_screen_xy x y s =
     (if y < NUM_ROWS \<and> x < NUM_COLS then set_cursor_location x y (s\<lparr>screen_y := y, screen_x := x\<rparr>)
      else s)"

definition set_terminal_screen_xy :: "u8 \<Rightarrow> u16 \<Rightarrow> u16 \<Rightarrow> 'a terms_scheme \<Rightarrow> 'a terms_scheme" where
  "set_terminal_screen_xy num_term x y s =
     (if num_term \<ge> TERMINAL_NUM \<or> (y \<ge> NUM_ROWS \<and> x \<ge> NUM_COLS) then s
      else update_terminal (unat num_term) (\<lambda>t. t\<lparr>term_x := x, term_y := y\<rparr>) s)"

definition set_terminal_screen_x :: "u8 \<Rightarrow> u16 \<Rightarrow> 'a terms_scheme \<Rightarrow> 'a terms_scheme" where
  "set_terminal_screen_x num_term x s =
     (if num_term \<ge> TERMINAL_NUM \<or> x \<ge> NUM_COLS then s
      else update_terminal (unat num_term) (\<lambda>t. t\<lparr>term_x := x\<rparr>) s)"

definition set_terminal_screen_y :: "u8 \<Rightarrow> u16 \<Rightarrow> 'a terms_scheme \<Rightarrow> 'a terms_scheme" where
  "set_terminal_screen_y num_term y s =
     (if num_term \<ge> TERMINAL_NUM \<or> y \<ge> NUM_ROWS then s
      else update_terminal (unat num_term) (\<lambda>t. t\<lparr>term_y := y\<rparr>) s)"

definition get_screen_x :: "'a terms_scheme \<Rightarrow> u16" where
  "get_screen_x s = screen_x s"

definition get_screen_y :: "'a terms_scheme \<Rightarrow> u16" where
  "get_screen_y s = screen_y s"

subsection \<open>Cells\<close>

text \<open>\<^verbatim>\<open>(NUM_COLS * y + x) << 1\<close>, and a character with its attribute stored there.\<close>

definition cell_offset :: "u16 \<Rightarrow> u16 \<Rightarrow> u32" where
  "cell_offset x y = push_bit 1 (80 * ucast y + ucast x)"

definition put_cell :: "u32 \<Rightarrow> u8 \<Rightarrow> 'a terms_scheme \<Rightarrow> 'a terms_scheme option" where
  "put_cell a c s = Option.bind (put_byte a c s) (put_byte (a + 1) ATTRIB)"

text \<open>The loops that blank cells: \<open>n\<close> cells from address \<open>a\<close> on.\<close>

primrec blank_cells :: "u32 \<Rightarrow> nat \<Rightarrow> 'a terms_scheme \<Rightarrow> 'a terms_scheme option" where
  "blank_cells a 0 s = Some s"
| "blank_cells a (Suc n) s = Option.bind (put_cell a 0x20 s) (blank_cells (a + 2) n)"

definition clear_screen_xy :: "'a terms_scheme \<Rightarrow> 'a terms_scheme option" where
  "clear_screen_xy s = put_cell (VIDEO + cell_offset (screen_x s) (screen_y s)) 0x20 s"

definition clear_terminal_screen_xy :: "u8 \<Rightarrow> 'a terms_scheme \<Rightarrow> 'a terms_scheme option" where
  "clear_terminal_screen_xy num_term s =
     (if num_term \<ge> TERMINAL_NUM then Some s
      else let t = terminal_at (unat num_term) s
           in put_cell (VIDEO + cell_offset (term_x t) (term_y t)) 0x20 s)"

definition scroll_up :: "'a terms_scheme \<Rightarrow> 'a terms_scheme option" where
  "scroll_up s =
     Option.bind (translate s VIDEO) (\<lambda>pa.
       blank_cells (VIDEO + 3840) 80 (s\<lparr>memory := memmove (memory s) pa (pa + 160) 3840\<rparr>))"

text \<open>Redirecting the video page of the running process.\<close>

definition remap_video :: "u32 \<Rightarrow> 'a terms_scheme \<Rightarrow> 'a terms_scheme" where
  "remap_video target s = fst (map_vid_mem (ucast (pid (get_current_pcb s))) VIDEO target s)"

text \<open>The running terminal, when there is one and it is not on display.\<close>

definition hidden_terminal :: "nat option \<Rightarrow> 'a terms_scheme \<Rightarrow> nat option" where
  "hidden_terminal term s =
     (case term of None \<Rightarrow> None
      | Some t \<Rightarrow> if term_id (terminal_at t s) \<noteq> current_terminal s then Some t else None)"

definition clear :: "'a terms_scheme \<Rightarrow> 'a terms_scheme option" where
  "clear s =
     Option.bind (get_running_terminal s) (\<lambda>term.
       let remap = hidden_terminal term s;
           s = (if remap \<noteq> None then remap_video VIDEO (cli s) else s)
       in map_option (set_screen_xy 0 0)
         (map_option (\<lambda>s. case remap of
              None \<Rightarrow> s
            | Some t \<Rightarrow> sti (set_terminal_screen_xy (current_terminal s) 0 0
                (remap_video (vid_mem_buf (terminal_at t s)) s)))
           (blank_cells VIDEO 2000 s)))"

subsection \<open>Printing a character\<close>

text \<open>The end of a line: the next row, or scrolling on the last one.\<close>

definition next_row :: "u16 \<Rightarrow> 'a terms_scheme \<Rightarrow> ('a terms_scheme \<times> u16) option" where
  "next_row y s =
     (if y < NUM_ROWS - 1 then Some (s, y + 1) else map_option (\<lambda>s. (s, y)) (scroll_up s))"

text \<open>The position after a character was stored at \<open>x, y\<close>.\<close>

definition advance :: "u16 \<Rightarrow> u16 \<Rightarrow> 'a terms_scheme \<Rightarrow> ('a terms_scheme \<times> u16 \<times> u16) option" where
  "advance x y s =
     (let x = x + 1 in
      map_option (\<lambda>(s, y). (s, x mod NUM_COLS, y))
        (if x div NUM_COLS > 0
         then if y = NUM_ROWS - 1 then map_option (\<lambda>s. (s, y)) (scroll_up s)
              else Some (s, of_nat ((unat y + unat (x div NUM_COLS)) mod 25))
         else Some (s, y)))"

text \<open>
  \<^verbatim>\<open>terminal_putc\<close> for a character other than a tab; a tab calls it again with a
  space. Positions are 16-bit: backspace at the origin goes to column 65535.
\<close>

definition terminal_put_char :: "u8 \<Rightarrow> u8 \<Rightarrow> 'a terms_scheme \<Rightarrow> 'a terms_scheme option" where
  "terminal_put_char num_term c s =
     (if c = 0 \<or> num_term \<ge> TERMINAL_NUM then Some s
      else
        let term = terminal_at (unat num_term) s;
            shown = (term_id term = current_terminal s);
            x = (if shown then screen_x s else term_x term);
            y = (if shown then screen_y s else term_y term);
            place = (\<lambda>(s, x, y). if shown then set_screen_xy x y s
                       else set_terminal_screen_xy (term_id term) x y s)
        in if c = 0x0A then map_option (\<lambda>(s, y). place (s, 0, y)) (next_row y s)
           else if c = 0x08 then
             let (x, y) = (if x = 0 \<and> y > 0 then (NUM_COLS - 1, y - 1) else (x - 1, y));
                 s = place (s, x, y)
             in if shown then clear_screen_xy s else clear_terminal_screen_xy (term_id term) s
           else map_option place (Option.bind
             (put_cell ((if shown then VIDEO else vid_mem_buf term) + cell_offset x y) c s)
             (advance x y)))"

definition terminal_putc :: "u8 \<Rightarrow> u8 \<Rightarrow> 'a terms_scheme \<Rightarrow> 'a terms_scheme option" where
  "terminal_putc num_term c s = terminal_put_char num_term (if c = 0x09 then 0x20 else c) s"

text \<open>
  \<^verbatim>\<open>putc\<close> prints on the screen whatever process is running; for a process of a
  hidden terminal it points the video page at the screen first and back afterwards.
\<close>

definition put_screen_char :: "u8 \<Rightarrow> 'a terms_scheme \<Rightarrow> 'a terms_scheme option" where
  "put_screen_char c s =
     (if c = 0x0A then
        map_option (\<lambda>(s, y). s\<lparr>screen_x := 0, screen_y := y\<rparr>) (next_row (screen_y s) s)
      else if c = 0x08 then
        let x = get_screen_x s; y = get_screen_y s
        in clear_screen_xy (if x = 0 \<and> y > 0 then set_screen_xy (NUM_COLS - 1) (y - 1) s
             else set_screen_x (x - 1) s)
      else
        map_option (\<lambda>(s, x, y). s\<lparr>screen_x := x, screen_y := y\<rparr>)
          (Option.bind (put_cell (VIDEO + cell_offset (screen_x s) (screen_y s)) c s)
            (advance (screen_x s) (screen_y s))))"

definition putc_char :: "u8 \<Rightarrow> 'a terms_scheme \<Rightarrow> 'a terms_scheme option" where
  "putc_char c s =
     Option.bind (get_running_terminal s) (\<lambda>term.
       if c = 0 then Some s
       else
         let hidden = hidden_terminal term s;
             s = (if hidden \<noteq> None then remap_video VIDEO s else s)
         in map_option (\<lambda>s.
              let s = (case hidden of None \<Rightarrow> s | Some t \<Rightarrow> remap_video (vid_mem_buf (terminal_at t s)) s)
              in set_cursor_location (screen_x s) (screen_y s) s)
            (put_screen_char c s))"

definition putc :: "u8 \<Rightarrow> 'a terms_scheme \<Rightarrow> 'a terms_scheme option" where
  "putc c s =
     (if c = 0x09 then
        Option.bind (get_running_terminal s) (\<lambda>term.
          putc_char 0x20 (if hidden_terminal term s \<noteq> None then remap_video VIDEO s else s))
      else putc_char c s)"

partial_function (option) puts_loop :: "u32 \<Rightarrow> int \<Rightarrow> 'a terms_scheme \<Rightarrow> ('a terms_scheme \<times> int) option" where
  "puts_loop a index s =
     (case translate s (a + of_int index) of
        None \<Rightarrow> None
      | Some pa \<Rightarrow>
          if memory s pa \<noteq> 0 then Option.bind (putc (memory s pa) s) (puts_loop a (index + 1))
          else Some (s, index))"

definition puts :: "u32 \<Rightarrow> 'a terms_scheme \<Rightarrow> ('a terms_scheme \<times> int) option" where
  "puts a s = puts_loop a 0 s"

subsection \<open>The screen as rows of cells\<close>

text \<open>The 2000 cells of a frame of video memory, each a character and its attribute.\<close>

definition cells_of :: "mem \<Rightarrow> u32 \<Rightarrow> (u8 \<times> u8) list" where
  "cells_of m pa = map (\<lambda>i. (m (pa + of_nat (2 * i)), m (pa + of_nat (2 * i + 1)))) [0..<2000]"

abbreviation blank :: "u8 \<times> u8" where "blank \<equiv> (0x20, 2)"

lemma length_cells_of [simp]: "length (cells_of m pa) = 2000"
  by (simp add: cells_of_def del: upt_rec_numeral)

lemma nth_cells_of: "i < 2000 \<Longrightarrow> cells_of m pa ! i = (m (pa + of_nat (2 * i)), m (pa + of_nat (2 * i + 1)))"
  by (simp add: cells_of_def del: upt_rec_numeral)

lemma cells_of_store:
  assumes "i < 2000"
  shows "cells_of (m(pa + of_nat (2 * i) := c, pa + of_nat (2 * i + 1) := a)) pa = (cells_of m pa)[i := (c, a)]"
proof (rule nth_equalityI)
  fix j assume "j < length (cells_of (m(pa + of_nat (2 * i) := c, pa + of_nat (2 * i + 1) := a)) pa)"
  then have j: "j < 2000" by simp
  have ne: "(pa + of_nat k = pa + (of_nat l :: u32)) = (k = l)" if "k < 4000" "l < 4000" for k l :: nat
    using that by (intro add_of_nat_eq_iff) simp_all
  have "2 * j < 4000" "2 * i < 4000" "2 * j + 1 < 4000" "2 * i + 1 < 4000" using assms j by simp_all
  then have "(pa + of_nat (2 * j) = pa + (of_nat (2 * i) :: u32)) = (j = i)"
    "(pa + of_nat (2 * j) = pa + (of_nat (2 * i + 1) :: u32)) = False"
    "(pa + of_nat (2 * j + 1) = pa + (of_nat (2 * i) :: u32)) = False"
    "(pa + of_nat (2 * j + 1) = pa + (of_nat (2 * i + 1) :: u32)) = (j = i)"
    using ne by (simp_all only:) presburger+
  then show "cells_of (m(pa + of_nat (2 * i) := c, pa + of_nat (2 * i + 1) := a)) pa ! j =
      (cells_of m pa)[i := (c, a)] ! j"
    using j assms by (simp only: nth_cells_of fun_upd_apply nth_list_update length_cells_of) auto
qed simp

lemma put_cell_mapped:
  assumes "mapped_at s va (k + 2) pa"
  shows "put_cell (va + of_nat k) c s = Some (s\<lparr>memory := (memory s)
    (pa + of_nat k := c, pa + of_nat (k + 1) := ATTRIB)\<rparr>)"
proof -
  have "translate s (va + of_nat k) = Some (pa + of_nat k)"
    "translate s (va + of_nat (k + 1)) = Some (pa + of_nat (k + 1))"
    using mapped_at_nth [OF assms, of k] mapped_at_nth [OF assms, of "k + 1"] by simp_all
  moreover have "va + of_nat k + 1 = va + (of_nat (k + 1) :: u32)" by simp
  ultimately show ?thesis
    by (simp only: put_cell_def put_byte_mapped Option.bind.simps translate_memory)
      simp
qed

lemma put_cell_screen:
  assumes "mapped_at s va 4000 pa" "i < 2000"
  shows "\<exists>m'. put_cell (va + of_nat (2 * i)) c s = Some (s\<lparr>memory := m'\<rparr>) \<and>
    cells_of m' pa = (cells_of (memory s) pa)[i := (c, ATTRIB)]"
proof -
  have "mapped_at s va (2 * i + 2) pa" using assms by (simp add: mapped_at_mono [of s va 4000])
  note put = put_cell_mapped [OF this, of c]
  show ?thesis
    by (rule exI, rule conjI, rule put, rule cells_of_store [OF assms(2)])
qed

lemma blank_cells_screen:
  assumes "mapped_at s va 4000 pa" "k + n \<le> 2000"
  shows "\<exists>m'. blank_cells (va + of_nat (2 * k)) n s = Some (s\<lparr>memory := m'\<rparr>) \<and>
    cells_of m' pa = take k (cells_of (memory s) pa) @ replicate n blank @ drop (k + n) (cells_of (memory s) pa)"
  using assms
proof (induction n arbitrary: k s)
  case 0
  have "s\<lparr>memory := memory s\<rparr> = s" by simp
  then show ?case by (intro exI [of _ "memory s"]) simp
next
  case (Suc n)
  let ?cs = "cells_of (memory s) pa"
  obtain m1 where m1: "put_cell (va + of_nat (2 * k)) 0x20 s = Some (s\<lparr>memory := m1\<rparr>)"
    "cells_of m1 pa = ?cs[k := blank]"
    using put_cell_screen [OF Suc.prems(1), of k] Suc.prems(2) by auto
  obtain m2 where m2: "blank_cells (va + of_nat (2 * Suc k)) n (s\<lparr>memory := m1\<rparr>) = Some (s\<lparr>memory := m2\<rparr>)"
    "cells_of m2 pa = take (Suc k) (?cs[k := blank]) @ replicate n blank @ drop (Suc k + n) (?cs[k := blank])"
    using Suc.IH [of "s\<lparr>memory := m1\<rparr>" "Suc k"] Suc.prems m1(2) by auto
  have next_addr: "va + of_nat (2 * k) + 2 = va + of_nat (2 * Suc k)" by (simp add: algebra_simps)
  have "take (Suc k) (?cs[k := blank]) = take k ?cs @ [blank]"
    using Suc.prems(2) by (simp add: take_Suc_conv_app_nth)
  moreover have "drop (Suc k + n) (?cs[k := blank]) = drop (k + Suc n) ?cs" by simp
  ultimately have "cells_of m2 pa = take k ?cs @ replicate (Suc n) blank @ drop (k + Suc n) ?cs"
    using m2(2) by simp
  then show ?case using m1(1) m2(1) by (intro exI [of _ m2]) (simp add: add.assoc add.commute [of 2])
qed

lemma scroll_up_screen:
  assumes "mapped_at s VIDEO 4000 pa" "unat pa + 4000 \<le> 4294967296"
  shows "\<exists>m'. scroll_up s = Some (s\<lparr>memory := m'\<rparr>) \<and>
    cells_of m' pa = drop 80 (cells_of (memory s) pa) @ replicate 80 blank"
proof -
  let ?cs = "cells_of (memory s) pa" and ?m = "memmove (memory s) pa (pa + 160) 3840"
  have tr: "translate s VIDEO = Some pa" using mapped_at_nth [OF assms(1), of 0] by simp
  have "unat (pa + 160) \<le> unat pa + 160"
    by (simp only: unat_word_ariths) (rule order_trans [OF mod_less_eq_dividend], simp)
  then have m: "?m = copy_bytes (memory s) pa (pa + 160) 3840"
    using memmove_is_copy [of pa 3840 "pa + 160" "memory s"] assms(2) by simp
  have moved: "take 1920 (cells_of ?m pa) = drop 80 ?cs"
  proof (rule nth_equalityI)
    fix i assume "i < length (take 1920 (cells_of ?m pa))"
    then have i: "i < 1920" by simp
    have "?m (pa + of_nat k) = memory s (pa + of_nat (160 + k))" if "k < 3840" for k
      using that by (simp add: m copy_bytes_def add.assoc)
    from this [of "2 * i"] this [of "2 * i + 1"] i
    show "take 1920 (cells_of ?m pa) ! i = drop 80 ?cs ! i"
      by (simp add: nth_cells_of)
  qed simp
  have "mapped_at (s\<lparr>memory := ?m\<rparr>) VIDEO 4000 pa" using assms(1) by simp
  from blank_cells_screen [OF this, of 1920 80] obtain m' where
    m': "blank_cells (VIDEO + 3840) 80 (s\<lparr>memory := ?m\<rparr>) = Some (s\<lparr>memory := m'\<rparr>)"
      "cells_of m' pa = take 1920 (cells_of ?m pa) @ replicate 80 blank"
    by auto
  then show ?thesis using moved by (intro exI [of _ m']) (simp add: scroll_up_def tr)
qed

subsection \<open>What printing does to the screen\<close>

text \<open>The abstract screen: its cells row by row and the cursor's column and row.\<close>

type_synonym screen = "(u8 \<times> u8) list \<times> nat \<times> nat"

definition screen_newline :: "screen \<Rightarrow> screen" where
  "screen_newline = (\<lambda>(cs, x, y).
     if y < 24 then (cs, 0, y + 1) else (drop 80 cs @ replicate 80 blank, 0, y))"

definition screen_put :: "u8 \<Rightarrow> screen \<Rightarrow> screen" where
  "screen_put c = (\<lambda>(cs, x, y).
     if c = 0 then (cs, x, y)
     else if c = 0x0A then screen_newline (cs, x, y)
     else if c = 0x08 then
       let (x', y') = (if 0 < x then (x - 1, y) else if 0 < y then (79, y - 1) else (0, 0))
       in (cs[80 * y' + x' := blank], x', y')
     else
       let cs' = cs[80 * y + x := (if c = 0x09 then 0x20 else c, 2)]
       in if x < 79 then (cs', x + 1, y) else screen_newline (cs', x, y))"

definition screen_of :: "u32 \<Rightarrow> 'a terms_scheme \<Rightarrow> screen" where
  "screen_of pa s = (cells_of (memory s) pa, unat (screen_x s), unat (screen_y s))"

text \<open>The video page is mapped and the cursor is on the screen.\<close>

definition screen_ok :: "u32 \<Rightarrow> 'a terms_scheme \<Rightarrow> bool" where
  "screen_ok pa s \<longleftrightarrow> mapped_at s VIDEO 4000 pa \<and> unat pa + 4000 \<le> 4294967296 \<and>
     screen_x s < 80 \<and> screen_y s < 25"

text \<open>What printing changes: memory, the cursor and the ports, and nothing that lookups depend on.\<close>

definition prints_only :: "'a terms_scheme \<Rightarrow> 'a terms_scheme \<Rightarrow> bool" where
  "prints_only s s' \<longleftrightarrow> same_tables s s' \<and> terminals s' = terminals s \<and> pcbs s' = pcbs s \<and>
     running_pid s' = running_pid s \<and> current_terminal s' = current_terminal s \<and> procs s' = procs s \<and> bootblk s' = bootblk s"

lemma set_cursor_location_simps [simp]:
  "memory (set_cursor_location x y s) = memory s" "screen_x (set_cursor_location x y s) = screen_x s"
  "screen_y (set_cursor_location x y s) = screen_y s"
  "prints_only s (set_cursor_location x y t) = prints_only s t"
  by (simp_all add: set_cursor_location_def Let_def outb_def prints_only_def same_tables_def)

lemma prints_only_cursor [simp]:
  "prints_only s (t\<lparr>screen_x := x\<rparr>) = prints_only s t" "prints_only s (t\<lparr>screen_y := y\<rparr>) = prints_only s t"
  by (simp_all add: prints_only_def same_tables_def)

lemma set_screen_xy_simps:
  "x < 80 \<Longrightarrow> y < 25 \<Longrightarrow> screen_x (set_screen_xy x y s) = x"
  "x < 80 \<Longrightarrow> y < 25 \<Longrightarrow> screen_y (set_screen_xy x y s) = y"
  "\<not> x < 80 \<Longrightarrow> set_screen_xy x y s = s"
  "memory (set_screen_xy x y s) = memory s" "prints_only s (set_screen_xy x y t) = prints_only s t"
  by (simp_all add: set_screen_xy_def)

lemma prints_only_memory [simp]: "prints_only s (t\<lparr>memory := m\<rparr>) = prints_only s t"
  by (simp add: prints_only_def same_tables_def)

lemma prints_only_refl [simp]: "prints_only s s"
  by (simp add: prints_only_def same_tables_def)

lemma prints_only_trans: "prints_only s s1 \<Longrightarrow> prints_only s1 s2 \<Longrightarrow> prints_only s s2"
  by (simp add: prints_only_def same_tables_def)

lemma prints_only_translate: "prints_only s s' \<Longrightarrow> translate s' = translate s"
  unfolding prints_only_def by (metis translate_cong)

lemma unat_Suc16: "x < (80 :: u16) \<Longrightarrow> unat (x + 1) = unat x + 1"
proof -
  assume "x < 80"
  then have x: "unat x < 80" by (simp add: word_less_nat_alt)
  have "unat (x + 1) = (unat x + 1) mod 65536" by (simp add: unat_word_ariths)
  with x show ?thesis by simp
qed

lemma next_row_screen:
  assumes "mapped_at s VIDEO 4000 pa" "unat pa + 4000 \<le> 4294967296" "y < 25"
  shows "\<exists>m' y'. next_row y s = Some (s\<lparr>memory := m'\<rparr>, y') \<and> y' < 25 \<and>
    screen_newline (cells_of (memory s) pa, x, unat y) = (cells_of m' pa, 0, unat y')"
proof (cases "y < 24")
  case True
  have y: "unat (y + 1) = unat y + 1" using assms(3) by (intro unat_Suc16) (simp add: word_less_nat_alt)
  with True have "y + 1 < 25" "unat y < 24" by (simp_all add: word_less_nat_alt)
  moreover have "s\<lparr>memory := memory s\<rparr> = s" by simp
  ultimately show ?thesis using True y
    by (intro exI [of _ "memory s"] exI [of _ "y + 1"]) (simp add: next_row_def screen_newline_def)
next
  case False
  then have "\<not> unat y < 24" by (simp add: word_less_nat_alt)
  with False scroll_up_screen [OF assms(1,2)] assms(3) show ?thesis
    by (auto simp: next_row_def screen_newline_def)
qed

lemma advance_screen:
  assumes "mapped_at s VIDEO 4000 pa" "unat pa + 4000 \<le> 4294967296" "x < 80" "y < 25"
  shows "\<exists>m' x' y'. advance x y s = Some (s\<lparr>memory := m'\<rparr>, x', y') \<and> x' < 80 \<and> y' < 25 \<and>
    (if unat x < 79 then (cells_of (memory s) pa, unat x + 1, unat y)
     else screen_newline (cells_of (memory s) pa, unat x, unat y)) = (cells_of m' pa, unat x', unat y')"
proof (cases "unat x < 79")
  case True
  note x1 = unat_Suc16 [OF assms(3)]
  have "x + 1 < 80" using True x1 by (simp add: word_less_nat_alt)
  then have "(x + 1) div 80 = 0" "(x + 1) mod 80 = x + 1"
    by (simp_all add: word_unat_eq_iff unat_div unat_mod word_less_nat_alt)
  moreover have "s\<lparr>memory := memory s\<rparr> = s" by simp
  ultimately show ?thesis using True x1 \<open>x + 1 < 80\<close> assms(4)
    by (intro exI [of _ "memory s"] exI [of _ "x + 1"] exI [of _ y]) (simp add: advance_def Let_def)
next
  case False
  then have x: "unat x = 79" using assms(3) by (simp add: word_less_nat_alt)
  then have "unat (x + 1) = 80" using unat_Suc16 [OF assms(3)] by simp
  then have x1: "(x + 1) div 80 = 1" "(x + 1) mod 80 = 0"
    by (simp_all add: word_unat_eq_iff unat_div unat_mod)
  have y: "unat y < 25" using assms(4) by (simp add: word_less_nat_alt)
  have row: "y = 24 \<longleftrightarrow> \<not> y < 24" using y by (auto simp: word_less_nat_alt word_unat_eq_iff)
  have step: "advance x y s = map_option (\<lambda>(s, y). (s, 0, y)) (next_row y s)"
  proof (cases "y = 24")
    case True
    then show ?thesis using x1 row by (auto simp: advance_def next_row_def Let_def option.map_comp o_def)
  next
    case False
    then have "unat y + 1 < 25" using row by (simp add: word_less_nat_alt)
    then have "(of_nat ((unat y + 1) mod 25) :: u16) = y + 1" by (simp add: add.commute)
    then show ?thesis using False x1 row by (simp add: advance_def next_row_def Let_def)
  qed
  obtain m' y' where "next_row y s = Some (s\<lparr>memory := m'\<rparr>, y')" "y' < 25"
    "screen_newline (cells_of (memory s) pa, unat x, unat y) = (cells_of m' pa, 0, unat y')"
    using next_row_screen [OF assms(1,2,4)] by blast
  then show ?thesis using x step by (intro exI [of _ m'] exI [of _ 0] exI [of _ y']) simp
qed

lemma cell_offset_nat: "cell_offset x y = of_nat (2 * (80 * unat y + unat x))"
  by (simp add: cell_offset_def push_bit_eq_mult mult.commute distrib_left)

lemma cell_index: "x < (80 :: u16) \<Longrightarrow> y < (25 :: u16) \<Longrightarrow> 80 * unat y + unat x < 2000"
  by (simp add: word_less_nat_alt)

lemma put_cell_at:
  assumes "mapped_at s VIDEO 4000 pa" "x < 80" "y < 25"
  shows "\<exists>m'. put_cell (VIDEO + cell_offset x y) c s = Some (s\<lparr>memory := m'\<rparr>) \<and>
    cells_of m' pa = (cells_of (memory s) pa)[80 * unat y + unat x := (c, ATTRIB)]"
  unfolding cell_offset_nat using put_cell_screen [OF assms(1) cell_index [OF assms(2,3)]] .

text \<open>Where a backspace goes, on 16-bit positions and on the abstract screen.\<close>

lemma backspace_position:
  assumes "x < 80" "y < (25 :: u16)"
  shows "x = 0 \<and> y > 0 \<Longrightarrow> unat (y - 1) = unat y - 1" "x \<noteq> 0 \<Longrightarrow> unat (x - 1) = unat x - 1"
    "x \<noteq> 0 \<Longrightarrow> x - 1 < 80" "x = 0 \<and> y > 0 \<Longrightarrow> y - 1 < 25" "x = 0 \<Longrightarrow> \<not> x - 1 < (80 :: u16)"
proof -
  show y: "unat (y - 1) = unat y - 1" if "x = 0 \<and> y > 0" using that by (intro unat_minus_one) auto
  show x: "unat (x - 1) = unat x - 1" if "x \<noteq> 0" using that by (rule unat_minus_one)
  show "x - 1 < 80" if "x \<noteq> 0" using x [OF that] assms(1) by (simp add: word_less_nat_alt)
  show "y - 1 < 25" if "x = 0 \<and> y > 0" using y [OF that] assms(2) by (simp add: word_less_nat_alt)
  show "\<not> x - 1 < (80 :: u16)" if "x = 0" using that by simp
qed

lemma screen_ok_frame:
  "prints_only s s' \<Longrightarrow> screen_ok pa s \<Longrightarrow> screen_x s' < 80 \<Longrightarrow> screen_y s' < 25 \<Longrightarrow> screen_ok pa s'"
  by (simp add: screen_ok_def mapped_at_def prints_only_translate)

lemma clear_at_cursor:
  assumes "screen_ok pa s"
  shows "\<exists>m'. clear_screen_xy s = Some (s\<lparr>memory := m'\<rparr>) \<and>
    cells_of m' pa = (cells_of (memory s) pa)[80 * unat (screen_y s) + unat (screen_x s) := blank]"
  using assms put_cell_at [of s pa "screen_x s" "screen_y s" "0x20"]
  by (simp add: screen_ok_def clear_screen_xy_def)

text \<open>One character through \<^verbatim>\<open>terminal_putc\<close> of the terminal on display.\<close>

definition shown_ok :: "u8 \<Rightarrow> u32 \<Rightarrow> 'a terms_scheme \<Rightarrow> bool" where
  "shown_ok t pa s \<longleftrightarrow> t < 3 \<and> term_id (terminal_at (unat t) s) = current_terminal s \<and> screen_ok pa s"

lemma shown_ok_frame:
  "prints_only s s' \<Longrightarrow> shown_ok t pa s \<Longrightarrow> screen_x s' < 80 \<Longrightarrow> screen_y s' < 25 \<Longrightarrow> shown_ok t pa s'"
  using screen_ok_frame [of s s' pa] by (simp add: shown_ok_def prints_only_def terminal_at_def)

lemma terminal_backspace_screen:
  assumes "shown_ok t pa s"
  shows "\<exists>s'. terminal_put_char t 0x08 s = Some s' \<and> prints_only s s' \<and> screen_x s' < 80 \<and> screen_y s' < 25 \<and>
    screen_of pa s' = screen_put 0x08 (screen_of pa s)"
proof -
  let ?x = "screen_x s" and ?y = "screen_y s"
  let ?pos = "if ?x = 0 \<and> ?y > 0 then (NUM_COLS - 1, ?y - 1) else (?x - 1, ?y)"
  let ?s1 = "set_screen_xy (fst ?pos) (snd ?pos) s"
  have xy: "?x < 80" "?y < 25" and ok: "screen_ok pa s"
    using assms by (simp_all add: shown_ok_def screen_ok_def)
  note pos = backspace_position [OF xy]
  have nat: "unat (screen_x ?s1) = (if 0 < unat ?x then unat ?x - 1 else if 0 < unat ?y then 79 else 0) \<and>
      unat (screen_y ?s1) = (if 0 < unat ?x then unat ?y else if 0 < unat ?y then unat ?y - 1 else 0) \<and>
      screen_x ?s1 < 80 \<and> screen_y ?s1 < 25"
    using pos xy by (auto simp: set_screen_xy_simps unat_gt_0 unat_0_iff word_gt_0)
  then have ok1: "screen_ok pa ?s1"
    using screen_ok_frame [OF _ ok, of ?s1] by (simp add: set_screen_xy_simps)
  from clear_at_cursor [OF ok1] obtain m' where
    m': "clear_screen_xy ?s1 = Some (?s1\<lparr>memory := m'\<rparr>)"
      "cells_of m' pa = (cells_of (memory s) pa)[80 * unat (screen_y ?s1) + unat (screen_x ?s1) := blank]"
    by (auto simp: set_screen_xy_simps)
  have "\<not> TERMINAL_NUM \<le> t" using assms by (simp add: shown_ok_def not_le)
  then have "terminal_put_char t 0x08 s = clear_screen_xy ?s1"
    using assms by (simp add: terminal_put_char_def shown_ok_def Let_def split_beta)
  with m' nat show ?thesis
    by (intro exI [of _ "?s1\<lparr>memory := m'\<rparr>"])
      (auto simp: set_screen_xy_simps screen_of_def screen_put_def Let_def)
qed

lemma terminal_put_char_screen:
  assumes ok: "shown_ok t pa s" and c: "c \<noteq> 0x09"
  shows "\<exists>s'. terminal_put_char t c s = Some s' \<and> prints_only s s' \<and> screen_x s' < 80 \<and> screen_y s' < 25 \<and>
    screen_of pa s' = screen_put c (screen_of pa s)"
proof -
  let ?x = "screen_x s" and ?y = "screen_y s" and ?cs = "cells_of (memory s) pa"
  have map: "mapped_at s VIDEO 4000 pa" "unat pa + 4000 \<le> 4294967296" and xy: "?x < 80" "?y < 25"
    using ok by (simp_all add: shown_ok_def screen_ok_def)
  have t: "\<not> TERMINAL_NUM \<le> t" "term_id (terminal_at (unat t) s) = current_terminal s"
    using ok by (simp_all add: shown_ok_def not_le)
  consider "c = 0" | "c = 0x0A" | "c = 0x08" | "c \<noteq> 0" "c \<noteq> 0x0A" "c \<noteq> 0x08" by blast
  then show ?thesis
  proof cases
    case 1
    with xy show ?thesis by (simp add: terminal_put_char_def screen_put_def screen_of_def)
  next
    case 2
    obtain m' y' where step: "next_row ?y s = Some (s\<lparr>memory := m'\<rparr>, y')" "y' < 25"
      "screen_newline (?cs, unat ?x, unat ?y) = (cells_of m' pa, 0, unat y')"
      using next_row_screen [OF map xy(2)] by blast
    let ?s' = "set_screen_xy 0 y' (s\<lparr>memory := m'\<rparr>)"
    have "terminal_put_char t c s = Some ?s'" using 2 t step(1) by (simp add: terminal_put_char_def Let_def)
    then show ?thesis using 2 step
      by (intro exI [of _ ?s']) (simp add: set_screen_xy_simps screen_of_def screen_put_def)
  next
    case 3
    with terminal_backspace_screen [OF ok] show ?thesis by simp
  next
    case 4
    obtain m1 where m1: "put_cell (VIDEO + cell_offset ?x ?y) c s = Some (s\<lparr>memory := m1\<rparr>)"
      "cells_of m1 pa = ?cs[80 * unat ?y + unat ?x := (c, ATTRIB)]"
      using put_cell_at [OF map(1) xy] by blast
    have "mapped_at (s\<lparr>memory := m1\<rparr>) VIDEO 4000 pa" using map(1) by simp
    note adv = advance_screen [OF this map(2) xy]
    have fields: "memory (s\<lparr>memory := m1\<rparr>) = m1" "s\<lparr>memory := m1\<rparr>\<lparr>memory := m'\<rparr> = s\<lparr>memory := m'\<rparr>" for m'
      by simp_all
    from adv have "\<exists>m' x' y'. advance ?x ?y (s\<lparr>memory := m1\<rparr>) = Some (s\<lparr>memory := m'\<rparr>, x', y') \<and> x' < 80 \<and> y' < 25 \<and>
      (if unat ?x < 79 then (cells_of m1 pa, unat ?x + 1, unat ?y)
        else screen_newline (cells_of m1 pa, unat ?x, unat ?y)) = (cells_of m' pa, unat x', unat y')"
      unfolding fields .
    then obtain m' x' y' where step:
      "advance ?x ?y (s\<lparr>memory := m1\<rparr>) = Some (s\<lparr>memory := m'\<rparr>, x', y')" "x' < 80" "y' < 25"
      "(if unat ?x < 79 then (cells_of m1 pa, unat ?x + 1, unat ?y)
        else screen_newline (cells_of m1 pa, unat ?x, unat ?y)) = (cells_of m' pa, unat x', unat y')"
      by blast
    let ?s' = "set_screen_xy x' y' (s\<lparr>memory := m'\<rparr>)"
    have "terminal_put_char t c s = Some ?s'" using 4 t m1(1) step(1)
      by (simp add: terminal_put_char_def Let_def)
    moreover have "screen_put c (screen_of pa s) = (cells_of m' pa, unat x', unat y')"
      using 4 c unfolding step(4) [symmetric] m1(2) by (simp add: screen_of_def screen_put_def Let_def)
    ultimately show ?thesis using step(2,3)
      by (intro exI [of _ ?s']) (simp add: set_screen_xy_simps screen_of_def)
  qed
qed

lemma terminal_putc_prints:
  assumes "shown_ok t pa s"
  shows "\<exists>s'. terminal_putc t c s = Some s' \<and> prints_only s s' \<and> shown_ok t pa s' \<and>
    screen_of pa s' = screen_put c (screen_of pa s)"
proof -
  have tab: "screen_put (if c = 0x09 then 0x20 else c) = screen_put c"
    by (auto simp: screen_put_def fun_eq_iff)
  have "(if c = 0x09 then 0x20 else c) \<noteq> 0x09" by simp
  from terminal_put_char_screen [OF assms this] obtain s' where s':
    "terminal_putc t c s = Some s'" "prints_only s s'" "screen_x s' < 80" "screen_y s' < 25"
    "screen_of pa s' = screen_put c (screen_of pa s)"
    unfolding tab terminal_putc_def by blast
  with shown_ok_frame [OF s'(2) assms] show ?thesis by blast
qed

lemma terminal_putc_screen:
  "shown_ok t pa s \<Longrightarrow> \<exists>s'. terminal_putc t c s = Some s' \<and> shown_ok t pa s' \<and>
    screen_of pa s' = screen_put c (screen_of pa s)"
  using terminal_putc_prints by blast

text \<open>One character through \<^verbatim>\<open>putc\<close>.\<close>

lemma set_screen_x_simps:
  "x < 80 \<Longrightarrow> screen_x (set_screen_x x s) = x" "\<not> x < 80 \<Longrightarrow> set_screen_x x s = s"
  "screen_y (set_screen_x x s) = screen_y s" "memory (set_screen_x x s) = memory s"
  "prints_only s (set_screen_x x t) = prints_only s t"
  by (simp_all add: set_screen_x_def)

lemma put_backspace_screen:
  assumes ok: "screen_ok pa s"
  shows "\<exists>s'. put_screen_char 0x08 s = Some s' \<and> prints_only s s' \<and> screen_x s' < 80 \<and> screen_y s' < 25 \<and>
    screen_of pa s' = screen_put 0x08 (screen_of pa s)"
proof -
  let ?x = "screen_x s" and ?y = "screen_y s"
  let ?s1 = "if ?x = 0 \<and> ?y > 0 then set_screen_xy (NUM_COLS - 1) (?y - 1) s else set_screen_x (?x - 1) s"
  have xy: "?x < 80" "?y < 25" using ok by (simp_all add: screen_ok_def)
  note pos = backspace_position [OF xy]
  have nat: "unat (screen_x ?s1) = (if 0 < unat ?x then unat ?x - 1 else if 0 < unat ?y then 79 else 0) \<and>
      unat (screen_y ?s1) = (if 0 < unat ?x then unat ?y else if 0 < unat ?y then unat ?y - 1 else 0) \<and>
      screen_x ?s1 < 80 \<and> screen_y ?s1 < 25"
    using pos xy by (auto simp: set_screen_xy_simps set_screen_x_simps unat_gt_0 unat_0_iff word_gt_0)
  have same: "memory ?s1 = memory s" "prints_only s ?s1" "prints_only s (?s1\<lparr>memory := m\<rparr>)" for m
    by (simp_all add: set_screen_xy_simps set_screen_x_simps)
  have ok1: "screen_ok pa ?s1" using screen_ok_frame [OF same(2) ok] nat by blast
  from clear_at_cursor [OF ok1] obtain m' where
    m': "clear_screen_xy ?s1 = Some (?s1\<lparr>memory := m'\<rparr>)"
      "cells_of m' pa = (cells_of (memory s) pa)[80 * unat (screen_y ?s1) + unat (screen_x ?s1) := blank]"
    unfolding same(1) by blast
  have "put_screen_char 0x08 s = Some (?s1\<lparr>memory := m'\<rparr>)"
    using m'(1) by (simp add: put_screen_char_def Let_def get_screen_x_def get_screen_y_def)
  moreover have "screen_of pa (?s1\<lparr>memory := m'\<rparr>) = screen_put 0x08 (screen_of pa s)"
    using nat m'(2) by (auto simp: screen_of_def screen_put_def Let_def)
  ultimately show ?thesis using nat same(3) [of m'] by (intro exI [of _ "?s1\<lparr>memory := m'\<rparr>"]) simp
qed

lemma put_screen_char_screen:
  assumes ok: "screen_ok pa s" and c: "c \<noteq> 0x09" "c \<noteq> 0"
  shows "\<exists>s'. put_screen_char c s = Some s' \<and> prints_only s s' \<and> screen_x s' < 80 \<and> screen_y s' < 25 \<and>
    screen_of pa s' = screen_put c (screen_of pa s)"
proof -
  let ?x = "screen_x s" and ?y = "screen_y s" and ?cs = "cells_of (memory s) pa"
  have map: "mapped_at s VIDEO 4000 pa" "unat pa + 4000 \<le> 4294967296" and xy: "?x < 80" "?y < 25"
    using ok by (simp_all add: screen_ok_def)
  consider "c = 0x0A" | "c = 0x08" | "c \<noteq> 0x0A" "c \<noteq> 0x08" by blast
  then show ?thesis
  proof cases
    case 1
    obtain m' y' where step: "next_row ?y s = Some (s\<lparr>memory := m'\<rparr>, y')" "y' < 25"
      "screen_newline (?cs, unat ?x, unat ?y) = (cells_of m' pa, 0, unat y')"
      using next_row_screen [OF map xy(2)] by blast
    let ?s' = "s\<lparr>memory := m', screen_x := 0, screen_y := y'\<rparr>"
    have "put_screen_char c s = Some ?s'" using 1 step(1) by (simp add: put_screen_char_def)
    then show ?thesis using 1 step
      by (intro exI [of _ ?s']) (simp add: screen_of_def screen_put_def)
  next
    case 2
    with put_backspace_screen [OF ok] show ?thesis by simp
  next
    case 3
    obtain m1 where m1: "put_cell (VIDEO + cell_offset ?x ?y) c s = Some (s\<lparr>memory := m1\<rparr>)"
      "cells_of m1 pa = ?cs[80 * unat ?y + unat ?x := (c, ATTRIB)]"
      using put_cell_at [OF map(1) xy] by blast
    have "mapped_at (s\<lparr>memory := m1\<rparr>) VIDEO 4000 pa" using map(1) by simp
    note adv = advance_screen [OF this map(2) xy]
    have fields: "memory (s\<lparr>memory := m1\<rparr>) = m1" "s\<lparr>memory := m1\<rparr>\<lparr>memory := m'\<rparr> = s\<lparr>memory := m'\<rparr>" for m'
      by simp_all
    from adv obtain m' x' y' where step:
      "advance ?x ?y (s\<lparr>memory := m1\<rparr>) = Some (s\<lparr>memory := m'\<rparr>, x', y')" "x' < 80" "y' < 25"
      "(if unat ?x < 79 then (cells_of m1 pa, unat ?x + 1, unat ?y)
        else screen_newline (cells_of m1 pa, unat ?x, unat ?y)) = (cells_of m' pa, unat x', unat y')"
      unfolding fields by blast
    let ?s' = "s\<lparr>memory := m', screen_x := x', screen_y := y'\<rparr>"
    have "put_screen_char c s = Some ?s'" using 3 m1(1) step(1) by (simp add: put_screen_char_def)
    moreover have "screen_put c (screen_of pa s) = (cells_of m' pa, unat x', unat y')"
      using 3 c unfolding step(4) [symmetric] m1(2) by (simp add: screen_of_def screen_put_def Let_def)
    ultimately show ?thesis using step(2,3) by (intro exI [of _ ?s']) (simp add: screen_of_def)
  qed
qed

text \<open>The running process is on the terminal on display, or on none.\<close>

definition putc_ok :: "u32 \<Rightarrow> 'a terms_scheme \<Rightarrow> bool" where
  "putc_ok pa s \<longleftrightarrow> screen_ok pa s \<and>
     (\<exists>term. get_running_terminal s = Some term \<and> hidden_terminal term s = None)"

lemma putc_ok_frame:
  assumes "prints_only s s'" "putc_ok pa s" "screen_x s' < 80" "screen_y s' < 25"
  shows "putc_ok pa s'"
proof -
  have "get_running_terminal s' = get_running_terminal s" "hidden_terminal term s' = hidden_terminal term s" for "term"
    using assms(1) get_running_terminal_cong [of s' s]
    by (auto simp: prints_only_def hidden_terminal_def terminal_at_def split: option.splits)
  with assms screen_ok_frame [OF assms(1)] show ?thesis by (simp add: putc_ok_def)
qed

lemma putc_prints:
  assumes ok: "putc_ok pa s"
  shows "\<exists>s'. putc c s = Some s' \<and> prints_only s s' \<and> putc_ok pa s' \<and>
    screen_of pa s' = screen_put c (screen_of pa s)"
proof -
  obtain "term" where run: "get_running_terminal s = Some term" "hidden_terminal term s = None"
    and scr: "screen_ok pa s" using ok by (auto simp: putc_ok_def)
  let ?c = "if c = 0x09 then 0x20 else c :: u8"
  have tab: "screen_put ?c = screen_put c" "?c \<noteq> 0x09" by (auto simp: screen_put_def fun_eq_iff)
  have putc: "putc c s = putc_char ?c s" using run by (simp add: putc_def)
  show ?thesis
  proof (cases "c = 0")
    case True
    then have "screen_put c (screen_of pa s) = screen_of pa s" by (simp add: screen_put_def screen_of_def)
    with True putc run ok show ?thesis by (simp add: putc_char_def)
  next
    case False
    then have "?c \<noteq> 0" by simp
    from put_screen_char_screen [OF scr tab(2) this] obtain s' where s': "put_screen_char ?c s = Some s'"
      "prints_only s s'" "screen_x s' < 80" "screen_y s' < 25"
      "screen_of pa s' = screen_put c (screen_of pa s)" unfolding tab(1) by blast
    let ?s' = "set_cursor_location (screen_x s') (screen_y s') s'"
    have "putc c s = Some ?s'" using putc run s'(1) \<open>?c \<noteq> 0\<close> by (simp add: putc_char_def Let_def split: if_splits)
    moreover have "putc_ok pa ?s'" by (rule putc_ok_frame [OF _ ok]) (use s' in simp_all)
    moreover have "screen_of pa ?s' = screen_of pa s'" by (simp add: screen_of_def)
    ultimately show ?thesis using s'(2,5) by simp
  qed
qed

lemma putc_screen:
  "putc_ok pa s \<Longrightarrow>
    \<exists>s'. putc c s = Some s' \<and> putc_ok pa s' \<and> screen_of pa s' = screen_put c (screen_of pa s)"
  using putc_prints by blast

subsection \<open>The interface of a character device\<close>

text \<open>
  What the kernel's callers rely on: a character always goes through, and the screen
  afterwards is the abstract one with that character printed.
\<close>

locale screen_writer =
  fixes put :: "u8 \<Rightarrow> 's \<Rightarrow> 's option"
    and view :: "'s \<Rightarrow> screen"
    and ready :: "'s \<Rightarrow> bool"
  assumes put_law: "ready s \<Longrightarrow> \<exists>s'. put c s = Some s' \<and> ready s' \<and> view s' = screen_put c (view s)"
begin

primrec put_all :: "u8 list \<Rightarrow> 's \<Rightarrow> 's option" where
  "put_all [] s = Some s"
| "put_all (c # cs) s = Option.bind (put c s) (put_all cs)"

lemma put_all_view:
  "ready s \<Longrightarrow> \<exists>s'. put_all cs s = Some s' \<and> ready s' \<and> view s' = fold screen_put cs (view s)"
proof (induction cs arbitrary: s)
  case (Cons c cs)
  obtain s1 where s1: "put c s = Some s1" "ready s1" "view s1 = screen_put c (view s)"
    using put_law [OF Cons.prems] by blast
  from Cons.IH [OF s1(2)] s1 show ?case by auto
qed simp

lemma put_all_append: "put_all (cs @ ds) s = Option.bind (put_all cs s) (put_all ds)"
  by (induction cs arbitrary: s) (auto split: Option.bind_splits)

end

interpretation shown_terminal: screen_writer "terminal_putc t" "screen_of pa" "shown_ok t pa"
  for t :: u8 and pa :: u32
  by unfold_locales (rule terminal_putc_screen)

interpretation console: screen_writer putc "screen_of pa" "putc_ok pa" for pa :: u32
  by unfold_locales (rule putc_screen)

lemma screen_put_bounds:
  assumes "length cs = 2000" "x < 80" "y < 25" "screen_put c (cs, x, y) = (cs', x', y')"
  shows "length cs' = 2000" "x' < 80" "y' < 25"
  using assms by (auto simp: screen_put_def screen_newline_def Let_def split: if_splits)

subsection \<open>Properties\<close>

text \<open>
  C7: Printing any character with \<^verbatim>\<open>terminal_putc\<close> to the terminal on display
  succeeds and does to the 80 by 25 cells and the cursor exactly what the abstract screen says:
  newline, wrapping at the right edge, scrolling at the bottom, backspace and tab included; the
  cursor stays on the screen.
\<close>

theorem terminal_putc_refines_screen:
  assumes "shown_ok t pa s"
  shows "\<exists>s'. terminal_putc t c s = Some s' \<and> screen_of pa s' = screen_put c (screen_of pa s) \<and>
    screen_x s' < 80 \<and> screen_y s' < 25"
  using terminal_putc_screen [OF assms, of c] by (auto simp: shown_ok_def screen_ok_def)

lemma demo_screen: "mapped_at demo_terms VIDEO 4000 VIDEO"
proof -
  have "unat (0xB8000 + of_nat i :: u32) = 0xB8000 + i" if "i < 4000" for i
  proof -
    have "unat (of_nat (0xB8000 + i) :: u32) = 0xB8000 + i" by (rule unat_of_nat32) (use that in simp)
    then show ?thesis by simp
  qed
  then show ?thesis by (simp add: mapped_at_def demo_terms_translate)
qed

lemma demo_shown: "shown_ok 0 VIDEO demo_terms"
  using demo_screen by (simp add: shown_ok_def screen_ok_def terminal_at_def demo_terminal_def)

lemma terminal_putc_refines_screen_witness:
  "\<exists>s'. terminal_putc 0 0x41 demo_terms = Some s' \<and>
    screen_of VIDEO s' = screen_put 0x41 (screen_of VIDEO demo_terms) \<and> screen_x s' < 80 \<and> screen_y s' < 25"
  by (rule terminal_putc_refines_screen [OF demo_shown])

text \<open>
  Printing a whole string with \<^verbatim>\<open>putc\<close> while the running process is on the
  terminal on display, or on none, succeeds, and the screen is the abstract one with the
  characters printed in order.
\<close>

theorem printing_a_string:
  assumes "putc_ok pa s"
  shows "\<exists>s'. screen_writer.put_all putc cs s = Some s' \<and> putc_ok pa s' \<and>
    screen_of pa s' = fold screen_put cs (screen_of pa s)"
  using assms by (rule console.put_all_view)

lemma printing_a_string_witness:
  "\<exists>s'. screen_writer.put_all putc [0x48, 0x69, 0x0A] demo_terms = Some s' \<and> putc_ok VIDEO s' \<and>
    screen_of VIDEO s' = fold screen_put [0x48, 0x69, 0x0A] (screen_of VIDEO demo_terms)"
proof (rule printing_a_string)
  have "get_running_terminal demo_terms = Some (Some 0)"
    by (rule get_running_terminal_runs_on) (simp add: demo_terms_runs)
  then show "putc_ok VIDEO demo_terms"
    using demo_screen
    by (simp add: putc_ok_def screen_ok_def hidden_terminal_def terminal_at_def demo_terminal_def)
qed

text \<open>
  A backspace at the origin of a terminal that is not on display moves its cursor to
  column 65535, because \<^verbatim>\<open>set_terminal_screen_xy\<close> rejects a position only when
  both coordinates are out of range, and blanks the cell at that column: two bytes 128 KiB past
  the start of video memory.
\<close>

theorem hidden_backspace_leaves_screen:
  assumes "t < 3" "terminal_at (unat t) s = x" "term_id x = t" "t \<noteq> current_terminal s"
    and "term_x x = 0" "term_y x = 0" "length (terminals s) = 3"
  shows "terminal_putc t 0x08 s =
    put_cell (VIDEO + 131070) 0x20 (update_terminal (unat t) (\<lambda>x. x\<lparr>term_x := 65535, term_y := 0\<rparr>) s)"
proof -
  have t: "\<not> TERMINAL_NUM \<le> t" "unat t < 3" using assms(1) by (simp_all add: not_le word_less_nat_alt)
  let ?s = "update_terminal (unat t) (\<lambda>x. x\<lparr>term_x := 65535, term_y := 0\<rparr>) s"
  have "terminal_at (unat t) ?s = x\<lparr>term_x := 65535, term_y := 0\<rparr>"
    using assms(2,7) t(2) by (simp add: terminal_at_update)
  moreover have "set_terminal_screen_xy t (- 1) 0 s = ?s"
  proof -
    have m1: "(- 1 :: u16) = 65535" by simp
    show ?thesis unfolding m1 using t(1) by (simp add: set_terminal_screen_xy_def)
  qed
  moreover have "cell_offset 65535 0 = 131070" by (simp add: cell_offset_def)
  ultimately show ?thesis using assms t(1)
    by (simp add: terminal_putc_def terminal_put_char_def Let_def clear_terminal_screen_xy_def)
qed

lemma hidden_backspace_leaves_screen_witness:
  "terminal_putc 1 0x08 demo_terms =
    put_cell (VIDEO + 131070) 0x20 (update_terminal 1 (\<lambda>x. x\<lparr>term_x := 65535, term_y := 0\<rparr>) demo_terms)"
  using hidden_backspace_leaves_screen [of 1 demo_terms "demo_terminal 5 1 0xBA000"]
  by (simp add: terminal_at_def demo_terminal_def)

end
