(* ===== verification/Keyboard.thy ===== *)
theory Keyboard
  imports Display
begin

text \<open>
  \<^verbatim>\<open>student-distrib/keyboard.c\<close> with the tables of \<^verbatim>\<open>scancodes.h\<close> and
  \<^verbatim>\<open>keyboard.h\<close>: the state of the keys, the line that a terminal collects, and the
  read that waits for its newline. The bytes read from the controller's ports are arguments of
  the handler; a read waits over a given list of scancodes that arrive meanwhile, and is
  \<open>None\<close> when none of them completes a line. A store past the 128 bytes of the line buffer
  is \<open>None\<close> as well.
\<close>

text \<open>The scancodes the code names; releasing a key sends its code with bit 7 set.\<close>

abbreviation SCS1_PRESSED_BACKSPACE :: u32 where "SCS1_PRESSED_BACKSPACE \<equiv> 0xE"
abbreviation SCS1_PRESSED_LEFTCTRL :: u32 where "SCS1_PRESSED_LEFTCTRL \<equiv> 0x1D"
abbreviation SCS1_PRESSED_L :: u32 where "SCS1_PRESSED_L \<equiv> 0x26"
abbreviation SCS1_PRESSED_LEFTSHIFT :: u32 where "SCS1_PRESSED_LEFTSHIFT \<equiv> 0x2A"
abbreviation SCS1_PRESSED_RIGHTSHIFT :: u32 where "SCS1_PRESSED_RIGHTSHIFT \<equiv> 0x36"
abbreviation SCS1_PRESSED_LEFTALT :: u32 where "SCS1_PRESSED_LEFTALT \<equiv> 0x38"
abbreviation SCS1_PRESSED_CAPSLOCK :: u32 where "SCS1_PRESSED_CAPSLOCK \<equiv> 0x3A"
abbreviation SCS1_PRESSED_F1 :: u32 where "SCS1_PRESSED_F1 \<equiv> 0x3B"
abbreviation SCS1_PRESSED_F2 :: u32 where "SCS1_PRESSED_F2 \<equiv> 0x3C"
abbreviation SCS1_PRESSED_F3 :: u32 where "SCS1_PRESSED_F3 \<equiv> 0x3D"
abbreviation SCS1_PRESSED_F4 :: u32 where "SCS1_PRESSED_F4 \<equiv> 0x3E"
abbreviation SCS1_PRESSED_F5 :: u32 where "SCS1_PRESSED_F5 \<equiv> 0x3F"
abbreviation SCS1_PRESSED_F6 :: u32 where "SCS1_PRESSED_F6 \<equiv> 0x40"
abbreviation SCS1_PRESSED_F7 :: u32 where "SCS1_PRESSED_F7 \<equiv> 0x41"
abbreviation SCS1_PRESSED_F8 :: u32 where "SCS1_PRESSED_F8 \<equiv> 0x42"
abbreviation SCS1_PRESSED_F9 :: u32 where "SCS1_PRESSED_F9 \<equiv> 0x43"
abbreviation SCS1_PRESSED_F10 :: u32 where "SCS1_PRESSED_F10 \<equiv> 0x44"
abbreviation SCS1_PRESSED_F11 :: u32 where "SCS1_PRESSED_F11 \<equiv> 0x57"
abbreviation SCS1_PRESSED_F12 :: u32 where "SCS1_PRESSED_F12 \<equiv> 0x58"
abbreviation SCS1_RELEASED_CAPSLOCK :: u32 where "SCS1_RELEASED_CAPSLOCK \<equiv> 0xBA"
abbreviation SCS1_RELEASED_F12 :: u32 where "SCS1_RELEASED_F12 \<equiv> 0xD8"
abbreviation SCS1_MULTIBYTE :: u32 where "SCS1_MULTIBYTE \<equiv> 0xE0"
abbreviation SCS1_KEYPRESS_RELEASE_OFFSET :: u32 where "SCS1_KEYPRESS_RELEASE_OFFSET \<equiv> 0x80"
abbreviation SCS1_UPPERCASE_OFFSET :: u8 where "SCS1_UPPERCASE_OFFSET \<equiv> 0x20"
abbreviation KEYBOARD_IRQ :: u32 where "KEYBOARD_IRQ \<equiv> 1"
abbreviation KEYBOARD_OUTBUF_FULL :: u32 where "KEYBOARD_OUTBUF_FULL \<equiv> 1"

text \<open>The character of each scancode, 0 for none.\<close>

definition keycodes :: "u8 list" where
  "keycodes = map of_nat [
     0, 0, 49, 50, 51, 52, 53, 54, 55, 56, 57, 48, 45, 61, 10, 32, 113, 119, 101, 114,
     116, 121, 117, 105, 111, 112, 91, 93, 10, 0, 97, 115, 100, 102, 103, 104, 106, 107, 108, 59,
     39, 96, 0, 92, 122, 120, 99, 118, 98, 110, 109, 44, 46, 47, 0, 42, 0, 32, 0, 0,
     0, 0, 0, 0, 0, 0, 0, 0, 0, 0, 0, 0, 0, 0, 0, 0, 0, 0, 0, 0,
     0, 0, 0, 0, 0, 0, 0, 0]"

text \<open>The characters that shift replaces, with their replacements.\<close>

definition shifted :: "(u8 \<times> u8) list" where
  "shifted = [
     (49, 33), (50, 64), (51, 35), (52, 36), (53, 37), (54, 94), (55, 38), (56, 42),
     (57, 40), (48, 41), (96, 126), (45, 95), (61, 43), (59, 58), (39, 34), (44, 60),
     (46, 62), (47, 63), (91, 123), (93, 125), (92, 124)]"

record keyboard = terms +
  key_state :: "u8 list"
  caps_lock_repeat :: u32
  multi_byte :: u32
  terminal_to_switch_to :: int

definition key_at :: "u32 \<Rightarrow> 'a keyboard_scheme \<Rightarrow> u8" where
  "key_at k s = key_state s ! unat k"

definition set_key :: "u32 \<Rightarrow> u8 \<Rightarrow> 'a keyboard_scheme \<Rightarrow> 'a keyboard_scheme" where
  "set_key code v s = s\<lparr>key_state := (key_state s)[unat code := v]\<rparr>"

definition shift_pressed :: "'a keyboard_scheme \<Rightarrow> bool" where
  "shift_pressed s \<longleftrightarrow> key_at SCS1_PRESSED_LEFTSHIFT s OR key_at SCS1_PRESSED_RIGHTSHIFT s \<noteq> 0"

definition capslock_pressed :: "'a keyboard_scheme \<Rightarrow> bool" where
  "capslock_pressed s \<longleftrightarrow> key_at SCS1_PRESSED_CAPSLOCK s \<noteq> 0"

definition is_func_key :: "'a keyboard_scheme \<Rightarrow> bool" where
  "is_func_key s \<longleftrightarrow> list_ex (\<lambda>k. key_at k s \<noteq> 0)
     [SCS1_PRESSED_F1, SCS1_PRESSED_F2, SCS1_PRESSED_F3, SCS1_PRESSED_F4, SCS1_PRESSED_F5,
      SCS1_PRESSED_F6, SCS1_PRESSED_F7, SCS1_PRESSED_F8, SCS1_PRESSED_F9, SCS1_PRESSED_F10,
      SCS1_PRESSED_F11, SCS1_PRESSED_F12]"

definition alt_pressed :: "'a keyboard_scheme \<Rightarrow> bool" where
  "alt_pressed s \<longleftrightarrow> key_at SCS1_PRESSED_LEFTALT s \<noteq> 0"

definition is_lower :: "u8 \<Rightarrow> bool" where
  "is_lower c \<longleftrightarrow> 0x61 \<le> c \<and> c \<le> 0x7A"

definition handle_disp :: "u8 \<Rightarrow> 'a keyboard_scheme \<Rightarrow> u8" where
  "handle_disp disp s =
     (if shift_pressed s \<or> (capslock_pressed s \<and> is_lower disp) then
        if is_lower disp \<and> \<not> (capslock_pressed s \<and> shift_pressed s) then disp - SCS1_UPPERCASE_OFFSET
        else case map_of shifted disp of Some c \<Rightarrow> c | None \<Rightarrow> disp
      else disp)"

definition clear_line_buf :: "'a keyboard_scheme \<Rightarrow> 'a keyboard_scheme option" where
  "clear_line_buf s =
     map_option (\<lambda>t. case t of
         None \<Rightarrow> s
       | Some t \<Rightarrow> update_terminal t (\<lambda>x. x\<lparr>line_buf := replicate LINE_BUFFER_SIZE 0, line_buf_index := 0\<rparr>) s)
       (get_running_terminal s)"

definition init_keyboard :: "'a keyboard_scheme \<Rightarrow> 'a keyboard_scheme option" where
  "init_keyboard s = clear_line_buf ((enable_irq KEYBOARD_IRQ s)\<lparr>multi_byte := 0, caps_lock_repeat := 0\<rparr>)"

subsection \<open>Typing\<close>

text \<open>The character is stored at the index, which may be one past the buffer, and counted.\<close>

definition push_char :: "u8 \<Rightarrow> nat \<Rightarrow> 'a keyboard_scheme \<Rightarrow> 'a keyboard_scheme option" where
  "push_char c t s =
     Option.bind (putc c s) (\<lambda>s.
       let i = line_buf_index (terminal_at t s) in
       if unat i < LINE_BUFFER_SIZE
       then Some (update_terminal t
         (\<lambda>x. x\<lparr>line_buf := (line_buf x)[unat i := c], line_buf_index := i + 1\<rparr>) s)
       else None)"

definition pop_char :: "nat \<Rightarrow> 'a keyboard_scheme \<Rightarrow> 'a keyboard_scheme option" where
  "pop_char t s =
     (let i = line_buf_index (terminal_at t s) - 1 in
      if unat i < LINE_BUFFER_SIZE
      then putc 0x08 (update_terminal t
        (\<lambda>x. x\<lparr>line_buf := (line_buf x)[unat i := 0], line_buf_index := i\<rparr>) s)
      else None)"

text \<open>The key's state after it was pressed; caps lock toggles unless it is being held.\<close>

definition note_press :: "u32 \<Rightarrow> 'a keyboard_scheme \<Rightarrow> 'a keyboard_scheme" where
  "note_press scancode s =
     (if scancode = SCS1_PRESSED_CAPSLOCK \<and> caps_lock_repeat s = 0
      then (set_key scancode (key_state s ! unat scancode XOR 1) s)\<lparr>caps_lock_repeat := 1\<rparr>
      else set_key scancode 1 s)"

definition press_key :: "u32 \<Rightarrow> 'a keyboard_scheme \<Rightarrow> 'a keyboard_scheme option" where
  "press_key scancode s =
     (let t = unat (current_terminal s);
          disp = handle_disp (keycodes ! unat scancode) s;
          s = note_press scancode s
      in if alt_pressed s \<and> is_func_key s then
           Some (if scancode = SCS1_PRESSED_F1 then (send_eoi KEYBOARD_IRQ s)\<lparr>terminal_to_switch_to := 0\<rparr>
             else if scancode = SCS1_PRESSED_F2 then (send_eoi KEYBOARD_IRQ s)\<lparr>terminal_to_switch_to := 1\<rparr>
             else if scancode = SCS1_PRESSED_F3 then (send_eoi KEYBOARD_IRQ s)\<lparr>terminal_to_switch_to := 2\<rparr>
             else s)
         else if key_at SCS1_PRESSED_LEFTCTRL s \<noteq> 0 \<and> scancode = SCS1_PRESSED_L then clear s
         else if read_flag (terminal_at t s) = 0 then Some s
         else if key_at SCS1_PRESSED_BACKSPACE s = 1 then
           if line_buf_index (terminal_at t s) > 0 then pop_char t s else Some s
         else if disp \<noteq> 0 then
           if line_buf_index (terminal_at t s) < of_nat LINE_BUFFER_SIZE - 1 \<or> disp = 0x0A
           then push_char disp t s else Some s
         else Some s)"

definition release_key :: "u32 \<Rightarrow> 'a keyboard_scheme \<Rightarrow> 'a keyboard_scheme" where
  "release_key scancode s =
     (if scancode = SCS1_RELEASED_CAPSLOCK then s\<lparr>caps_lock_repeat := 0\<rparr>
      else set_key (scancode - SCS1_KEYPRESS_RELEASE_OFFSET) 0 s)"

definition handle_keypress :: "u32 \<Rightarrow> 'a keyboard_scheme \<Rightarrow> 'a keyboard_scheme option" where
  "handle_keypress scancode s =
     (if scancode = SCS1_MULTIBYTE then Some (s\<lparr>multi_byte := 1\<rparr>)
      else if multi_byte s \<noteq> 0 then Some (s\<lparr>multi_byte := 0\<rparr>)
      else if 0 < scancode \<and> scancode < SCS1_PRESSED_F12 then press_key scancode s
      else if SCS1_KEYPRESS_RELEASE_OFFSET < scancode \<and> scancode \<le> SCS1_RELEASED_F12
        then Some (release_key scancode s)
      else Some s)"

text \<open>The interrupt handler, given the controller's status and data bytes.\<close>

definition irqh_keyboard :: "u32 \<Rightarrow> u32 \<Rightarrow> 'a keyboard_scheme \<Rightarrow> 'a keyboard_scheme option" where
  "irqh_keyboard status_byte data_byte s =
     map_option (send_eoi KEYBOARD_IRQ)
       (if status_byte AND KEYBOARD_OUTBUF_FULL \<noteq> 0 then handle_keypress data_byte s else Some s)"

subsection \<open>Reading a line\<close>

definition contains_newline :: "u8 list \<Rightarrow> int" where
  "contains_newline buf =
     (case List.find (\<lambda>i. buf ! i = 0x0A) [0..<LINE_BUFFER_SIZE] of None \<Rightarrow> - 1 | Some i \<Rightarrow> int i)"

text \<open>The wait for a newline; each element of the list is a scancode arriving meanwhile.\<close>

fun wait_newline :: "nat \<Rightarrow> u32 list \<Rightarrow> 'a keyboard_scheme \<Rightarrow> ('a keyboard_scheme \<times> nat) option" where
  "wait_newline t codes s =
     (let nl_idx = contains_newline (line_buf (terminal_at t s)) in
      if nl_idx \<noteq> - 1 then Some (s, nat nl_idx)
      else case codes of
        [] \<Rightarrow> None
      | code # codes \<Rightarrow> Option.bind (irqh_keyboard KEYBOARD_OUTBUF_FULL code s) (wait_newline t codes))"

declare wait_newline.simps [simp del]

definition get_line_buf :: "u32 list \<Rightarrow> u32 \<Rightarrow> int \<Rightarrow> 'a keyboard_scheme \<Rightarrow> ('a keyboard_scheme \<times> int) option" where
  "get_line_buf codes buf nbytes s =
     (if nbytes \<le> 0 \<or> buf = 0 then Some (s, - 1)
      else Option.bind (get_running_terminal s) (\<lambda>t. case t of
        None \<Rightarrow> Some (s, - 1)
      | Some t \<Rightarrow>
          Option.bind (wait_newline t codes (update_terminal t (\<lambda>x. x\<lparr>read_flag := 1\<rparr>) s)) (\<lambda>(s, nl_idx).
            let limit = min (int nl_idx + 1) nbytes
            in Option.bind (put_bytes buf (take (nat limit) (line_buf (terminal_at t s))) s) (\<lambda>s.
               Option.bind (put_byte (buf + of_int (min nbytes 128)) 0x0A s) (\<lambda>s.
               map_option (\<lambda>s. (update_terminal t (\<lambda>x. x\<lparr>read_flag := 0\<rparr>) s, limit)) (clear_line_buf s))))))"

subsection \<open>The case of a letter\<close>

lemma shifted_keys: "map_of shifted c \<noteq> None \<Longrightarrow> \<not> is_lower c"
  by (auto simp: shifted_def is_lower_def split: if_splits)

text \<open>
  A letter is typed as a capital exactly when one of shift and caps lock is in effect
  and not both, and every other character changes with shift alone.
\<close>

theorem letter_case:
  "handle_disp c s =
     (if is_lower c then if shift_pressed s \<noteq> capslock_pressed s then c - 0x20 else c
      else if shift_pressed s then case map_of shifted c of Some d \<Rightarrow> d | None \<Rightarrow> c else c)"
  using shifted_keys [of c] by (auto simp: handle_disp_def split: option.splits)

subsection \<open>The line being typed\<close>

text \<open>The characters before the index; a well-formed line has only NULs after them.\<close>

definition line_of :: "nat \<Rightarrow> 'a terms_scheme \<Rightarrow> u8 list" where
  "line_of t s = take (unat (line_buf_index (terminal_at t s))) (line_buf (terminal_at t s))"

definition line_ok :: "nat \<Rightarrow> 'a terms_scheme \<Rightarrow> bool" where
  "line_ok t s \<longleftrightarrow> t < 3 \<and> length (terminals s) = 3 \<and> length (line_buf (terminal_at t s)) = LINE_BUFFER_SIZE \<and>
     unat (line_buf_index (terminal_at t s)) \<le> LINE_BUFFER_SIZE \<and>
     (\<forall>i < LINE_BUFFER_SIZE. unat (line_buf_index (terminal_at t s)) \<le> i \<longrightarrow> line_buf (terminal_at t s) ! i = 0)"

lemma line_of_terminals: "terminals s' = terminals s \<Longrightarrow> line_of t s' = line_of t s"
  by (simp add: line_of_def terminal_at_def)

lemma line_ok_terminals: "terminals s' = terminals s \<Longrightarrow> line_ok t s' = line_ok t s"
  by (simp add: line_ok_def terminal_at_def)

lemma length_line_of: "line_ok t s \<Longrightarrow> length (line_of t s) = unat (line_buf_index (terminal_at t s))"
  by (simp add: line_ok_def line_of_def)

lemma line_ok_is_line: "line_ok t s \<Longrightarrow>
    line_buf (terminal_at t s) = line_of t s @ replicate (LINE_BUFFER_SIZE - length (line_of t s)) 0"
  by (rule nth_equalityI) (auto simp: line_ok_def line_of_def nth_append)

lemma line_append:
  fixes c :: u8
  assumes "line_ok t s" "unat (line_buf_index (terminal_at t s)) < LINE_BUFFER_SIZE"
  defines "i \<equiv> line_buf_index (terminal_at t s)"
  defines "s' \<equiv> update_terminal t (\<lambda>x. x\<lparr>line_buf := (line_buf x)[unat i := c], line_buf_index := i + 1\<rparr>) s"
  shows "line_ok t s'" "line_of t s' = line_of t s @ [c]"
proof -
  have "unat (i + 1) = (unat i + 1) mod 4294967296" by (simp add: unat_word_ariths)
  then have i: "unat (i + 1) = unat i + 1" using assms(2) by (simp add: i_def)
  have at: "terminal_at t s' = (terminal_at t s)\<lparr>line_buf := (line_buf (terminal_at t s))[unat i := c],
      line_buf_index := i + 1\<rparr>"
    using assms(1) by (simp add: s'_def terminal_at_update line_ok_def)
  show "line_ok t s'" using assms(1,2) i unfolding line_ok_def at by (auto simp: i_def s'_def)
  show "line_of t s' = line_of t s @ [c]"
    using assms(1,2) i unfolding line_of_def at
    by (simp add: i_def line_ok_def take_Suc_conv_app_nth)
qed

lemma line_drop_last:
  assumes "line_ok t s" "line_buf_index (terminal_at t s) \<noteq> 0"
  defines "i \<equiv> line_buf_index (terminal_at t s) - 1"
  defines "s' \<equiv> update_terminal t (\<lambda>x. x\<lparr>line_buf := (line_buf x)[unat i := 0], line_buf_index := i\<rparr>) s"
  shows "line_ok t s'" "line_of t s' = butlast (line_of t s)" "unat i < LINE_BUFFER_SIZE"
proof -
  let ?k = "unat (line_buf_index (terminal_at t s))"
  have i: "unat i = ?k - 1" unfolding i_def by (rule unat_minus_one32 [OF assms(2)])
  have k: "0 < ?k" "?k \<le> 128" using assms(1,2) by (simp_all add: unat_gt_0 line_ok_def)
  have at: "terminal_at t s' = (terminal_at t s)\<lparr>line_buf := (line_buf (terminal_at t s))[unat i := 0],
      line_buf_index := i\<rparr>"
    using assms(1) by (simp add: s'_def terminal_at_update line_ok_def)
  show "unat i < LINE_BUFFER_SIZE" using i k by linarith
  show "line_ok t s'" using assms(1) i k unfolding line_ok_def at
    by (auto simp: s'_def nth_list_update)
  show "line_of t s' = butlast (line_of t s)"
    using assms(1) i k unfolding line_of_def at by (simp add: butlast_take line_ok_def)
qed

lemma note_press_frame [simp, frame_simps]:
  "terminals (note_press k s) = terminals s" "current_terminal (note_press k s) = current_terminal s"
  "screen_x (note_press k s) = screen_x s" "screen_y (note_press k s) = screen_y s"
  "memory (note_press k s) = memory s" "prints_only s (note_press k t) = prints_only s t"
  "multi_byte (note_press k s) = multi_byte s"
  by (simp_all add: note_press_def set_key_def prints_only_def same_tables_def)

lemma putc_ok_screen: "putc_ok pa s \<Longrightarrow> screen_x s < 80 \<and> screen_y s < 25"
  by (simp add: putc_ok_def screen_ok_def)

lemma putc_ok_note_press: "putc_ok pa s \<Longrightarrow> putc_ok pa (note_press k s)"
  by (rule putc_ok_frame [where s = s]) (auto dest: putc_ok_screen)

lemma putc_ok_line:
  assumes "putc_ok pa s" "line_ok t s"
  shows "putc_ok pa (update_terminal t (\<lambda>x. x\<lparr>line_buf := l, line_buf_index := i\<rparr>) s)"
proof -
  let ?s = "update_terminal t (\<lambda>x. x\<lparr>line_buf := l, line_buf_index := i\<rparr>) s"
  have len: "length (terminals s) = 3" and t: "t < 3" using assms(2) by (simp_all add: line_ok_def)
  have "get_running_terminal ?s = get_running_terminal s"
    by (rule get_running_terminal_update [OF _ len]) simp
  moreover have "hidden_terminal term ?s = hidden_terminal term s" for "term"
    using len t by (simp add: hidden_terminal_def terminal_at_update split: option.splits)
  ultimately show ?thesis using assms(1) by (simp add: putc_ok_def screen_ok_def mapped_at_def)
qed

text \<open>The terminal on display is waiting for input, and the key is no command of the keyboard.\<close>

definition editing :: "u32 \<Rightarrow> 'a keyboard_scheme \<Rightarrow> bool" where
  "editing scancode s \<longleftrightarrow> read_flag (terminal_at (unat (current_terminal s)) s) \<noteq> 0 \<and>
     \<not> (alt_pressed (note_press scancode s) \<and> is_func_key (note_press scancode s)) \<and>
     \<not> (key_at SCS1_PRESSED_LEFTCTRL (note_press scancode s) \<noteq> 0 \<and> scancode = SCS1_PRESSED_L)"

text \<open>What a key does to a line; a newline fits where nothing else does.\<close>

definition edit_line :: "bool \<Rightarrow> u8 \<Rightarrow> u8 list \<Rightarrow> u8 list option" where
  "edit_line erase c l =
     (if erase then Some (butlast l)
      else if c = 0 \<or> (c \<noteq> 0x0A \<and> 127 \<le> length l) then Some l
      else if length l < 128 then Some (l @ [c]) else None)"

lemma caps_lock_no_character: "handle_disp (keycodes ! 0x3A) s = 0"
  by (simp add: handle_disp_def keycodes_def is_lower_def shifted_def)

lemma press_key_caps:
  assumes "length (key_state s) = 89" "key_at SCS1_PRESSED_BACKSPACE s = 0"
  shows "press_key SCS1_PRESSED_CAPSLOCK s = Some (note_press SCS1_PRESSED_CAPSLOCK s)"
proof -
  have "key_at SCS1_PRESSED_BACKSPACE (note_press SCS1_PRESSED_CAPSLOCK s) = 0"
    using assms by (simp add: note_press_def set_key_def key_at_def)
  then show ?thesis by (simp add: press_key_def caps_lock_no_character Let_def)
qed

lemma pop_char_line:
  assumes "putc_ok pa s" "line_ok t s" "line_buf_index (terminal_at t s) \<noteq> 0"
  shows "\<exists>s'. pop_char t s = Some s' \<and> putc_ok pa s' \<and> line_ok t s' \<and> line_of t s' = butlast (line_of t s)"
proof -
  let ?i = "line_buf_index (terminal_at t s) - 1"
  let ?s = "update_terminal t (\<lambda>x. x\<lparr>line_buf := (line_buf x)[unat ?i := 0], line_buf_index := ?i\<rparr>) s"
  have upd: "?s = update_terminal t (\<lambda>x. x\<lparr>line_buf := (line_buf (terminal_at t s))[unat ?i := 0],
      line_buf_index := ?i\<rparr>) s" by (simp add: update_terminal_def terminal_at_def)
  have "putc_ok pa ?s" unfolding upd by (rule putc_ok_line [OF assms(1,2)])
  from putc_prints [OF this, of "0x08"] obtain s' where s': "putc 0x08 ?s = Some s'" "prints_only ?s s'" "putc_ok pa s'"
    by blast
  then have same: "terminals s' = terminals ?s" by (simp add: prints_only_def)
  from line_drop_last [OF assms(2,3)] s' line_ok_terminals [OF same] line_of_terminals [OF same]
  show ?thesis by (simp add: pop_char_def Let_def)
qed

lemma push_char_line:
  assumes "putc_ok pa s" "line_ok t s"
  shows "if length (line_of t s) < 128
    then \<exists>s'. push_char c t s = Some s' \<and> putc_ok pa s' \<and> line_ok t s' \<and> line_of t s' = line_of t s @ [c]
    else push_char c t s = None"
proof -
  from putc_prints [OF assms(1), of c] obtain s1 where s1: "putc c s = Some s1" "prints_only s s1" "putc_ok pa s1"
    by blast
  then have same: "terminals s1 = terminals s" by (simp add: prints_only_def)
  have ok: "line_ok t s1" using assms(2) line_ok_terminals [OF same] by simp
  have line: "line_of t s1 = line_of t s" by (rule line_of_terminals [OF same])
  let ?i = "line_buf_index (terminal_at t s1)"
  have len: "length (line_of t s) = unat ?i" using length_line_of [OF ok] line by simp
  show ?thesis
  proof (cases "unat ?i < 128")
    case True
    let ?s' = "update_terminal t (\<lambda>x. x\<lparr>line_buf := (line_buf x)[unat ?i := c], line_buf_index := ?i + 1\<rparr>) s1"
    have upd: "?s' = update_terminal t (\<lambda>x. x\<lparr>line_buf := (line_buf (terminal_at t s1))[unat ?i := c],
        line_buf_index := ?i + 1\<rparr>) s1" by (simp add: update_terminal_def terminal_at_def)
    have "putc_ok pa ?s'" unfolding upd by (rule putc_ok_line [OF s1(3) ok])
    with True len line_append [OF ok True, of c] line s1(1) show ?thesis
      by (simp add: push_char_def Let_def)
  qed (use len s1(1) in \<open>simp add: push_char_def Let_def\<close>)
qed

lemma press_key_edits:
  assumes ok: "putc_ok pa s" "line_ok (unat (current_terminal s)) s" and ed: "editing scancode s"
  defines "t \<equiv> unat (current_terminal s)"
  defines "erase \<equiv> key_at SCS1_PRESSED_BACKSPACE (note_press scancode s) = 1"
  defines "disp \<equiv> handle_disp (keycodes ! unat scancode) s"
  shows "case edit_line erase disp (line_of t s) of
      None \<Rightarrow> press_key scancode s = None
    | Some l \<Rightarrow> \<exists>s'. press_key scancode s = Some s' \<and> putc_ok pa s' \<and> line_ok t s' \<and> line_of t s' = l"
proof -
  let ?s = "note_press scancode s" and ?i = "line_buf_index (terminal_at t s)"
  have ok1: "putc_ok pa ?s" "line_ok t ?s" using ok putc_ok_note_press
    by (auto simp: t_def line_ok_terminals [of ?s s])
  have line: "line_of t ?s = line_of t s" by (rule line_of_terminals) simp
  have at: "terminal_at t ?s = terminal_at t s" by (simp add: terminal_at_def)
  have len: "length (line_of t s) = unat ?i" using length_line_of [OF ok1(2)] line at by simp
  have press: "press_key scancode s =
      (if erase then if ?i > 0 then pop_char t ?s else Some ?s
       else if disp \<noteq> 0 then if ?i < 127 \<or> disp = 0x0A then push_char disp t ?s else Some ?s
       else Some ?s)"
  proof -
    have "read_flag (terminal_at t ?s) \<noteq> 0" "\<not> (alt_pressed ?s \<and> is_func_key ?s)"
      "\<not> (key_at SCS1_PRESSED_LEFTCTRL ?s \<noteq> 0 \<and> scancode = SCS1_PRESSED_L)"
      using ed at by (simp_all only: editing_def t_def) simp_all
    then show ?thesis unfolding press_key_def Let_def erase_def disp_def
      by (simp only: if_False at flip: t_def) simp
  qed
  have lt: "?i < 127 \<longleftrightarrow> length (line_of t s) < 127" by (simp add: len word_less_nat_alt)
  show ?thesis
  proof (cases erase)
    case True
    show ?thesis
    proof (cases "?i = 0")
      case True
      then have "line_of t s = []" using len by simp
      with \<open>erase\<close> True press ok1 line show ?thesis by (simp add: edit_line_def)
    next
      case False
      then have "?i > 0" by (simp add: word_gt_0)
      with \<open>erase\<close> press pop_char_line [OF ok1] False at line show ?thesis by (simp add: edit_line_def)
    qed
  next
    case False
    then show ?thesis using press push_char_line [OF ok1, of disp] ok1 line lt
      by (auto simp: edit_line_def not_less split: if_splits)
  qed
qed

subsection \<open>A line read by a program\<close>

lemma contains_newline_at:
  assumes "i < 128" "l ! i = 0x0A" "\<forall>j<i. l ! j \<noteq> 0x0A"
  shows "contains_newline l = int i"
proof -
  have "List.find (\<lambda>i. l ! i = 0x0A) [0..<128] = Some i"
    unfolding find_Some_iff using assms by (intro exI [of _ i]) (simp del: upt_rec_numeral)
  then show ?thesis by (simp add: contains_newline_def del: upt_rec_numeral)
qed

lemma wait_newline_ready:
  "contains_newline (line_buf (terminal_at t s)) = int i \<Longrightarrow> wait_newline t codes s = Some (s, i)"
  by (subst wait_newline.simps) simp

lemma put_line:
  assumes "mapped_at s buf (n + 1) pa" "length bs \<le> n" "n < 4294967295"
  shows "Option.bind (put_bytes buf bs s) (put_byte (buf + of_nat n) c) =
    Some (s\<lparr>memory := (write_bytes (memory s) pa bs)(pa + of_nat n := c)\<rparr>)"
proof -
  have "mapped_at s buf (length bs) pa" using assms by (auto simp: mapped_at_def)
  then have "put_bytes buf bs s = Some (s\<lparr>memory := write_bytes (memory s) pa bs\<rparr>)"
    by (rule put_bytes_mapped) (use assms in simp)
  moreover have "translate s (buf + of_nat n) = Some (pa + of_nat n)"
    using mapped_at_nth [OF assms(1), of n] by simp
  ultimately show ?thesis by (simp add: put_byte_def)
qed

lemma get_running_terminal_memory [simp]:
  "get_running_terminal (s\<lparr>memory := m\<rparr>) = get_running_terminal s"
  by (rule get_running_terminal_cong) simp_all

lemma get_line_buf_ready:
  assumes run: "get_running_terminal s = Some (Some t)" and ok: "line_ok t s"
    and nl: "i < 128" "line_buf (terminal_at t s) ! i = 0x0A" "\<forall>j<i. line_buf (terminal_at t s) ! j \<noteq> 0x0A"
    and buf: "0 < n" "n < 4294967295" "buf \<noteq> 0" "mapped_at s buf (min n 128 + 1) pa"
  defines "k \<equiv> min (i + 1) n"
  defines "m \<equiv> (write_bytes (memory s) pa (take k (line_buf (terminal_at t s))))(pa + of_nat (min n 128) := 0x0A)"
  shows "get_line_buf codes buf (int n) s = Some (update_terminal t
    (\<lambda>x. x\<lparr>line_buf := replicate 128 0, line_buf_index := 0, read_flag := 0\<rparr>) (s\<lparr>memory := m\<rparr>), int k)"
proof -
  let ?l = "line_buf (terminal_at t s)" and ?s = "update_terminal t (\<lambda>x. x\<lparr>read_flag := 1\<rparr>) s"
  have t: "t < 3" "length (terminals s) = 3" using ok by (simp_all add: line_ok_def)
  have l: "line_buf (terminal_at t ?s) = ?l" using t by (simp add: terminal_at_update)
  have wait: "wait_newline t codes ?s = Some (?s, i)"
    by (rule wait_newline_ready) (use contains_newline_at [OF nl] l in simp)
  have map: "mapped_at ?s buf (min n 128 + 1) pa" using buf(4) by (simp add: mapped_at_def)
  have len: "length (take k ?l) \<le> min n 128" "min n 128 < 4294967295" using nl(1) buf(2)
    by (auto simp: k_def)
  have put: "Option.bind (put_bytes buf (take k ?l) ?s) (put_byte (buf + of_nat (min n 128)) 0x0A) =
      Some (?s\<lparr>memory := m\<rparr>)" using put_line [OF map len] by (simp add: m_def)
  have k: "nat (min (int i + 1) (int n)) = k" "min (int i + 1) (int n) = int k" by (simp_all add: k_def)
  have n: "of_int (min (int n) 128) = (of_nat (min n 128) :: u32)" by (simp add: min_def)
  have run': "get_running_terminal (?s\<lparr>memory := m\<rparr>) = Some (Some t)"
    using get_running_terminal_update [of "\<lambda>x. x\<lparr>read_flag := 1\<rparr>" s t] t run by simp
  let ?blank = "\<lambda>x. x\<lparr>line_buf := replicate 128 0, line_buf_index := 0\<rparr>"
  have clear: "clear_line_buf (?s\<lparr>memory := m\<rparr>) = Some (update_terminal t ?blank (?s\<lparr>memory := m\<rparr>))"
    by (simp only: clear_line_buf_def run' option.map option.case)
  have upd: "update_terminal t (\<lambda>x. x\<lparr>read_flag := 0\<rparr>) (update_terminal t ?blank (?s\<lparr>memory := m\<rparr>)) =
      update_terminal t (\<lambda>x. x\<lparr>line_buf := replicate 128 0, line_buf_index := 0, read_flag := 0\<rparr>) (s\<lparr>memory := m\<rparr>)"
    using t by (simp add: update_terminal_def)
  have "get_line_buf codes buf (int n) s = Option.bind
      (Option.bind (put_bytes buf (take k ?l) ?s) (put_byte (buf + of_nat (min n 128)) 0x0A))
      (\<lambda>s. map_option (\<lambda>s. (update_terminal t (\<lambda>x. x\<lparr>read_flag := 0\<rparr>) s, int k)) (clear_line_buf s))"
    using buf(1,3) by (simp add: get_line_buf_def run wait Let_def k n l)
  then show ?thesis by (simp only: put Option.bind.simps clear option.map upd)
qed

subsection \<open>A keyboard in use\<close>

definition demo_line :: "u8 list \<Rightarrow> terminal" where
  "demo_line l = (demo_terminal 0 0 0xB9000)\<lparr>line_buf := l @ replicate (128 - length l) 0,
     line_buf_index := of_nat (length l), read_flag := 1\<rparr>"

definition demo_keyboard :: "u8 list \<Rightarrow> keyboard" where
  "demo_keyboard l = terms.extend (demo_terms\<lparr>terminals := (terminals demo_terms)[0 := demo_line l]\<rparr>)
     \<lparr>key_state = replicate 89 0, caps_lock_repeat = 0, multi_byte = 0, terminal_to_switch_to = - 1\<rparr>"

lemma demo_keyboard_fields [simp]:
  "running_pid (demo_keyboard l) = 2" "current_terminal (demo_keyboard l) = 0"
  "screen_x (demo_keyboard l) = 0" "screen_y (demo_keyboard l) = 0" "memory (demo_keyboard l) = demo_image"
  "pcbs (demo_keyboard l) = pcbs demo_terms"
  "terminals (demo_keyboard l) = [demo_line l, demo_terminal 5 1 0xBA000, demo_terminal 6 2 0xBB000]"
  "key_state (demo_keyboard l) = replicate 89 0" "multi_byte (demo_keyboard l) = 0"
  "caps_lock_repeat (demo_keyboard l) = 0"
  by (simp_all add: demo_keyboard_def terms.extend_def del: demo_terms_fields(6))

lemma demo_keyboard_translate: "translate (demo_keyboard l) = translate demo_terms"
  by (rule translate_cong) (simp add: same_tables_def demo_keyboard_def terms.extend_def)

lemma demo_keyboard_runs_on: "runs_on (demo_keyboard l) 2 0"
  by (rule runs_on.child [where q = 0])
    (auto simp: get_terminal_from_pid_def find_0_2 terminal_at_def demo_terminal_def demo_line_def
      blank_pcb_def intro!: runs_on.root)

lemma demo_keyboard_runs: "get_running_terminal (demo_keyboard l) = Some (Some 0)"
  using get_running_terminal_runs_on [of "demo_keyboard l" 0] demo_keyboard_runs_on by simp

lemma demo_keyboard_line: "length l \<le> 128 \<Longrightarrow> line_ok 0 (demo_keyboard l) \<and> line_of 0 (demo_keyboard l) = l"
  by (simp add: line_ok_def line_of_def terminal_at_def demo_line_def demo_terminal_def unat_of_nat nth_append)

lemma demo_keyboard_putc: "putc_ok VIDEO (demo_keyboard l)"
  using demo_screen
  by (simp add: putc_ok_def screen_ok_def demo_keyboard_runs hidden_terminal_def terminal_at_def
    demo_line_def demo_terminal_def mapped_at_def demo_keyboard_translate)

subsection \<open>Properties\<close>

text \<open>
  C14: While the terminal on display waits for input, a key that is no keyboard command edits
  its line: backspace takes the last character away, any other key appends its character as
  long as there are fewer than 127, and a newline fits as the 128th. A newline typed into a
  full line is the one case in which the handler stores outside the buffer.
\<close>

theorem typing_edits_line:
  assumes "putc_ok pa s" "line_ok (unat (current_terminal s)) s" "editing scancode s"
    and "multi_byte s = 0" "0 < scancode" "scancode < SCS1_PRESSED_F12"
  shows "case edit_line (key_at SCS1_PRESSED_BACKSPACE (note_press scancode s) = 1)
        (handle_disp (keycodes ! unat scancode) s) (line_of (unat (current_terminal s)) s) of
      None \<Rightarrow> handle_keypress scancode s = None
    | Some l \<Rightarrow> \<exists>s'. handle_keypress scancode s = Some s' \<and> putc_ok pa s' \<and>
        line_ok (unat (current_terminal s)) s' \<and> line_of (unat (current_terminal s)) s' = l"
proof -
  have "handle_keypress scancode s = press_key scancode s"
    using assms(4-6) by (auto simp: handle_keypress_def)
  then show ?thesis using press_key_edits [OF assms(1-3)] by (simp only:)
qed

lemma demo_editing: "editing 0x26 (demo_keyboard l)" "editing 0x1C (demo_keyboard l)"
  by (simp_all add: editing_def alt_pressed_def is_func_key_def key_at_def note_press_def set_key_def
    terminal_at_def demo_line_def)

lemma demo_disp: "handle_disp (keycodes ! 0x26) (demo_keyboard l) = 0x6C"
  "handle_disp (keycodes ! 0x1C) (demo_keyboard l) = 0x0A"
  by (simp_all add: handle_disp_def shift_pressed_def capslock_pressed_def key_at_def keycodes_def)

lemma demo_no_erase: "key_at SCS1_PRESSED_BACKSPACE (note_press 0x26 (demo_keyboard l)) = 0"
  "key_at SCS1_PRESSED_BACKSPACE (note_press 0x1C (demo_keyboard l)) = 0"
  by (simp_all add: key_at_def note_press_def set_key_def)

lemma typing_edits_line_witness:
  "(\<exists>s'. handle_keypress 0x26 (demo_keyboard [0x68]) = Some s' \<and> line_of 0 s' = [0x68, 0x6C]) \<and>
   handle_keypress 0x1C (demo_keyboard (replicate 127 0x61 @ [0x0A])) = None"
proof
  let ?s = "demo_keyboard [0x68]"
  have "line_ok (unat (current_terminal ?s)) ?s" "line_of (unat (current_terminal ?s)) ?s = [0x68]"
    using demo_keyboard_line [of "[0x68]"] by simp_all
  with typing_edits_line [OF demo_keyboard_putc this(1) demo_editing(1)]
  show "\<exists>s'. handle_keypress 0x26 ?s = Some s' \<and> line_of 0 s' = [0x68, 0x6C]"
    by (auto simp: demo_disp demo_no_erase edit_line_def)
next
  let ?l = "replicate 127 0x61 @ [0x0A] :: u8 list"
  let ?s = "demo_keyboard ?l"
  have "line_ok (unat (current_terminal ?s)) ?s" "line_of (unat (current_terminal ?s)) ?s = ?l"
    using demo_keyboard_line [of ?l] by simp_all
  with typing_edits_line [OF demo_keyboard_putc this(1) demo_editing(2)]
  show "handle_keypress 0x1C ?s = None"
    by (simp add: demo_disp demo_no_erase edit_line_def)
qed

text \<open>
  C26: Reading a completed line hands the program its bytes up to and including the newline,
  at most as many as it asked for, returns their number and empties the line; it also stores a
  newline one byte past the requested bytes, or at offset 128 for longer requests.
\<close>

theorem line_read:
  assumes "get_running_terminal s = Some (Some t)" "line_ok t s"
    and "i < 128" "line_buf (terminal_at t s) ! i = 0x0A" "\<forall>j<i. line_buf (terminal_at t s) ! j \<noteq> 0x0A"
    and "0 < n" "n < 4294967295" "buf \<noteq> 0" "mapped_at s buf (min n 128 + 1) pa"
  shows "\<exists>s'. get_line_buf codes buf (int n) s = Some (s', int (min (i + 1) n)) \<and>
    memory s' = (write_bytes (memory s) pa (take (min (i + 1) n) (line_buf (terminal_at t s))))
      (pa + of_nat (min n 128) := 0x0A) \<and>
    line_ok t s' \<and> line_of t s' = [] \<and> read_flag (terminal_at t s') = 0"
  using get_line_buf_ready [OF assms] assms(2)
  by (simp add: line_ok_def line_of_def terminal_at_update)

lemma line_read_witness:
  "\<exists>s'. get_line_buf [] 0x5000 16 (demo_keyboard [0x6C, 0x73, 0x0A]) = Some (s', 3) \<and>
    memory s' 0x5000 = 0x6C \<and> memory s' 0x5010 = 0x0A \<and> line_of 0 s' = []"
proof -
  let ?s = "demo_keyboard [0x6C, 0x73, 0x0A]"
  have l: "line_buf (terminal_at 0 ?s) = [0x6C, 0x73, 0x0A] @ replicate 125 0"
    by (simp add: terminal_at_def demo_line_def)
  have "line_buf (terminal_at 0 ?s) ! j \<noteq> 0x0A" if "j < 2" for j
    unfolding l using that by (cases "j = 0") (simp_all add: less_2_cases_iff nth_append)
  moreover have "mapped_at ?s 0x5000 17 0x5000"
  proof -
    have "unat (0x5000 + of_nat j :: u32) = 0x5000 + j" if "j < 17" for j
    proof -
      have "unat (of_nat (0x5000 + j) :: u32) = 0x5000 + j" by (rule unat_of_nat32) (use that in simp)
      then show ?thesis by simp
    qed
    then show ?thesis by (simp add: mapped_at_def demo_keyboard_translate demo_terms_translate)
  qed
  ultimately show ?thesis
    using line_read [of ?s 0 2 16 "0x5000" "0x5000" "[]"] demo_keyboard_runs demo_keyboard_line [of "[0x6C, 0x73, 0x0A]"]
    by (auto simp: l write_bytes_def nth_append)
qed

text \<open>
  Holding caps lock down always leaves it on: the second make code that the keyboard
  repeats, before any release, stores 1 where the first one toggled.
\<close>

theorem caps_lock_auto_repeat:
  assumes "length (key_state s) = 89" "multi_byte s = 0" "caps_lock_repeat s = 0"
    and "key_at SCS1_PRESSED_BACKSPACE s = 0"
  shows "\<exists>s1 s2. handle_keypress SCS1_PRESSED_CAPSLOCK s = Some s1 \<and>
    handle_keypress SCS1_PRESSED_CAPSLOCK s1 = Some s2 \<and>
    key_at SCS1_PRESSED_CAPSLOCK s1 = key_at SCS1_PRESSED_CAPSLOCK s XOR 1 \<and>
    key_at SCS1_PRESSED_CAPSLOCK s2 = 1"
proof -
  let ?k = "SCS1_PRESSED_CAPSLOCK"
  have press: "handle_keypress ?k t = Some (note_press ?k t)"
    if "length (key_state t) = 89" "multi_byte t = 0" "key_at SCS1_PRESSED_BACKSPACE t = 0" for t :: "'a keyboard_scheme"
    using that by (simp add: handle_keypress_def press_key_caps)
  have "key_at SCS1_PRESSED_BACKSPACE (note_press ?k s) = 0" "length (key_state (note_press ?k s)) = 89"
    using assms by (simp_all add: note_press_def set_key_def key_at_def)
  then have "handle_keypress ?k (note_press ?k s) = Some (note_press ?k (note_press ?k s))"
    using press assms(2) by simp
  moreover have "handle_keypress ?k s = Some (note_press ?k s)" using press assms by simp
  moreover have "key_at ?k (note_press ?k s) = key_at ?k s XOR 1"
    "key_at ?k (note_press ?k (note_press ?k s)) = 1"
    using assms by (simp_all add: note_press_def set_key_def key_at_def)
  ultimately show ?thesis by blast
qed

lemma caps_lock_auto_repeat_witness:
  "\<exists>s1 s2. handle_keypress SCS1_PRESSED_CAPSLOCK (demo_keyboard []) = Some s1 \<and>
    handle_keypress SCS1_PRESSED_CAPSLOCK s1 = Some s2 \<and> key_at SCS1_PRESSED_CAPSLOCK s1 = 1 \<and>
    key_at SCS1_PRESSED_CAPSLOCK s2 = 1"
  using caps_lock_auto_repeat [of "demo_keyboard []"] by (simp add: key_at_def)

end
