(* ===== verification/Terminal_Io.thy ===== *)
theory Terminal_Io
  imports Keyboard
begin

text \<open>
  The operations of \<^verbatim>\<open>student-distrib/terminal_driver.c\<close> on top of the keyboard and the
  screen: reading and writing a terminal, setting the three terminals up, and switching the
  terminal on display. \<^verbatim>\<open>init_terminals\<close> ends by executing the shell; that call is in
  the theory of the system calls.
\<close>

abbreviation SCREEN_BYTES :: nat where "SCREEN_BYTES \<equiv> 4000"

text \<open>The library's memcpy between two objects that do not overlap, through the page walk.\<close>

definition copy_object :: "u32 \<Rightarrow> u32 \<Rightarrow> nat \<Rightarrow> 'a paging_scheme \<Rightarrow> 'a paging_scheme option" where
  "copy_object dst src n s =
     (if accessible s src n then put_bytes dst (bytes_at (vmem s) src n) s else None)"

definition terminal_read :: "u32 list \<Rightarrow> u32 \<Rightarrow> int \<Rightarrow> 'a keyboard_scheme \<Rightarrow> ('a keyboard_scheme \<times> int) option" where
  "terminal_read codes buf nbytes s = get_line_buf codes buf nbytes s"

text \<open>The loop of \<^verbatim>\<open>terminal_write\<close>: \<open>n\<close> characters from \<open>buf\<close> on.\<close>

primrec write_loop :: "u8 \<Rightarrow> u32 \<Rightarrow> nat \<Rightarrow> 'a terms_scheme \<Rightarrow> 'a terms_scheme option" where
  "write_loop t buf 0 s = Some s"
| "write_loop t buf (Suc n) s =
     Option.bind (translate s buf) (\<lambda>pa.
       Option.bind (terminal_putc t (memory s pa) s) (write_loop t (buf + 1) n))"

definition terminal_write :: "u32 \<Rightarrow> int \<Rightarrow> 'a terms_scheme \<Rightarrow> ('a terms_scheme \<times> int) option" where
  "terminal_write buf nbytes s =
     Option.bind (get_running_terminal (cli s)) (\<lambda>term.
       case term of
         None \<Rightarrow> Some (sti (cli s), - 1)
       | Some t \<Rightarrow>
           if nbytes \<le> 0 \<or> buf = 0 then Some (sti (cli s), - 1)
           else map_option (\<lambda>s. (sti s, nbytes))
             (write_loop (term_id (terminal_at t s)) buf (nat nbytes) (cli s)))"

definition terminal_open :: "'a terms_scheme \<Rightarrow> 'a terms_scheme \<times> int" where
  "terminal_open s = (s, 0)"

definition terminal_close :: "int \<Rightarrow> int" where
  "terminal_close fd = 0"

subsection \<open>Setting up and switching\<close>

definition init_terminal :: "nat \<Rightarrow> 'a terms_scheme \<Rightarrow> 'a terms_scheme option" where
  "init_terminal i s =
     (let buf = VIDEO + KB4 * (of_nat i + 1);
          s = update_terminal i (\<lambda>t. t\<lparr>term_x := 0, term_y := 0, read_flag := 0, line_buf_index := 0,
                status := TASK_NOT_RUNNING, running := 0,
                rtc := \<lparr>virt_freq = RTC_DEFAULT_VIRT_FREQ, real_freq = RTC_DEFAULT_REAL_FREQ,
                  int_count = 0, rtc_flag = 0\<rparr>,
                vid_mem_buf := buf, term_id := of_nat i, vidmapped := 0,
                line_buf := replicate LINE_BUFFER_SIZE 0\<rparr>) s
      in if i = 0
         then Some (update_terminal i (\<lambda>t. t\<lparr>term_x := get_screen_x s, term_y := get_screen_y s\<rparr>) s)
         else blank_cells buf 2000 s)"

text \<open>\<^verbatim>\<open>init_terminals\<close> up to the call of \<^verbatim>\<open>execute\<close>.\<close>

definition init_terminal_state :: "'a terms_scheme \<Rightarrow> 'a terms_scheme option" where
  "init_terminal_state s =
     map_option (\<lambda>s. (update_terminal 0 (\<lambda>t. t\<lparr>running := 1, status := TASK_RUNNING\<rparr>) s)\<lparr>current_terminal := 0\<rparr>)
       (Option.bind (init_terminal 0 s) (\<lambda>s. Option.bind (init_terminal 1 s) (init_terminal 2)))"

definition restore_terminal :: "u8 \<Rightarrow> 'a terms_scheme \<Rightarrow> 'a terms_scheme option" where
  "restore_terminal term_num s =
     (if term_num \<ge> TERMINAL_NUM then Some s
      else
        let prev = unat (current_terminal s);
            s = update_terminal prev (\<lambda>t. t\<lparr>term_x := get_screen_x s, term_y := get_screen_y s\<rparr>) s;
            term = terminal_at (unat term_num) s;
            s = set_screen_xy (term_x term) (term_y term) s;
            s = remap_video VIDEO s
        in Option.bind (copy_object (vid_mem_buf (terminal_at prev s)) VIDEO SCREEN_BYTES s) (\<lambda>s.
           map_option (\<lambda>s. remap_video (vid_mem_buf (terminal_at prev s)) s)
             (copy_object VIDEO (vid_mem_buf term) SCREEN_BYTES s)))"

definition switch_terminal :: "u8 \<Rightarrow> 'a terms_scheme \<Rightarrow> 'a terms_scheme option" where
  "switch_terminal term_num s =
     (if current_terminal s = term_num \<or> term_num \<ge> TERMINAL_NUM then Some s
      else map_option
        (\<lambda>s. sti (update_terminal (unat term_num) (\<lambda>t. t\<lparr>status := TASK_RUNNING\<rparr>)
               (s\<lparr>current_terminal := term_num\<rparr>)))
        (restore_terminal term_num (cli s)))"

subsection \<open>Printing a buffer\<close>

text \<open>Printing touches memory inside the 4000 bytes of the screen only.\<close>

definition within :: "u32 \<Rightarrow> 'a terms_scheme \<Rightarrow> 'a terms_scheme \<Rightarrow> bool" where
  "within pa s s' \<longleftrightarrow> (\<forall>a. 4000 \<le> unat (a - pa) \<longrightarrow> memory s' a = memory s a)"

lemma within_refl [simp]: "within pa s s"
  by (simp add: within_def)

lemma within_trans: "within pa s s1 \<Longrightarrow> within pa s1 s2 \<Longrightarrow> within pa s s2"
  by (simp add: within_def)

lemma within_cursor [simp]:
  "within pa s (set_screen_xy x y t) = within pa s t" "within pa (set_screen_xy x y s) t = within pa s t"
  by (simp_all add: within_def set_screen_xy_simps)

lemma put_cell_within:
  assumes "mapped_at s va 4000 pa" "i < 2000" "put_cell (va + of_nat (2 * i)) c s = Some s'"
  shows "within pa s s' \<and> (\<exists>m. s' = s\<lparr>memory := m\<rparr>)"
proof -
  have "mapped_at s va (2 * i + 2) pa" using assms by (simp add: mapped_at_mono [of s va 4000])
  from put_cell_mapped [OF this, of c] assms(3) have s': "s' = s\<lparr>memory := (memory s)
      (pa + of_nat (2 * i) := c, pa + of_nat (2 * i + 1) := ATTRIB)\<rparr>" by simp
  have off: "unat (pa + of_nat k - pa) = k" if "k < 4000" for k using that by (intro add_of_nat_diff) simp
  have "a \<noteq> pa + of_nat (2 * i) \<and> a \<noteq> pa + of_nat (2 * i + 1)" if "4000 \<le> unat (a - pa)" for a
    using that assms(2) off [of "2 * i"] off [of "2 * i + 1"] by (auto simp del: of_nat_mult of_nat_add of_nat_Suc)
  then show ?thesis unfolding s' within_def by (auto simp del: of_nat_mult of_nat_add of_nat_Suc)
qed

lemma blank_cells_within:
  assumes "mapped_at s va 4000 pa" "k + n \<le> 2000" "blank_cells (va + of_nat (2 * k)) n s = Some s'"
  shows "within pa s s'"
  using assms
proof (induction n arbitrary: k s)
  case (Suc n)
  then obtain s1 where s1: "put_cell (va + of_nat (2 * k)) 0x20 s = Some s1"
    "blank_cells (va + of_nat (2 * k) + 2) n s1 = Some s'" by (auto simp: bind_eq_Some_conv)
  have cell: "within pa s s1" "\<exists>m. s1 = s\<lparr>memory := m\<rparr>"
    using put_cell_within [OF Suc.prems(1) _ s1(1)] Suc.prems(2) by auto
  have "va + of_nat (2 * k) + 2 = va + of_nat (2 * Suc k)" by (simp add: algebra_simps)
  with s1(2) have rest: "blank_cells (va + of_nat (2 * Suc k)) n s1 = Some s'" by (simp only:)
  have "within pa s1 s'"
    by (rule Suc.IH [OF _ _ rest]) (use Suc.prems(1,2) cell(2) in auto)
  with cell(1) show ?case by (rule within_trans)
qed simp

lemma scroll_up_within:
  assumes "mapped_at s VIDEO 4000 pa" "unat pa + 4000 \<le> 4294967296" "scroll_up s = Some s'"
  shows "within pa s s'"
proof -
  let ?m = "memmove (memory s) pa (pa + 160) 3840"
  have tr: "translate s VIDEO = Some pa" using mapped_at_nth [OF assms(1), of 0] by simp
  have "unat (pa + 160) \<le> unat pa + 160"
    by (simp only: unat_word_ariths) (rule order_trans [OF mod_less_eq_dividend], simp)
  then have m: "?m = copy_bytes (memory s) pa (pa + 160) 3840"
    using memmove_is_copy [of pa 3840 "pa + 160" "memory s"] assms(2) by simp
  have moved: "within pa s (s\<lparr>memory := ?m\<rparr>)" by (simp add: within_def m copy_bytes_def)
  have "within pa (s\<lparr>memory := ?m\<rparr>) s'"
    using blank_cells_within [of "s\<lparr>memory := ?m\<rparr>" VIDEO pa 1920 80 s'] assms(1,3) tr
    by (simp add: scroll_up_def)
  with moved show ?thesis by (rule within_trans)
qed

lemma next_row_within:
  assumes "mapped_at s VIDEO 4000 pa" "unat pa + 4000 \<le> 4294967296" "next_row y s = Some (s', y')"
  shows "within pa s s'"
  using assms(3) scroll_up_within [OF assms(1,2)] by (auto simp: next_row_def split: if_splits)

lemma advance_within:
  assumes "mapped_at s VIDEO 4000 pa" "unat pa + 4000 \<le> 4294967296" "advance x y s = Some (s', x', y')"
  shows "within pa s s'"
  using assms(3) scroll_up_within [OF assms(1,2)] by (auto simp: advance_def Let_def split: if_splits)

lemma clear_within:
  assumes "screen_ok pa s" "clear_screen_xy s = Some s'"
  shows "within pa s s'"
  using put_cell_within [of s VIDEO pa "80 * unat (screen_y s) + unat (screen_x s)" "0x20" s']
    cell_index [of "screen_x s" "screen_y s"] assms
  by (simp add: screen_ok_def clear_screen_xy_def cell_offset_nat)

lemma terminal_put_char_within:
  assumes ok: "shown_ok t pa s" and put: "terminal_put_char t c s = Some s'"
  shows "within pa s s'"
proof -
  let ?x = "screen_x s" and ?y = "screen_y s"
  have map: "mapped_at s VIDEO 4000 pa" "unat pa + 4000 \<le> 4294967296" and xy: "?x < 80" "?y < 25"
    using ok by (simp_all add: shown_ok_def screen_ok_def)
  have t: "\<not> TERMINAL_NUM \<le> t" "term_id (terminal_at (unat t) s) = current_terminal s"
    using ok by (simp_all add: shown_ok_def not_le)
  consider "c = 0" | "c = 0x0A" | "c = 0x08" | "c \<noteq> 0" "c \<noteq> 0x0A" "c \<noteq> 0x08" by blast
  then show ?thesis
  proof cases
    case 1
    with put show ?thesis by (simp add: terminal_put_char_def)
  next
    case 2
    then obtain s1 y' where "next_row ?y s = Some (s1, y')" "s' = set_screen_xy 0 y' s1"
      using put t by (auto simp: terminal_put_char_def Let_def)
    then show ?thesis using next_row_within [OF map] by simp
  next
    case 3
    let ?pos = "if ?x = 0 \<and> ?y > 0 then (NUM_COLS - 1, ?y - 1) else (?x - 1, ?y)"
    let ?s1 = "set_screen_xy (fst ?pos) (snd ?pos) s"
    have "terminal_put_char t 0x08 s = clear_screen_xy ?s1"
      using t by (simp add: terminal_put_char_def Let_def split_beta)
    then have clear: "clear_screen_xy ?s1 = Some s'" using put 3 by simp
    have "screen_x ?s1 < 80 \<and> screen_y ?s1 < 25"
      using backspace_position [OF xy] xy
      by (cases "?x = 0") (auto simp: set_screen_xy_simps word_gt_0)
    then have "screen_ok pa ?s1"
      using ok screen_ok_frame [of s ?s1 pa] by (simp add: shown_ok_def set_screen_xy_simps)
    from clear_within [OF this clear] show ?thesis by simp
  next
    case 4
    then obtain s1 s2 x' y' where cell: "put_cell (VIDEO + cell_offset ?x ?y) c s = Some s1"
      and adv: "advance ?x ?y s1 = Some (s2, x', y')" and s': "s' = set_screen_xy x' y' s2"
      using put t by (auto simp: terminal_put_char_def Let_def bind_eq_Some_conv)
    have s1: "within pa s s1" "\<exists>m. s1 = s\<lparr>memory := m\<rparr>"
      using put_cell_within [OF map(1) cell_index [OF xy]] cell by (simp_all add: cell_offset_nat)
    then have "mapped_at s1 VIDEO 4000 pa" using map(1) by auto
    from advance_within [OF this map(2) adv] s1(1) s' show ?thesis by (simp add: within_trans)
  qed
qed

lemma terminal_putc_within:
  "shown_ok t pa s \<Longrightarrow> terminal_putc t c s = Some s' \<Longrightarrow> within pa s s'"
  unfolding terminal_putc_def by (rule terminal_put_char_within)

lemma write_loop_screen:
  assumes "shown_ok t pa s" "mapped_at s buf n base" "n < 4294967296"
    and "\<And>i. i < n \<Longrightarrow> 4000 \<le> unat (base + of_nat i - pa)"
  shows "\<exists>s'. write_loop t buf n s = Some s' \<and> prints_only s s' \<and> within pa s s' \<and> shown_ok t pa s' \<and>
    screen_of pa s' = fold screen_put (bytes_at (memory s) base n) (screen_of pa s)"
  using assms
proof (induction n arbitrary: s buf base)
  case (Suc n)
  have tr: "translate s buf = Some base" using mapped_at_nth [OF Suc.prems(2), of 0] by simp
  obtain s1 where s1: "terminal_putc t (memory s base) s = Some s1" "prints_only s s1" "shown_ok t pa s1"
    "screen_of pa s1 = screen_put (memory s base) (screen_of pa s)"
    using terminal_putc_prints [OF Suc.prems(1)] by blast
  have frame: "within pa s s1" using terminal_putc_within [OF Suc.prems(1) s1(1)] .
  have far: "4000 \<le> unat (base + 1 + of_nat i - pa)" if "i < n" for i
    using Suc.prems(4) [of "Suc i"] that by (simp add: add.assoc)
  have "bytes_at (memory s1) (base + 1) n = bytes_at (memory s) (base + 1) n"
    by (rule bytes_at_cong) (use frame far in \<open>simp add: within_def\<close>)
  moreover have "mapped_at s1 (buf + 1) n (base + 1)"
    using mapped_at_tail [OF Suc.prems(2)] prints_only_translate [OF s1(2)] by (simp add: mapped_at_def)
  ultimately obtain s' where s': "write_loop t (buf + 1) n s1 = Some s'" "prints_only s1 s'" "within pa s1 s'" "shown_ok t pa s'"
    "screen_of pa s' = fold screen_put (bytes_at (memory s) (base + 1) n) (screen_of pa s1)"
    using Suc.IH [of s1 "buf + 1" "base + 1"] Suc.prems(3) far s1 by auto
  have "prints_only s s'" "within pa s s'"
    using prints_only_trans [OF s1(2) s'(2)] within_trans [OF frame s'(3)] .
  then show ?case using s1 s' tr by (auto simp: bytes_at_Suc)
qed simp

lemma shown_ok_cli [simp]: "shown_ok t pa (cli s) = shown_ok t pa s"
  by (simp add: shown_ok_def screen_ok_def mapped_at_def cli_def terminal_at_def translate_cong [of "s\<lparr>int_flag := f\<rparr>" s for f]
    same_tables_def)

subsection \<open>Switching the terminal on display\<close>

text \<open>
  The low four megabytes of the running process, with every page but the video page mapped
  to itself, as \<^const>\<open>make_task_pgdir\<close> and \<^const>\<open>map_vid_mem\<close> leave them.
\<close>

definition low_memory :: "'a process_scheme \<Rightarrow> bool" where
  "low_memory s \<longleftrightarrow> tables_placed s \<and> unat (ucast (pid (get_current_pcb s)) :: u8) < 8 \<and>
     cr3 s = unat (ucast (pid (get_current_pcb s)) :: u8) \<and>
     pgdir s (cr3 s) 0 = proc_table_addr s (cr3 s) OR 7 \<and>
     (\<forall>i<1024. i \<noteq> 0 \<and> i \<noteq> 0xB8 \<longrightarrow> pgtbl_proc s (cr3 s) i = (of_nat i * 4096) OR 7)"

lemma low_page_walk:
  assumes "low_memory s" "4096 \<le> va" "va < 0x400000" "va div 4096 \<noteq> 0xB8"
  shows "translate s va = Some va"
proof -
  let ?t = "pgtbl_proc s (cr3 s)" and ?i = "unat (take_bit 10 (drop_bit 12 va))"
  note low = low_address [OF assms(3)]
  have dir: "pgdir s (cr3 s) 0 = proc_table_addr s (cr3 s) OR 7" and placed: "tables_placed s"
    and row: "cr3 s < 8" using assms(1) unfolding low_memory_def by auto
  have al: "take_bit 12 (proc_table_addr s (cr3 s)) = 0" using placed by (simp add: tables_placed_def)
  have page: "va div 4096 = of_nat ?i"
  proof -
    have "unat (va div 4096) < 1024" using assms(3) by (simp add: unat_div word_less_nat_alt)
    moreover have "drop_bit 12 va = va div 4096" by (simp add: drop_bit_eq_div)
    ultimately have "take_bit 10 (drop_bit 12 va) = va div 4096"
      by (simp add: take_bit_eq_mod word_unat_eq_iff unat_mod)
    then show ?thesis by simp
  qed
  have "va div 4096 \<noteq> 0" using assms(2) by (auto simp: word_unat_eq_iff unat_div word_le_nat_alt)
  have i0: "?i \<noteq> 0"
  proof
    assume "?i = 0"
    then have "va div 4096 = of_nat 0" unfolding page by (simp only:)
    then show False using \<open>va div 4096 \<noteq> 0\<close> by simp
  qed
  have iv: "?i \<noteq> 0xB8"
  proof
    assume "?i = 0xB8"
    then have "va div 4096 = of_nat 0xB8" unfolding page by (simp only:)
    then show False using assms(4) by simp
  qed
  have "?t ?i = (of_nat ?i * 4096) OR 7"
    using assms(1) i0 iv tbl_index_lt unfolding low_memory_def by blast
  then have t: "?t ?i = page_base 12 va OR 7" unfolding low(2) .
  have at: "table_at s (proc_table_addr s (cr3 s)) = Some ?t"
    by (rule table_at_proc [OF placed row])
  have "page_walk_in s (cr3 s) va = (if bit (7 :: u32) 0 then Some (page_base 12 va OR take_bit 12 va, bit (7 :: u32) 2 \<and> bit (7 :: u32) 2) else None)"
    by (rule walk_4K [OF _ al _ _ _ at t]) (use dir low(1) in simp_all)
  then show ?thesis by (simp add: translate_def page_walk_def)
qed

lemma remap_video_fields [simp]:
  "pcbs (remap_video a s) = pcbs s" "running_pid (remap_video a s) = running_pid s"
  "terminals (remap_video a s) = terminals s" "current_terminal (remap_video a s) = current_terminal s"
  "memory (remap_video a s) = memory s" "screen_x (remap_video a s) = screen_x s"
  "screen_y (remap_video a s) = screen_y s"
  by (simp_all add: remap_video_def map_vid_mem_def Let_def cli_def sti_def)

lemma remap_video_low:
  assumes "low_memory s"
  shows "low_memory (remap_video a s)"
    "take_bit 12 a = 0 \<Longrightarrow> mapped_at (remap_video a s) VIDEO 4000 a"
proof -
  let ?p = "ucast (pid (get_current_pcb s)) :: u8" and ?s = "remap_video a s"
  have p: "unat ?p < 8" "cr3 s = unat ?p" using assms by (simp_all add: low_memory_def)
  have s': "?s = fst (map_vid_mem ?p VIDEO a s)" by (simp add: remap_video_def)
  note tabs = map_vid_mem_tables [OF p(1) s']
  have placed: "tables_placed ?s" "proc_table_addr ?s q = proc_table_addr s q" for q
    using assms by (simp_all add: s' low_memory_def)
  have cur: "get_current_pcb ?s = get_current_pcb s" by (simp add: get_current_pcb_def)
  show "low_memory ?s" using assms p placed
    by (simp add: low_memory_def cur tabs)
  show "mapped_at ?s VIDEO 4000 a" if "take_bit 12 a = 0"
    unfolding s' by (rule map_vid_mem_mapped) (use assms p that in \<open>simp_all add: low_memory_def take_bit_eq_mod\<close>)
qed

lemma set_screen_xy_frame [simp]:
  "terminals (set_screen_xy x y s) = terminals s" "current_terminal (set_screen_xy x y s) = current_terminal s"
  by (simp_all add: set_screen_xy_def set_cursor_location_def outb_def Let_def)

lemma low_memory_cong:
  assumes "same_tables s' s" "pcbs s' = pcbs s" "running_pid s' = running_pid s"
  shows "low_memory s' = low_memory s"
  using assms by (simp add: low_memory_def same_tables_def get_current_pcb_def tables_placed_def
      proc_table_addr_def)

lemma copy_object_mapped:
  assumes "mapped_at s src n psrc" "mapped_at s dst n pdst" "n < 4294967296"
  shows "copy_object dst src n s = Some (s\<lparr>memory := write_bytes (memory s) pdst (bytes_at (memory s) psrc n)\<rparr>)"
proof -
  have "bytes_at (vmem s) src n = bytes_at (memory s) psrc n"
    by (rule nth_equalityI) (simp_all add: vmem_mapped [OF mapped_at_nth [OF assms(1)]])
  then show ?thesis
    using put_bytes_mapped [of s dst "bytes_at (memory s) psrc n" pdst] assms accessible_mapped [OF assms(1)]
    by (simp add: copy_object_def)
qed

text \<open>The page of each terminal's buffer, as \<^const>\<open>init_terminal\<close> places it: the ones after the screen's.\<close>

definition bufs_ok :: "'a terms_scheme \<Rightarrow> bool" where
  "bufs_ok s \<longleftrightarrow> length (terminals s) = 3 \<and> unat (current_terminal s) < 3 \<and>
     (\<forall>t<3. vid_mem_buf (terminal_at t s) = of_nat (0xB9000 + 4096 * t))"

lemma page_mapped:
  assumes "low_memory s" "0xB9 \<le> k" "k < 0x400"
  shows "mapped_at s (of_nat (4096 * k)) 4000 (of_nat (4096 * k))"
  unfolding mapped_at_def
proof (intro allI impI)
  fix i :: nat assume i: "i < 4000"
  let ?va = "of_nat (4096 * k) + of_nat i :: u32"
  have "unat (of_nat (4096 * k + i) :: u32) = 4096 * k + i" by (rule unat_of_nat32) (use i assms in simp)
  then have va: "unat ?va = 4096 * k + i" by (simp only: of_nat_add)
  have "4096 \<le> unat ?va" "unat ?va < 0x400000" unfolding va using assms i by simp_all
  moreover have "unat (?va div 4096) = k" unfolding unat_div va using i by simp
  then have "?va div 4096 \<noteq> 0xB8" using assms(2) by auto
  ultimately show "translate s ?va = Some ?va"
    by (intro low_page_walk [OF assms(1)]) (simp_all add: word_le_nat_alt word_less_nat_alt)
qed

lemma pages_apart:
  assumes "k \<noteq> l" "k < 0x400" "l < 0x400" "i < 4000"
  shows "4000 \<le> unat (of_nat (4096 * k) + of_nat i - (of_nat (4096 * l) :: u32))"
proof (cases "l < k")
  case True
  have "of_nat (4096 * k) + of_nat i - (of_nat (4096 * l) :: u32) = of_nat (4096 * k + i - 4096 * l)"
    using True by (simp add: of_nat_diff)
  moreover have "unat (of_nat (4096 * k + i - 4096 * l) :: u32) = 4096 * k + i - 4096 * l"
    by (rule unat_of_nat32) (use assms in simp)
  moreover have "4096 * l + 4096 \<le> 4096 * k" using True by simp
  ultimately show ?thesis by simp
next
  case False
  then have less: "4096 * k + 4096 \<le> 4096 * l" using assms(1) by simp
  let ?d = "4096 * l - 4096 * k - i"
  have "of_nat (4096 * k) + of_nat i - (of_nat (4096 * l) :: u32) = - of_nat ?d"
    using less assms(4) by (simp add: of_nat_diff)
  moreover have "unat (of_nat ?d :: u32) = ?d" by (rule unat_of_nat32) (use assms in simp)
  moreover have "0 < ?d" "?d < 4194304" using less assms by simp_all
  moreover have "(of_nat ?d :: u32) \<noteq> 0" using calculation(2,3) by auto
  ultimately show ?thesis using unat_diff_rev [of "of_nat ?d" 0] by simp
qed

lemma bytes_at_other_page:
  assumes "k \<noteq> l" "k < 0x400" "l < 0x400" "length bs = 4000"
  shows "bytes_at (write_bytes m (of_nat (4096 * l)) bs) (of_nat (4096 * k)) 4000 = bytes_at m (of_nat (4096 * k)) 4000"
  by (rule bytes_at_cong) (use assms pages_apart [OF assms(1-3)] in \<open>simp only: write_bytes_out\<close>)

text \<open>What a terminal shows, or would show if it were on display, and where its cursor is.\<close>

definition page_of :: "nat \<Rightarrow> 'a terms_scheme \<Rightarrow> u32" where
  "page_of t s = of_nat (4096 * (if t = unat (current_terminal s) then 0xB8 else 0xB9 + t))"

definition virtual_screen :: "nat \<Rightarrow> 'a terms_scheme \<Rightarrow> u8 list" where
  "virtual_screen t s = bytes_at (memory s) (page_of t s) 4000"

definition virtual_cursor :: "nat \<Rightarrow> 'a terms_scheme \<Rightarrow> u16 \<times> u16" where
  "virtual_cursor t s = (if t = unat (current_terminal s) then (screen_x s, screen_y s)
     else (term_x (terminal_at t s), term_y (terminal_at t s)))"

text \<open>Displaying terminal \<open>n\<close>: the screen goes to the buffer of the previous one and is refilled.\<close>

lemma restore_terminal_step:
  assumes low: "low_memory s" and bufs: "bufs_ok s" and n: "n < 3" "n \<noteq> current_terminal s"
  defines "p \<equiv> unat (current_terminal s)"
  defines "s1 \<equiv> set_screen_xy (term_x (terminal_at (unat n) s)) (term_y (terminal_at (unat n) s))
    (update_terminal p (\<lambda>t. t\<lparr>term_x := screen_x s, term_y := screen_y s\<rparr>) s)"
  defines "m1 \<equiv> write_bytes (memory s) (of_nat (4096 * (0xB9 + p))) (bytes_at (memory s) VIDEO 4000)"
  defines "m2 \<equiv> write_bytes m1 VIDEO (bytes_at m1 (of_nat (4096 * (0xB9 + unat n))) 4000)"
  shows "restore_terminal n s = Some (remap_video (of_nat (4096 * (0xB9 + p))) ((remap_video VIDEO s1)\<lparr>memory := m2\<rparr>))"
    and "low_memory s1"
proof -
  let ?u = "update_terminal p (\<lambda>t. t\<lparr>term_x := screen_x s, term_y := screen_y s\<rparr>) s"
  let ?b = "of_nat (4096 * (0xB9 + p)) :: u32" and ?c = "of_nat (4096 * (0xB9 + unat n)) :: u32"
  have p: "p < 3" "unat n < 3" "unat n \<noteq> p" "length (terminals s) = 3" "\<not> TERMINAL_NUM \<le> n"
    using bufs n by (auto simp: bufs_ok_def p_def word_less_nat_alt word_unat_eq_iff not_le)
  have buf: "vid_mem_buf (terminal_at t s) = of_nat (4096 * (0xB9 + t))" if "t < 3" for t
    using bufs that by (simp add: bufs_ok_def algebra_simps)
  have at: "terminal_at (unat n) ?u = terminal_at (unat n) s"
    "vid_mem_buf (terminal_at p ?u) = ?b" "vid_mem_buf (terminal_at (unat n) s) = ?c"
    using p buf by (simp_all add: terminal_at_update)
  have terms: "terminals s1 = terminals ?u" by (simp add: s1_def set_screen_xy_def set_cursor_location_def outb_def Let_def)
  have same: "same_tables s1 s" "pcbs s1 = pcbs s" "running_pid s1 = running_pid s"
    by (simp_all add: s1_def set_screen_xy_def set_cursor_location_def outb_def Let_def same_tables_def update_terminal_def)
  show low1: "low_memory s1" using low by (simp only: low_memory_cong [OF same])
  let ?r = "remap_video VIDEO s1"
  note low2 = remap_video_low(1) [OF low1, of VIDEO]
  have video: "mapped_at ?r VIDEO 4000 VIDEO"
    by (rule remap_video_low(2) [OF low1]) (simp add: take_bit_eq_mod)
  have b: "mapped_at ?r ?b 4000 ?b" "mapped_at ?r ?c 4000 ?c"
    using page_mapped [OF low2, of "0xB9 + p"] page_mapped [OF low2, of "0xB9 + unat n"] p by simp_all
  have mem: "memory ?r = memory s" by (simp add: s1_def set_screen_xy_simps)
  have copy1: "copy_object ?b VIDEO 4000 ?r = Some (?r\<lparr>memory := m1\<rparr>)"
    unfolding m1_def mem [symmetric] by (rule copy_object_mapped [OF video b(1)]) simp
  have copy2: "copy_object VIDEO ?c 4000 (?r\<lparr>memory := m1\<rparr>) = Some (?r\<lparr>memory := m2\<rparr>)"
    using copy_object_mapped [of "?r\<lparr>memory := m1\<rparr>" ?c 4000 ?c VIDEO VIDEO] b(2) video by (simp add: m2_def)
  have rest: "restore_terminal n s = Option.bind (copy_object ?b VIDEO SCREEN_BYTES ?r)
      (\<lambda>s. map_option (\<lambda>s. remap_video (vid_mem_buf (terminal_at p s)) s) (copy_object VIDEO ?c SCREEN_BYTES s))"
  proof -
    have "vid_mem_buf (terminal_at p ?r) = ?b" using at(2) terms by (simp add: terminal_at_def)
    then show ?thesis
      unfolding restore_terminal_def Let_def p_def [symmetric] get_screen_x_def get_screen_y_def at(1,3)
        if_not_P [OF p(5)] s1_def [symmetric] by (simp only:)
  qed
  have "vid_mem_buf (terminal_at p (?r\<lparr>memory := m2\<rparr>)) = ?b" 
    using at(2) terms by (simp add: terminal_at_def)
  then show "restore_terminal n s = Some (remap_video ?b (?r\<lparr>memory := m2\<rparr>))"
    unfolding rest copy1 by (simp only: Option.bind.simps copy2 option.map)
qed

lemma switch_terminal_step:
  assumes low: "low_memory s" and bufs: "bufs_ok s" and n: "n < 3"
    and cursors: "\<forall>t<3. fst (virtual_cursor t s) < 80 \<and> snd (virtual_cursor t s) < 25"
  shows "\<exists>s'. switch_terminal n s = Some s' \<and> current_terminal s' = n \<and> low_memory s' \<and> bufs_ok s' \<and>
    (\<forall>t<3. virtual_screen t s' = virtual_screen t s \<and> virtual_cursor t s' = virtual_cursor t s)"
proof (cases "current_terminal s = n")
  case True
  then show ?thesis using low bufs by (simp add: switch_terminal_def)
next
  case False
  define p where "p = unat (current_terminal s)"
  let ?s = "cli s"
  let ?s1 = "set_screen_xy (term_x (terminal_at (unat n) ?s)) (term_y (terminal_at (unat n) ?s))
    (update_terminal p (\<lambda>t. t\<lparr>term_x := screen_x ?s, term_y := screen_y ?s\<rparr>) ?s)"
  define m1 where "m1 = write_bytes (memory s) (of_nat (4096 * (0xB9 + p))) (bytes_at (memory s) VIDEO 4000)"
  define m2 where "m2 = write_bytes m1 VIDEO (bytes_at m1 (of_nat (4096 * (0xB9 + unat n))) 4000)"
  have same: "same_tables ?s s" "pcbs ?s = pcbs s" "running_pid ?s = running_pid s" "terminals ?s = terminals s"
    "current_terminal ?s = current_terminal s" "screen_x ?s = screen_x s" "screen_y ?s = screen_y s"
    by (simp_all add: same_tables_def cli_def)
  have low': "low_memory ?s" using low by (simp only: low_memory_cong [OF same(1-3)])
  have bufs': "bufs_ok ?s" using bufs by (simp add: bufs_ok_def terminal_at_def same)
  have p: "p < 3" "unat n < 3" "unat n \<noteq> p" "length (terminals s) = 3" "\<not> TERMINAL_NUM \<le> n"
    using bufs n False by (auto simp: bufs_ok_def p_def word_less_nat_alt word_unat_eq_iff not_le)
  have ne: "n \<noteq> current_terminal ?s" using False same(5) by simp
  note restore = restore_terminal_step [OF low' bufs' n ne, unfolded same(5) cli_simps p_def [symmetric] m1_def [symmetric] m2_def [symmetric]]
  define s2 where "s2 = remap_video (of_nat (4096 * (0xB9 + p))) ((remap_video VIDEO ?s1)\<lparr>memory := m2\<rparr>)"
  define s' where "s' = sti (update_terminal (unat n) (\<lambda>t. t\<lparr>status := TASK_RUNNING\<rparr>) (s2\<lparr>current_terminal := n\<rparr>))"
  have switch: "switch_terminal n s = Some s'"
    using restore(1) False p(5) by (simp add: switch_terminal_def s'_def s2_def)
  have mem: "memory s' = m2" by (simp add: s'_def s2_def)
  have terms: "terminals s' = (terminals s)[p := (terminal_at p s)\<lparr>term_x := screen_x s, term_y := screen_y s\<rparr>,
      unat n := (terminal_at (unat n) s)\<lparr>status := TASK_RUNNING\<rparr>]"
    using p by (simp add: s'_def s2_def sti_def update_terminal_def terminal_at_def cli_def)
  have in_range: "term_x (terminal_at (unat n) s) < 80" "term_y (terminal_at (unat n) s) < 25"
    using cursors p by (auto simp: virtual_cursor_def p_def split: if_splits)
  then have cursor: "screen_x s' = term_x (terminal_at (unat n) s)" "screen_y s' = term_y (terminal_at (unat n) s)"
    by (simp_all add: s'_def s2_def sti_def update_terminal_def set_screen_xy_simps terminal_at_def cli_def)
  have cur: "current_terminal s' = n" by (simp add: s'_def sti_def update_terminal_def)
  have "low_memory ((remap_video VIDEO ?s1)\<lparr>memory := m2\<rparr>)"
    using remap_video_low(1) [OF restore(2), of VIDEO] low_memory_cong [of "(remap_video VIDEO ?s1)\<lparr>memory := m2\<rparr>" "remap_video VIDEO ?s1"]
    by (simp add: same_tables_def)
  then have "low_memory s2" unfolding s2_def by (rule remap_video_low(1))
  moreover have "same_tables s' s2" "pcbs s' = pcbs s2" "running_pid s' = running_pid s2"
    by (simp_all add: s'_def sti_def update_terminal_def same_tables_def)
  ultimately have lows: "low_memory s'" by (simp only: low_memory_cong)
  have at: "terminal_at t s' = (if t = p then (terminal_at p s)\<lparr>term_x := screen_x s, term_y := screen_y s\<rparr>
      else if t = unat n then (terminal_at (unat n) s)\<lparr>status := TASK_RUNNING\<rparr> else terminal_at t s)" if "t < 3" for t
    using p that by (auto simp: terms terminal_at_def)
  have "bufs_ok s'" using bufs p by (auto simp: bufs_ok_def at cur terms)
  moreover have "virtual_screen t s' = virtual_screen t s" if "t < 3" for t
  proof -
    have video: "VIDEO = of_nat (4096 * 0xB8)" by simp
    have other: "bytes_at m2 (of_nat (4096 * (0xB9 + t))) 4000 = bytes_at m1 (of_nat (4096 * (0xB9 + t))) 4000" if "t < 3" for t
      unfolding m2_def video by (rule bytes_at_other_page) (use that in simp_all)
    have kept: "bytes_at m1 (of_nat (4096 * (0xB9 + t))) 4000 = bytes_at (memory s) (of_nat (4096 * (0xB9 + t))) 4000"
      if "t < 3" "t \<noteq> p" for t
      unfolding m1_def by (rule bytes_at_other_page) (use that p in simp_all)
    have saved: "bytes_at m1 (of_nat (4096 * (0xB9 + p))) 4000 = bytes_at (memory s) VIDEO 4000"
      unfolding m1_def using bytes_at_write_bytes [of "bytes_at (memory s) VIDEO 4000"] by simp
    have shown: "bytes_at m2 VIDEO 4000 = bytes_at m1 (of_nat (4096 * (0xB9 + unat n))) 4000"
      unfolding m2_def using bytes_at_write_bytes [of "bytes_at m1 (of_nat (4096 * (0xB9 + unat n))) 4000"] by simp
    consider "t = p" | "t = unat n" | "t \<noteq> p" "t \<noteq> unat n" by blast
    then show ?thesis
    proof cases
      case 1
      then have "page_of t s' = of_nat (4096 * (0xB9 + p))" "page_of t s = VIDEO"
        using p by (simp_all add: page_of_def cur p_def)
      then show ?thesis using other [of p] saved p(1) unfolding virtual_screen_def mem by (simp only:)
    next
      case 2
      then have "page_of t s = of_nat (4096 * (0xB9 + unat n))" "page_of t s' = VIDEO"
        using p by (simp_all add: page_of_def cur p_def)
      then show ?thesis using shown kept [OF p(2,3)] unfolding virtual_screen_def mem by (simp only:)
    next
      case 3
      then have "page_of t s = of_nat (4096 * (0xB9 + t))" "page_of t s' = of_nat (4096 * (0xB9 + t))"
        by (simp_all add: page_of_def cur p_def)
      then show ?thesis using other [OF that] kept [OF that 3(1)] unfolding virtual_screen_def mem by (simp only:)
    qed
  qed
  moreover have "virtual_cursor t s' = virtual_cursor t s" if "t < 3" for t
    using that p cursor by (auto simp: virtual_cursor_def cur at p_def)
  ultimately show ?thesis using switch cur lows by blast
qed

fun switch_all :: "u8 list \<Rightarrow> 'a terms_scheme \<Rightarrow> 'a terms_scheme option" where
  "switch_all [] s = Some s"
| "switch_all (n # ns) s = Option.bind (switch_terminal n s) (switch_all ns)"

definition display_ok :: "'a terms_scheme \<Rightarrow> bool" where
  "display_ok s \<longleftrightarrow> low_memory s \<and> bufs_ok s \<and>
     (\<forall>t<3. fst (virtual_cursor t s) < 80 \<and> snd (virtual_cursor t s) < 25)"

lemma switch_all_steps:
  assumes "display_ok s" "\<forall>n \<in> set ns. n < 3"
  shows "\<exists>s'. switch_all ns s = Some s' \<and> display_ok s' \<and> current_terminal s' = last (current_terminal s # ns) \<and>
    (\<forall>t<3. virtual_screen t s' = virtual_screen t s \<and> virtual_cursor t s' = virtual_cursor t s)"
  using assms
proof (induction ns arbitrary: s)
  case (Cons n ns)
  obtain s1 where s1: "switch_terminal n s = Some s1" "current_terminal s1 = n" "low_memory s1" "bufs_ok s1"
    "\<forall>t<3. virtual_screen t s1 = virtual_screen t s \<and> virtual_cursor t s1 = virtual_cursor t s"
    using switch_terminal_step [of s n] Cons.prems by (auto simp: display_ok_def)
  then have "display_ok s1" using Cons.prems(1) by (simp add: display_ok_def)
  from Cons.IH [OF this] Cons.prems(2) s1 show ?case by auto
qed simp

lemma make_task_low_memory:
  assumes "tables_placed s" "ucast (pid (get_current_pcb s)) = p" "unat p < 8"
  shows "low_memory (fst (make_task_pgdir p s))"
proof -
  let ?s = "fst (make_task_pgdir p s)"
  note tabs = make_task_pgdir_tables [where s = s, OF assms(3) refl]
  have "proc_table_addr ?s q = proc_table_addr s q" for q by (simp add: proc_table_addr_def)
  moreover have "tables_placed ?s" using assms(1) tables_placed_cong [of ?s s] by simp
  moreover have "get_current_pcb ?s = get_current_pcb s"
    by (simp add: make_task_pgdir_def get_current_pcb_def Let_def del: upt_rec_numeral)
  ultimately show ?thesis using assms(2,3) by (simp add: low_memory_def tabs)
qed

subsection \<open>A system with three terminals\<close>

text \<open>The same system in the address space of the running process.\<close>

definition demo_display :: terms where
  "demo_display = fst (make_task_pgdir 2 demo_terms)"

lemma demo_terms_placed: "tables_placed demo_terms"
proof -
  have "tables_placed (demo_cold\<lparr>memory := demo_image\<rparr>)"
    using cold_placed by (simp add: tables_placed_def proc_table_addr_def demo_cold_def paging.extend_def)
  then have "tables_placed demo" by (simp add: demo_def tables_placed_def proc_table_addr_def)
  then show ?thesis using demo_terms_tables
    by (simp add: same_tables_def tables_placed_cong [of demo_terms demo])
qed

lemma demo_display_fields [simp]:
  "terminals demo_display = terminals demo_terms" "current_terminal demo_display = 0"
  "screen_x demo_display = 0" "screen_y demo_display = 0" "memory demo_display = demo_image"
  "pcbs demo_display = pcbs demo_terms" "running_pid demo_display = 2"
  by (simp_all add: demo_display_def make_task_pgdir_def Let_def del: demo_terms_fields(6,7) upt_rec_numeral)

lemma demo_display_ok: "display_ok demo_display"
proof -
  have "low_memory demo_display"
    unfolding demo_display_def
    by (rule make_task_low_memory) (simp_all add: demo_terms_placed get_current_pcb_def)
  then show ?thesis
    by (simp add: display_ok_def bufs_ok_def virtual_cursor_def terminal_at_def demo_terminal_def all_below_3)
qed

lemma demo_display_shown: "shown_ok 0 VIDEO demo_display"
proof -
  have map: "mapped_at demo_display VIDEO 4000 VIDEO"
  proof (unfold mapped_at_def, intro allI impI)
    fix i :: nat assume i: "i < 4000"
    have "unat (of_nat (0xB8000 + i) :: u32) = 0xB8000 + i" by (rule unat_of_nat32) (use i in simp)
    then have "VIDEO + of_nat i < (0x800000 :: u32)" "\<not> VIDEO + of_nat i < (4096 :: u32)"
      using i by (simp_all add: word_less_nat_alt)
    then show "translate demo_display (VIDEO + of_nat i) = Some (VIDEO + of_nat i)"
      using make_task_pgdir_walk(1) [of demo_terms 2 demo_display "VIDEO + of_nat i"] demo_terms_placed
      by (simp add: translate_def demo_display_def)
  qed
  then show ?thesis by (simp add: shown_ok_def screen_ok_def terminal_at_def demo_terminal_def)
qed

subsection \<open>Properties\<close>

text \<open>
  C6: Switching between terminals, any number of times, changes only which one is on
  display: the screen and the cursor that each of the three terminals shows, or would show,
  stay as they were, and the one asked for last is displayed.
\<close>

theorem switching_keeps_every_screen:
  assumes "display_ok s" "\<forall>n \<in> set ns. n < 3"
  shows "\<exists>s'. switch_all ns s = Some s' \<and> current_terminal s' = last (current_terminal s # ns) \<and>
    (\<forall>t<3. virtual_screen t s' = virtual_screen t s \<and> virtual_cursor t s' = virtual_cursor t s)"
  using switch_all_steps [OF assms] by blast

lemma switching_keeps_every_screen_witness:
  "\<exists>s'. switch_all [1, 2, 0, 1] demo_display = Some s' \<and> current_terminal s' = 1 \<and>
    virtual_screen 0 s' = virtual_screen 0 demo_display"
  using switching_keeps_every_screen [OF demo_display_ok, of "[1, 2, 0, 1]"] by auto

lemma terminal_write_shown:
  assumes run: "get_running_terminal s = Some (Some t)" and shown: "shown_ok (term_id (terminal_at t s)) pa s"
    and buf: "mapped_at s buf n base" "0 < n" "n < 4294967296" "buf \<noteq> 0"
      "\<And>i. i < n \<Longrightarrow> 4000 \<le> unat (base + of_nat i - pa)"
  shows "\<exists>s'. terminal_write buf (int n) s = Some (s', int n) \<and> int_flag s' \<and> prints_only s s' \<and> within pa s s' \<and>
    shown_ok (term_id (terminal_at t s)) pa s' \<and>
    screen_of pa s' = fold screen_put (bytes_at (memory s) base n) (screen_of pa s)"
proof -
  have cli: "prints_only s (cli s)" "within pa s (cli s)" by (simp_all add: prints_only_def same_tables_def within_def cli_def)
  have "get_running_terminal (cli s) = Some (Some t)" using get_running_terminal_cong [of "cli s" s] run by (simp add: cli_def)
  moreover have "mapped_at (cli s) buf n base" using buf(1) prints_only_translate [OF cli(1)] by (simp add: mapped_at_def)
  then obtain s' where s': "write_loop (term_id (terminal_at t s)) buf n (cli s) = Some s'" "prints_only (cli s) s'"
    "within pa (cli s) s'" "shown_ok (term_id (terminal_at t s)) pa s'"
    "screen_of pa s' = fold screen_put (bytes_at (memory (cli s)) base n) (screen_of pa (cli s))"
    using write_loop_screen [of _ pa "cli s" buf n base] shown buf by auto
  moreover have "terminal_at t (cli s) = terminal_at t s" by (simp add: terminal_at_def cli_def)
  ultimately have "terminal_write buf (int n) s = Some (sti s', int n)" using buf by (simp add: terminal_write_def)
  moreover have "prints_only s (sti s')" using prints_only_trans [OF cli(1) s'(2)] by (simp add: prints_only_def same_tables_def sti_def)
  moreover have "within pa s (sti s')" using within_trans [OF cli(2) s'(3)] by (simp add: within_def sti_def)
  moreover have "shown_ok t' pa (sti s') = shown_ok t' pa s'" for t' using shown_ok_cli [of t' pa "sti s'"] shown_ok_cli [of t' pa s']
    by (simp add: cli_def sti_def)
  moreover have "screen_of pa (cli s) = screen_of pa s" "screen_of pa (sti s') = screen_of pa s'" "memory (cli s) = memory s"
    by (simp_all add: cli_def sti_def screen_of_def)
  ultimately show ?thesis using s' by (auto simp: sti_def)
qed

text \<open>
  C27: Writing a buffer to the terminal on display prints its bytes in order, returns their
  number and leaves interrupts enabled, for a buffer that lies outside the screen.
\<close>

theorem terminal_write_prints:
  assumes "get_running_terminal s = Some (Some t)" "shown_ok (term_id (terminal_at t s)) pa s"
    and "mapped_at s buf n base" "0 < n" "n < 4294967296" "buf \<noteq> 0"
    and "\<And>i. i < n \<Longrightarrow> 4000 \<le> unat (base + of_nat i - pa)"
  shows "\<exists>s'. terminal_write buf (int n) s = Some (s', int n) \<and> int_flag s' \<and>
    screen_of pa s' = fold screen_put (bytes_at (memory s) base n) (screen_of pa s)"
  using terminal_write_shown [OF assms] by blast

lemma terminal_write_prints_witness:
  "\<exists>s'. terminal_write 0x500100 2 demo_display = Some (s', 2) \<and> int_flag s'"
proof -
  have run: "get_running_terminal demo_display = Some (Some 0)"
    using get_running_terminal_cong [of demo_display demo_terms] get_running_terminal_runs_on [of demo_terms 0] demo_terms_runs
    by simp
  have map: "mapped_at demo_display 0x500100 2 0x500100"
  proof (unfold mapped_at_def, intro allI impI)
    fix i :: nat assume "i < 2"
    then consider "i = 0" | "i = 1" by linarith
    then show "translate demo_display (0x500100 + of_nat i) = Some (0x500100 + of_nat i)"
      using make_task_pgdir_walk(1) [of demo_terms 2 demo_display "0x500100"]
        make_task_pgdir_walk(1) [of demo_terms 2 demo_display "0x500101"] demo_terms_placed
      by cases (simp_all add: translate_def demo_display_def)
  qed
  have far: "4000 \<le> unat (0x500100 + of_nat i - (VIDEO :: u32))" if "i < 2" for i
  proof -
    from that consider "i = 0" | "i = 1" by linarith
    then show ?thesis by cases simp_all
  qed
  show ?thesis
    using terminal_write_prints [OF run _ map _ _ _ far] demo_display_shown
    by (auto simp: terminal_at_def demo_terminal_def)
qed

end
