(* ===== verification/Syscall_Files.thy ===== *)
theory Syscall_Files
  imports Terminal_Io Rtc
begin

text \<open>
  The system calls of \<^verbatim>\<open>student-distrib/syscall.c\<close> on the descriptors and the memory
  of the running process: \<^verbatim>\<open>open\<close>, \<^verbatim>\<open>close\<close>, \<^verbatim>\<open>read\<close>,
  \<^verbatim>\<open>write\<close>, \<^verbatim>\<open>getargs\<close> and \<^verbatim>\<open>vidmap\<close>, with the tables of file
  operations they dispatch through. What a blocking read meets while it waits is an argument:
  the scancodes typed, the clock interrupts, and the bytes of an uninitialised directory entry.
\<close>

record read_env =
  scancodes :: "u32 list"
  clock_ticks :: nat
  stale_dentry :: dentry

definition read_failure :: "int \<Rightarrow> u32 \<Rightarrow> int \<Rightarrow> int" where
  "read_failure fd buf nbytes = - 1"

definition write_failure :: "int \<Rightarrow> u32 \<Rightarrow> int \<Rightarrow> int" where
  "write_failure fd buf nbytes = - 1"

text \<open>The calls through the tables \<^verbatim>\<open>std_in_fops\<close> to \<^verbatim>\<open>dir_fops\<close>.\<close>

fun ops_open :: "fops \<Rightarrow> u32 \<Rightarrow> 'a terms_scheme \<Rightarrow> ('a terms_scheme \<times> int) option" where
  "ops_open Std_in_fops name s = Some (terminal_open s)"
| "ops_open Std_out_fops name s = Some (terminal_open s)"
| "ops_open Rtc_fops name s = rtc_open s"
| "ops_open Fs_fops name s = Some (s, file_open name)"
| "ops_open Dir_fops name s = Some (dir_open s)"

fun ops_read :: "read_env \<Rightarrow> fops \<Rightarrow> nat \<Rightarrow> u32 \<Rightarrow> int \<Rightarrow> 'a keyboard_scheme \<Rightarrow> ('a keyboard_scheme \<times> int) option" where
  "ops_read env Std_in_fops fd buf nbytes s = terminal_read (scancodes env) buf nbytes s"
| "ops_read env Std_out_fops fd buf nbytes s = Some (s, read_failure (int fd) buf nbytes)"
| "ops_read env Rtc_fops fd buf nbytes s = rtc_read (clock_ticks env) s"
| "ops_read env Fs_fops fd buf nbytes s = file_read fd buf (of_int nbytes) s"
| "ops_read env Dir_fops fd buf nbytes s = dir_read (stale_dentry env) buf nbytes s"

fun ops_write :: "fops \<Rightarrow> nat \<Rightarrow> u32 \<Rightarrow> int \<Rightarrow> 'a terms_scheme \<Rightarrow> ('a terms_scheme \<times> int) option" where
  "ops_write Std_in_fops fd buf nbytes s = Some (s, write_failure (int fd) buf nbytes)"
| "ops_write Std_out_fops fd buf nbytes s = terminal_write buf nbytes s"
| "ops_write Rtc_fops fd buf nbytes s = rtc_write buf nbytes s"
| "ops_write Fs_fops fd buf nbytes s = Some (s, file_write (int fd) buf nbytes)"
| "ops_write Dir_fops fd buf nbytes s = Some (s, dir_write (int fd) buf nbytes)"

definition fd_at :: "nat \<Rightarrow> 'a process_scheme \<Rightarrow> file_desc" where
  "fd_at fd s = fds (get_current_pcb s) ! fd"

text \<open>The check that each call makes of a descriptor.\<close>

definition fd_usable :: "int \<Rightarrow> 'a process_scheme \<Rightarrow> bool" where
  "fd_usable fd s \<longleftrightarrow> flags (fd_at (nat fd) s) AND FD_IN_USE \<noteq> FD_NOT_IN_USE \<and> jumptable (fd_at (nat fd) s) \<noteq> None"

definition sys_read :: "read_env \<Rightarrow> int \<Rightarrow> u32 \<Rightarrow> int \<Rightarrow> 'a keyboard_scheme \<Rightarrow> ('a keyboard_scheme \<times> int) option" where
  "sys_read env fd buf nbytes s =
     (if buf = 0 \<or> fd < 0 \<or> fd \<ge> int FD_CNT \<or> nbytes < 0 \<or> \<not> fd_usable fd s then Some (s, - 1)
      else ops_read env (the (jumptable (fd_at (nat fd) s))) (nat fd) buf nbytes (sti s))"

definition sys_write :: "int \<Rightarrow> u32 \<Rightarrow> int \<Rightarrow> 'a terms_scheme \<Rightarrow> ('a terms_scheme \<times> int) option" where
  "sys_write fd buf nbytes s =
     (if buf = 0 \<or> fd < 0 \<or> fd \<ge> int FD_CNT \<or> nbytes < 0 then Some (s, - 1)
      else if \<not> fd_usable fd s then Some (s, - 1)
      else ops_write (the (jumptable (fd_at (nat fd) s))) (nat fd) buf nbytes s)"

text \<open>The file operations that a type of file selects.\<close>

definition fops_of_type :: "u32 \<Rightarrow> fops option" where
  "fops_of_type t =
     (if t = FT_RTC then Some Rtc_fops else if t = FT_DIR then Some Dir_fops
      else if t = FT_REG then Some Fs_fops else None)"

definition next_fd :: "'a process_scheme \<Rightarrow> nat option" where
  "next_fd s = List.find (\<lambda>i. flags (fd_at i s) AND FD_IN_USE = 0) [FD_START..<FD_CNT]"

text \<open>Opening a file on a free descriptor; the table is stored before its open is called.\<close>

definition open_fd :: "u32 \<Rightarrow> dentry \<Rightarrow> nat \<Rightarrow> fops \<Rightarrow> 'a terms_scheme \<Rightarrow> ('a terms_scheme \<times> int) option" where
  "open_fd name d fd ops s =
     Option.bind (ops_open ops name (update_fd fd (\<lambda>f. f\<lparr>jumptable := Some ops\<rparr>) s)) (\<lambda>(s, r).
       if r = - 1 then Some (update_fd fd (\<lambda>f. f\<lparr>jumptable := None\<rparr>) s, - 1)
       else Some (update_fd fd (\<lambda>f. f\<lparr>flags := FD_IN_USE,
         inode := (if filetype d = FT_REG then inode_idx d else 0), file_position := 0\<rparr>) s, int fd))"

definition sys_open :: "u32 \<Rightarrow> 'a terms_scheme \<Rightarrow> ('a terms_scheme \<times> int) option" where
  "sys_open name s =
     (if name = 0 then Some (s, - 1)
      else Option.bind (translate s name) (\<lambda>pa.
        if memory s pa = 0 then Some (s, - 1)
        else Option.bind (read_dentry_by_name name s) (\<lambda>r. case r of
          None \<Rightarrow> Some (s, - 1)
        | Some d \<Rightarrow>
            (case next_fd s of
               None \<Rightarrow> Some (s, - 1)
             | Some fd \<Rightarrow>
                 (case fops_of_type (filetype d) of
                    None \<Rightarrow> Some (s, - 1)
                  | Some ops \<Rightarrow> open_fd name d fd ops s)))))"

definition sys_close :: "int \<Rightarrow> 'a process_scheme \<Rightarrow> 'a process_scheme \<times> int" where
  "sys_close fd s =
     (if fd < int FD_START \<or> fd \<ge> int FD_CNT then (s, - 1)
      else if \<not> fd_usable fd s then (s, - 1)
      else (update_fd (nat fd)
        (\<lambda>f. f\<lparr>flags := 0, file_position := 0, inode := 0, jumptable := None\<rparr>) s, 0))"

text \<open>
  The argument string starts at \<^verbatim>\<open>argv[1]\<close>; a start or an end past the 128 bytes
  of \<^verbatim>\<open>raw_argv\<close> is outside the array.
\<close>

definition getargs :: "u32 \<Rightarrow> int \<Rightarrow> 'a process_scheme \<Rightarrow> ('a process_scheme \<times> int) option" where
  "getargs buf nbytes s =
     (if buf = 0 \<or> nbytes < 0 then Some (s, - 1)
      else case argv1 (get_current_pcb s) of
        None \<Rightarrow> Some (s, - 1)
      | Some k \<Rightarrow>
          let args = drop k (raw_argv (get_current_pcb s));
              len = length (takeWhile (\<lambda>c. c \<noteq> 0) args)
          in if len = length args then None
             else if len = 0 then Some (s, - 1)
             else map_option (\<lambda>s. (s, 0)) (put_bytes buf (take (min (len + 1) (nat nbytes)) args) s))"

definition word_bytes :: "u32 \<Rightarrow> u8 list" where
  "word_bytes w = [ucast w, ucast (drop_bit 8 w), ucast (drop_bit 16 w), ucast (drop_bit 24 w)]"

text \<open>The address that user programs see the screen at: 160 MiB.\<close>

abbreviation VIDMAP_ADDR :: u32 where "VIDMAP_ADDR \<equiv> 0xA000000"

definition vidmap :: "u32 \<Rightarrow> 'a terms_scheme \<Rightarrow> ('a terms_scheme \<times> int) option" where
  "vidmap screen_start s =
     (if screen_start = 0 \<or> screen_start < PG_4M_START * 2 then Some (s, - 1)
      else Option.bind (put_bytes screen_start (word_bytes VIDMAP_ADDR) s) (\<lambda>s.
        Option.bind (get_running_terminal s) (\<lambda>term. case term of
          None \<Rightarrow> Some (s, - 1)
        | Some t \<Rightarrow>
            let video_addr = (if term_id (terminal_at t s) = current_terminal s then VIDEO
                              else vid_mem_buf (terminal_at t s));
                s = update_terminal t (\<lambda>t. t\<lparr>vidmapped := 1\<rparr>) s
            in Some (map_vid_mem (ucast (pid (get_current_pcb s))) (load32 (vmem s) screen_start) video_addr s))))"

subsection \<open>The descriptor table\<close>

lemma fd_at_update:
  "fd < length (fds (get_current_pcb s)) \<Longrightarrow>
    fd_at i (update_fd fd f s) = (if i = fd then f (fd_at fd s) else fd_at i s)"
  by (simp add: fd_at_def)

lemma find_first_Some:
  "List.find P [a..<b] = Some i \<Longrightarrow> a \<le> i \<and> i < b \<and> P i \<and> (\<forall>j. a \<le> j \<and> j < i \<longrightarrow> \<not> P j)"
proof (induction "b - a" arbitrary: a)
  case (Suc n)
  then have "a < b" by simp
  then have upt: "[a..<b] = a # [Suc a..<b]" by (rule upt_conv_Cons)
  show ?case
  proof (cases "P a")
    case True
    with Suc.prems upt show ?thesis using \<open>a < b\<close> by auto
  next
    case False
    then have "List.find P [Suc a..<b] = Some i" using Suc.prems upt by simp
    with Suc.hyps(1) [of "Suc a"] Suc.hyps(2) have *: "Suc a \<le> i" "i < b" "P i" "\<forall>j. Suc a \<le> j \<and> j < i \<longrightarrow> \<not> P j"
      by auto
    have "\<not> P j" if "a \<le> j" "j < i" for j using * False that by (cases "j = a") auto
    with * show ?thesis by auto
  qed
qed simp

lemma next_fd_Some:
  assumes "next_fd s = Some fd"
  shows "2 \<le> fd" "fd < 8" "flags (fd_at fd s) AND FD_IN_USE = 0"
    "\<And>i. 2 \<le> i \<Longrightarrow> i < fd \<Longrightarrow> flags (fd_at i s) AND FD_IN_USE \<noteq> 0"
  using find_first_Some [OF assms [unfolded next_fd_def]] by auto

lemma next_fd_None:
  "next_fd s = None \<longleftrightarrow> (\<forall>i. 2 \<le> i \<and> i < 8 \<longrightarrow> flags (fd_at i s) AND FD_IN_USE \<noteq> 0)"
  by (auto simp: next_fd_def find_None_iff simp del: upt_rec_numeral)

lemma rtc_open_keeps:
  "rtc_open s = Some (s', r) \<Longrightarrow> r = 0 \<and> pcbs s' = pcbs s \<and> running_pid s' = running_pid s"
  by (auto simp: rtc_open_def set_virtual_freq_rtc_def split: option.splits if_splits)

lemma ops_open_keeps:
  "ops_open ops name s = Some (s', r) \<Longrightarrow> r = 0 \<and> pcbs s' = pcbs s \<and> running_pid s' = running_pid s"
  using rtc_open_keeps by (cases ops) (auto simp: terminal_open_def file_open_def dir_open_def)

lemma fd_at_cong: "pcbs s' = pcbs s \<Longrightarrow> running_pid s' = running_pid s \<Longrightarrow> fd_at i s' = fd_at i s"
  by (simp add: fd_at_def get_current_pcb_def)

lemma fds_cong: "pcbs s' = pcbs s \<Longrightarrow> running_pid s' = running_pid s \<Longrightarrow>
    fds (get_current_pcb s') = fds (get_current_pcb s)"
  by (simp add: get_current_pcb_def)

text \<open>What an open that finds a free descriptor leaves.\<close>

lemma sys_open_cases:
  assumes len: "length (fds (get_current_pcb s)) = 8" and r: "sys_open name s = Some (s', r)"
  obtains (failed) "r = - 1" "s' = s"
  | (opened) fd d ops where "r = int fd" "next_fd s = Some fd" "read_dentry_by_name name s = Some (Some d)"
      "fops_of_type (filetype d) = Some ops"
      "fd_at fd s' = \<lparr>jumptable = Some ops, inode = (if filetype d = FT_REG then inode_idx d else 0),
         file_position = 0, flags = FD_IN_USE\<rparr>"
      "\<And>i. i \<noteq> fd \<Longrightarrow> fd_at i s' = fd_at i s" "length (fds (get_current_pcb s')) = 8"
proof (cases "r = - 1 \<and> s' = s")
  case True
  then show thesis using failed by blast
next
  case False
  with r obtain d fd ops where found: "read_dentry_by_name name s = Some (Some d)" "next_fd s = Some fd"
    "fops_of_type (filetype d) = Some ops" "open_fd name d fd ops s = Some (s', r)"
    by (auto simp: sys_open_def split: if_split_asm option.split_asm Option.bind_split_asm)
  from found(4) obtain s1 x where
    ops: "ops_open ops name (update_fd fd (\<lambda>f. f\<lparr>jumptable := Some ops\<rparr>) s) = Some (s1, x)"
    and rest: "(if x = - 1 then Some (update_fd fd (\<lambda>f. f\<lparr>jumptable := None\<rparr>) s1, - 1)
      else Some (update_fd fd (\<lambda>f. f\<lparr>flags := FD_IN_USE,
        inode := (if filetype d = FT_REG then inode_idx d else 0), file_position := 0\<rparr>) s1, int fd)) = Some (s', r)"
    unfolding open_fd_def bind_eq_Some_conv split_paired_Ex prod.case by blast
  let ?s0 = "update_fd fd (\<lambda>f. f\<lparr>jumptable := Some ops\<rparr>) s"
  have keeps: "x = 0" "pcbs s1 = pcbs ?s0" "running_pid s1 = running_pid ?s0" using ops_open_keeps [OF ops] by auto
  have s': "r = int fd" "s' = update_fd fd (\<lambda>f. f\<lparr>flags := FD_IN_USE,
      inode := (if filetype d = FT_REG then inode_idx d else 0), file_position := 0\<rparr>) s1"
    using rest keeps(1) by auto
  have fd: "fd < 8" using next_fd_Some [OF found(2)] by simp
  have len1: "length (fds (get_current_pcb s1)) = 8" using fds_cong [OF keeps(2,3)] len by simp
  have at1: "fd_at i s1 = (if i = fd then (fd_at fd s)\<lparr>jumptable := Some ops\<rparr> else fd_at i s)" for i
    using fd_at_cong [OF keeps(2,3), of i] fd len by (simp add: fd_at_update)
  have "fd_at i s' = (if i = fd then \<lparr>jumptable = Some ops, inode = (if filetype d = FT_REG then inode_idx d else 0),
         file_position = 0, flags = FD_IN_USE\<rparr> else fd_at i s)" for i
    using fd len1 by (simp add: s'(2) fd_at_update at1)
  moreover have "length (fds (get_current_pcb s')) = 8" using len1 by (simp add: s'(2))
  ultimately show thesis using opened [OF s'(1) found(2,1,3)] by simp
qed

lemma sys_close_usable:
  assumes "2 \<le> fd" "fd < 8" "fd_usable (int fd) s"
  shows "sys_close (int fd) s =
    (update_fd fd (\<lambda>f. f\<lparr>flags := 0, file_position := 0, inode := 0, jumptable := None\<rparr>) s, 0)"
  using assms by (simp add: sys_close_def)

lemma fd_usable_at:
  "fd_usable (int fd) s \<longleftrightarrow> flags (fd_at fd s) AND FD_IN_USE \<noteq> 0 \<and> jumptable (fd_at fd s) \<noteq> None"
  by (simp add: fd_usable_def)

text \<open>The type of an entry always selects a table here, so the outcome depends on name and table only.\<close>

definition opened_state :: "nat \<Rightarrow> dentry \<Rightarrow> 'a process_scheme \<Rightarrow> 'a process_scheme" where
  "opened_state fd d s = update_fd fd (\<lambda>f. f\<lparr>flags := FD_IN_USE, inode := inode_idx d, file_position := 0\<rparr>)
     (update_fd fd (\<lambda>f. f\<lparr>jumptable := Some Fs_fops\<rparr>) s)"

text \<open>An open by a name in memory, whatever the directory says.\<close>

lemma sys_open_by_name:
  assumes "cstr (vmem s) name xs" "accessible s name (length xs + 1)" "name \<noteq> 0" "length xs \<le> 32"
  shows "sys_open name s =
    (if xs = [] then Some (s, - 1)
     else case List.find (\<lambda>d. entry_name d = xs) (dentries s) of
       None \<Rightarrow> Some (s, - 1)
     | Some d \<Rightarrow> (case next_fd s of
         None \<Rightarrow> Some (s, - 1)
       | Some fd \<Rightarrow> (case fops_of_type (filetype d) of None \<Rightarrow> Some (s, - 1) | Some ops \<Rightarrow> open_fd name d fd ops s)))"
proof -
  have "translate s (name + of_nat 0) \<noteq> None"
    using assms(2) unfolding accessible_def list_all_iff by (rule bspec) simp
  then obtain pa where pa: "translate s name = Some pa" by auto
  have "(vmem s name = 0) = (xs = [])"
    using cstr_nonzero [OF assms(1), of 0] cstr_end [OF assms(1)] by auto
  then have "(memory s pa = 0) = (xs = [])" using vmem_mapped [OF pa] by simp
  moreover have "read_dentry_by_name name s = Some (List.find (\<lambda>d. entry_name d = xs) (dentries s))"
    using read_dentry_by_name_find [OF assms(1,2)] assms(4) by simp
  ultimately show ?thesis using assms(3) pa by (simp add: sys_open_def)
qed

lemma sys_open_regular_state:
  assumes "cstr (vmem s) name xs" "accessible s name (length xs + 1)" "name \<noteq> 0" "0 < length xs" "length xs \<le> 32"
    and "List.find (\<lambda>d. entry_name d = xs) (dentries s) = Some d" "filetype d = FT_REG" "next_fd s = Some fd"
  shows "sys_open name s = Some (opened_state fd d s, int fd)"
proof -
  have "xs \<noteq> []" using assms(4) by auto
  with assms(6-8) have "sys_open name s = open_fd name d fd Fs_fops s"
    unfolding sys_open_by_name [OF assms(1,2,3,5)] by (simp add: fops_of_type_def)
  then show ?thesis using assms(7) by (simp add: open_fd_def file_open_def opened_state_def)
qed

lemma sys_open_regular:
  assumes "cstr (vmem s) name xs" "accessible s name (length xs + 1)" "name \<noteq> 0" "0 < length xs" "length xs \<le> 32"
    and "List.find (\<lambda>d. entry_name d = xs) (dentries s) = Some d" "filetype d = FT_REG" "next_fd s = Some fd"
  shows "\<exists>s'. sys_open name s = Some (s', int fd) \<and> memory s' = memory s \<and> same_tables s' s \<and> bootblk s' = bootblk s"
  using sys_open_regular_state [OF assms] by (simp add: opened_state_def update_fd_def update_pcb_def same_tables_def)

subsection \<open>A process with its descriptors\<close>

definition demo_proc :: terms where
  "demo_proc = demo_terms\<lparr>pcbs := (pcbs demo_terms)
     (2 := (pcbs demo_terms 2)\<lparr>fds := [\<lparr>jumptable = Some Std_in_fops, inode = 0, file_position = 0, flags = 1\<rparr>,
       \<lparr>jumptable = Some Std_out_fops, inode = 0, file_position = 0, flags = 1\<rparr>] @ replicate 6 idle_fd\<rparr>)\<rparr>"

lemma demo_proc_fields [simp]:
  "running_pid demo_proc = 2" "memory demo_proc = demo_image" "bootblk demo_proc = 0x440000"
  "length (fds (get_current_pcb demo_proc)) = 8"
  by (simp_all add: demo_proc_def get_current_pcb_def)

lemma demo_proc_tables: "same_tables demo_proc demo"
  using demo_terms_tables by (simp add: same_tables_def demo_proc_def)

lemma demo_proc_vmem: "vmem demo_proc = vmem demo"
  by (rule vmem_cong) (simp_all add: demo_proc_tables)

lemma demo_proc_next: "next_fd demo_proc = Some 2"
  by (simp add: next_fd_def fd_at_def get_current_pcb_def demo_proc_def idle_fd_def upt_rec numeral_2_eq_2)

lemma demo_entry:
  obtains d where "List.find (\<lambda>d. entry_name d = [0x66]) (dentries demo_proc) = Some d" "filetype d = FT_REG"
    "inode_idx d = 1"
proof
  let ?d = "bytes_at (vmem demo) 0x440040 64"
  have "cstr (vmem demo) 0x440040 [0x66]" by (simp add: cstr_def bytes_at_Suc demo_vmem demo_image_def)
  then have name: "entry_name ?d = [0x66]"
    using takeWhile_cstr [of "vmem demo" "0x440040" "[0x66]" 32] by (simp add: entry_name_def filename_def take_bytes_at)
  have "dentries demo_proc = map (\<lambda>i. bytes_at (vmem demo) (direntry_addr 0x440000 (of_nat i)) 64) (0 # [1..<63])"
    by (simp add: dentries_def demo_proc_vmem upt_conv_Cons del: upt_rec_numeral)
  then show "List.find (\<lambda>d. entry_name d = [0x66]) (dentries demo_proc) = Some ?d"
    using name by (simp add: direntry_addr_def del: upt_rec_numeral)
  show "filetype ?d = FT_REG" "inode_idx ?d = 1"
    by (simp_all add: demo_vmem filetype_def inode_idx_def le32_def load32_def demo_image_def)
qed

lemma demo_name: "cstr (vmem demo_proc) 0x500100 [0x66]" "accessible demo_proc 0x500100 (length [0x66] + 1)"
  using translate_cong [OF demo_proc_tables]
  by (simp_all add: demo_proc_vmem cstr_def bytes_at_Suc demo_vmem demo_image_def accessible_def upt_rec demo_translate)

lemma demo_open: "\<exists>s'. sys_open 0x500100 demo_proc = Some (s', 2) \<and> memory s' = demo_image \<and>
    same_tables s' demo_proc \<and> bootblk s' = 0x440000"
proof -
  obtain d where d: "List.find (\<lambda>d. entry_name d = [0x66]) (dentries demo_proc) = Some d" "filetype d = FT_REG"
    by (rule demo_entry)
  show ?thesis using sys_open_regular [OF demo_name _ _ _ d demo_proc_next] by simp
qed

subsection \<open>Properties\<close>

text \<open>
  C22: A successful \<^verbatim>\<open>open\<close> returns the lowest descriptor from 2 on that is not in use,
  fills it for the file's type with the position at the start, and touches no other
  descriptor; a failing one changes none.
\<close>

theorem open_takes_lowest_descriptor:
  assumes "length (fds (get_current_pcb s)) = 8" "sys_open name s = Some (s', r)"
  shows "(r = - 1 \<and> s' = s) \<or>
    (\<exists>d ops. read_dentry_by_name name s = Some (Some d) \<and> fops_of_type (filetype d) = Some ops \<and>
      2 \<le> r \<and> r < 8 \<and> flags (fd_at (nat r) s) AND FD_IN_USE = 0 \<and>
      (\<forall>i. 2 \<le> i \<and> i < nat r \<longrightarrow> flags (fd_at i s) AND FD_IN_USE \<noteq> 0) \<and>
      fd_at (nat r) s' = \<lparr>jumptable = Some ops, inode = (if filetype d = FT_REG then inode_idx d else 0),
        file_position = 0, flags = FD_IN_USE\<rparr> \<and>
      (\<forall>i. i \<noteq> nat r \<longrightarrow> fd_at i s' = fd_at i s))"
  using assms
proof (cases rule: sys_open_cases)
  case (opened fd d ops)
  then show ?thesis using next_fd_Some [OF opened(2)] by auto
qed simp

lemma open_takes_lowest_descriptor_witness:
  "\<exists>s'. sys_open 0x500100 demo_proc = Some (s', 2) \<and> file_position (fd_at 2 s') = 0 \<and>
    fd_at 3 s' = fd_at 3 demo_proc"
proof -
  obtain s' where s': "sys_open 0x500100 demo_proc = Some (s', 2)" using demo_open by blast
  from open_takes_lowest_descriptor [OF _ this] show ?thesis using s' by auto
qed

text \<open>
  C23: Closing the descriptor that \<^verbatim>\<open>open\<close> returned succeeds and gives it back: it is
  the lowest free one again, and a second \<^verbatim>\<open>close\<close> of it fails.
\<close>

theorem close_gives_back:
  assumes "length (fds (get_current_pcb s)) = 8" "sys_open name s = Some (s1, r)" "r \<noteq> - 1"
  shows "snd (sys_close r s1) = 0 \<and> next_fd (fst (sys_close r s1)) = Some (nat r) \<and>
    snd (sys_close r (fst (sys_close r s1))) = - 1"
  using assms(1,2)
proof (cases rule: sys_open_cases)
  case (opened fd d ops)
  note free = next_fd_Some [OF opened(2)]
  let ?s = "update_fd fd (\<lambda>f. f\<lparr>flags := 0, file_position := 0, inode := 0, jumptable := None\<rparr>) s1"
  have close: "sys_close r s1 = (?s, 0)"
    unfolding opened(1) using free(1,2) opened(5) by (intro sys_close_usable) (simp_all add: fd_usable_at)
  have at: "fd_at i ?s = (if i = fd then idle_fd else fd_at i s)" for i
    using free(2) opened(5-7) by (simp add: fd_at_update idle_fd_def)
  have "(\<lambda>i. flags (fd_at i ?s) AND FD_IN_USE = 0) = (\<lambda>i. flags (fd_at i s) AND FD_IN_USE = 0)"
    using free(3) by (auto simp: at idle_fd_def)
  then have "next_fd ?s = next_fd s" unfolding next_fd_def by (simp only:)
  moreover have "\<not> fd_usable (int fd) ?s" by (simp add: fd_usable_at at idle_fd_def)
  then have "snd (sys_close (int fd) ?s) = - 1" by (simp add: sys_close_def)
  ultimately show ?thesis using close opened(1,2) by simp
qed (use assms(3) in simp)

lemma close_gives_back_witness:
  "\<exists>s1. sys_open 0x500100 demo_proc = Some (s1, 2) \<and> next_fd (fst (sys_close 2 s1)) = Some 2"
proof -
  obtain s1 where s1: "sys_open 0x500100 demo_proc = Some (s1, 2)" using demo_open by blast
  from close_gives_back [OF _ this] show ?thesis using s1 by simp
qed

text \<open>
  A descriptor number out of range, or one that is not open, is refused by
  \<^verbatim>\<open>read\<close>, \<^verbatim>\<open>write\<close> and \<^verbatim>\<open>close\<close> with -1, and so is closing
  standard input or output; a refused call changes nothing.
\<close>

theorem bad_descriptors_refused:
  assumes "fd < 0 \<or> 8 \<le> fd \<or> \<not> fd_usable fd s"
  shows "sys_read env fd buf nbytes s = Some (s, - 1) \<and> sys_write fd buf nbytes s = Some (s, - 1) \<and>
    sys_close fd s = (s, - 1) \<and> sys_close 0 s = (s, - 1) \<and> sys_close 1 s = (s, - 1)"
  using assms by (auto simp: sys_read_def sys_write_def sys_close_def)

lemma bad_descriptors_refused_witness:
  "sys_read env 5 0x500000 16 (demo_keyboard []) = Some (demo_keyboard [], - 1)"
  using bad_descriptors_refused [of 5 "demo_keyboard []" env "0x500000" 16]
  by (simp add: fd_usable_def fd_at_def get_current_pcb_def blank_pcb_def demo_fds_def idle_fd_def)

text \<open>
  Writing to standard input, reading from standard output and writing to a file or a
  directory fail with -1 through the tables of operations and print nothing.
\<close>

theorem wrong_direction_fails:
  assumes "fd_usable fd s" "0 \<le> fd" "fd < 8" "jumptable (fd_at (nat fd) s) = Some ops"
  shows "(ops \<in> {Std_in_fops, Fs_fops, Dir_fops} \<longrightarrow> sys_write fd buf nbytes s = Some (s, - 1)) \<and>
    (ops = Std_out_fops \<longrightarrow> (\<exists>s'. sys_read env fd buf nbytes s = Some (s', - 1) \<and> (s' = s \<or> s' = sti s)))"
  using assms by (auto simp: sys_read_def sys_write_def write_failure_def read_failure_def file_write_def dir_write_def)

lemma wrong_direction_fails_witness:
  "sys_write 0 0x500000 4 (demo_keyboard []) = Some (demo_keyboard [], - 1)"
  using wrong_direction_fails [of 0 "demo_keyboard []" Std_in_fops "0x500000" 4]
  by (simp add: fd_usable_def fd_at_def get_current_pcb_def blank_pcb_def demo_fds_def)

text \<open>
  C39: \<^verbatim>\<open>vidmap\<close> stores 160 MiB where it is asked to and maps that page of the caller
  to the screen when the caller's terminal is on display, and to the terminal's buffer when
  it is not.
\<close>

theorem vidmap_maps_screen:
  assumes "get_running_terminal s = Some (Some t)" "mapped_at s p 4 pa" "0x800000 \<le> p"
    and "tables_placed s" "unat (ucast (pid (get_current_pcb s)) :: u8) < 8"
  shows "\<exists>s'. vidmap p s = Some (s', 0) \<and> load32 (memory s') pa = VIDMAP_ADDR \<and>
    page_walk s' VIDMAP_ADDR = Some (page_base 12
      (if term_id (terminal_at t s) = current_terminal s then VIDEO else vid_mem_buf (terminal_at t s)), True)"
proof -
  let ?bs = "word_bytes VIDMAP_ADDR" and ?p = "ucast (pid (get_current_pcb s)) :: u8"
  let ?s1 = "s\<lparr>memory := write_bytes (memory s) pa ?bs\<rparr>"
  let ?s2 = "update_terminal t (\<lambda>t. t\<lparr>vidmapped := 1\<rparr>) ?s1"
  let ?a = "if term_id (terminal_at t s) = current_terminal s then VIDEO else vid_mem_buf (terminal_at t s)"
  have len: "length ?bs = 4" by (simp add: word_bytes_def)
  have put: "put_bytes p ?bs s = Some ?s1" using put_bytes_mapped [of s p ?bs pa] assms(2) len by simp
  have run: "get_running_terminal ?s1 = Some (Some t)" using assms(1) by simp
  have stored: "load32 (memory ?s1) pa = VIDMAP_ADDR"
    using write_bytes_in [of 0 ?bs "memory s" pa] write_bytes_in [of 1 ?bs "memory s" pa]
      write_bytes_in [of 2 ?bs "memory s" pa] write_bytes_in [of 3 ?bs "memory s" pa]
    by (simp add: load32_def word_bytes_def)
  have vmem: "vmem ?s2 (p + of_nat i) = memory ?s1 (pa + of_nat i)" if "i < 4" for i
    using mapped_at_nth [OF assms(2) that] by (intro vmem_mapped [THEN trans]) simp_all
  have loaded: "load32 (vmem ?s2) p = VIDMAP_ADDR"
    using vmem [of 0] vmem [of 1] vmem [of 2] vmem [of 3] stored by (simp add: load32_def)
  have "\<not> p < 0x800000" using assms(3) by (simp only: not_less not_False_eq_True)
  moreover have "p \<noteq> 0" using assms(3) by auto
  ultimately have vid: "vidmap p s = Some (map_vid_mem ?p VIDMAP_ADDR ?a ?s2)"
    using put run loaded by (simp add: vidmap_def Let_def terminal_at_def get_current_pcb_def)
  let ?s' = "fst (map_vid_mem ?p VIDMAP_ADDR ?a ?s2)"
  have "page_walk ?s' VIDMAP_ADDR = Some (page_base 12 ?a OR take_bit 12 VIDMAP_ADDR, True)"
    by (rule map_vid_mem_walk [OF _ assms(5) refl])
      (use assms(4) tables_placed_cong [of ?s2 s] in \<open>simp_all add: update_terminal_def drop_bit_eq_div take_bit_eq_mod\<close>)
  moreover have "snd (map_vid_mem ?p VIDMAP_ADDR ?a ?s2) = 0" "memory ?s' = memory ?s1"
    using assms(5) by (simp_all add: map_vid_mem_def Let_def word_le_nat_alt cli_def sti_def update_terminal_def)
  ultimately show ?thesis using vid stored by (intro exI [of _ ?s']) (simp add: prod_eq_iff)
qed

lemma vidmap_maps_screen_witness:
  "\<exists>s'. vidmap 0x8000000 demo_display = Some (s', 0) \<and>
    page_walk s' VIDMAP_ADDR = Some (page_base 12 VIDEO, True)"
proof -
  have run: "get_running_terminal demo_display = Some (Some 0)"
    using get_running_terminal_cong [of demo_display demo_terms] get_running_terminal_runs_on [of demo_terms 0] demo_terms_runs
    by simp
  have walk: "translate demo_display va = Some (0x1000000 OR take_bit 22 va)" if "unat (drop_bit 22 va) = 32" for va
    using make_task_pgdir_walk(2) [OF demo_terms_placed _ demo_display_def that]
    by (simp add: translate_def user_page_def)
  have at: "translate demo_display 0x8000000 = Some 0x1000000" "translate demo_display 0x8000001 = Some 0x1000001"
    "translate demo_display 0x8000002 = Some 0x1000002" "translate demo_display 0x8000003 = Some 0x1000003"
    by (subst walk; simp add: drop_bit_eq_div take_bit_eq_mod)+
  have "mapped_at demo_display 0x8000000 4 0x1000000"
  proof (unfold mapped_at_def, intro allI impI)
    fix i :: nat assume "i < 4"
    then consider "i = 0" | "i = 1" | "i = 2" | "i = 3" by linarith
    then show "translate demo_display (0x8000000 + of_nat i) = Some (0x1000000 + of_nat i)"
      by cases (simp_all add: at)
  qed
  moreover have "tables_placed demo_display" 
    using demo_display_ok by (simp add: display_ok_def low_memory_def)
  ultimately show ?thesis using vidmap_maps_screen [OF run, of "0x8000000" "0x1000000"]
    by (auto simp: get_current_pcb_def terminal_at_def demo_terminal_def)
qed

end
