(* ===== verification/Syscall_Exec.thy ===== *)
theory Syscall_Exec
  imports Syscall_Files
begin

text \<open>
  Starting and ending processes (\<^verbatim>\<open>execute\<close> and \<^verbatim>\<open>halt\<close> of
  \<^verbatim>\<open>student-distrib/syscall.c\<close>), the dispatch of system calls and the end of
  \<^verbatim>\<open>init_terminals\<close>. Both calls leave by changing stacks: \<open>uspace\<close> never comes
  back to its caller and \<^verbatim>\<open>halt\<close> returns from the \<^verbatim>\<open>execute\<close> of the
  parent. A result therefore says how the call left. The local arrays of
  \<^verbatim>\<open>execute\<close> live on the kernel stack; their addresses, the stack pointers and the
  address of the literal \<^verbatim>\<open>"shell"\<close> are arguments.
\<close>

abbreviation ELF_HEADER_SIZE :: u32 where "ELF_HEADER_SIZE \<equiv> 4"
abbreviation ENTRY_POINT_OFFSET :: u32 where "ENTRY_POINT_OFFSET \<equiv> 24"
abbreviation LOAD_ADDR :: u32 where "LOAD_ADDR \<equiv> 0x8048000"
abbreviation PROCESS_KILLED_BY_EXCEPTION :: u32 where "PROCESS_KILLED_BY_EXCEPTION \<equiv> 256"

record exec_frame =
  cmd_at :: u32
  header_at :: u32
  entry_at :: u32
  frame_esp :: u32
  frame_ebp :: u32
  shell_at :: u32

text \<open>
  How a call leaves: with a value, to user code at an entry point, back into the parent's
  call with a stack and a value, or by the crash of an unimplemented function.
\<close>

datatype 's outcome =
    Return 's int
  | Enter_user 's u32
  | Resume 's u32 u32 u32
  | Unimplemented 's

definition elf_header :: "u8 list" where
  "elf_header = [0x7F, 0x45, 0x4C, 0x46]"

subsection \<open>The command line\<close>

text \<open>The inner loop over repeated spaces: \<open>i\<close> stops at the last one.\<close>

function skip_spaces :: "mem \<Rightarrow> u32 \<Rightarrow> nat \<Rightarrow> nat \<Rightarrow> nat" where
  "skip_spaces m ucmd i l =
     (if i + 1 < l \<and> m (ucmd + of_nat (i + 1)) = 0x20 then skip_spaces m ucmd (i + 1) l else i)"
  by pat_completeness auto
termination by (relation "measure (\<lambda>(m, ucmd, i, l). l - i)") auto

declare skip_spaces.simps [simp del]

text \<open>
  The copying loop into the 128 bytes of \<^verbatim>\<open>cmd\<close>, with the index it leaves in
  \<^verbatim>\<open>j\<close>; a store past the array is \<open>None\<close>. The \<^verbatim>\<open>strcpy\<close> of the rest
  copies the last space, the arguments and the NUL.
\<close>

function copy_command :: "mem \<Rightarrow> u32 \<Rightarrow> nat \<Rightarrow> nat \<Rightarrow> nat \<Rightarrow> u8 list \<Rightarrow> (u8 list \<times> nat) option" where
  "copy_command m ucmd i l j cmd =
     (if i < l then
        if ARGS_SIZE \<le> j then None
        else if m (ucmd + of_nat i) = 0x20 then
          let i = skip_spaces m ucmd i l;
              rest = bytes_at m (ucmd + of_nat i) (l - i + 1)
          in if j + length rest \<le> ARGS_SIZE
             then Some (take j cmd @ rest @ drop (j + length rest) cmd, j) else None
        else copy_command m ucmd (i + 1) l (j + 1) (cmd[j := m (ucmd + of_nat i)])
      else Some (cmd, j))"
  by pat_completeness auto
termination by (relation "measure (\<lambda>(m, ucmd, i, l, j, cmd). l - i)") auto

declare copy_command.simps [simp del]

definition read_command :: "mem \<Rightarrow> u32 \<Rightarrow> u8 list option" where
  "read_command m ucmd =
     Option.bind (strnonspace m ucmd) (\<lambda>i. Option.bind (strlen m ucmd) (\<lambda>l.
       Option.bind (copy_command m ucmd (unat i) (unat l) 0 (replicate ARGS_SIZE 0)) (\<lambda>(cmd, j).
         if j < ARGS_SIZE then Some (cmd[j := 0]) else None)))"

subsection \<open>Starting a process\<close>

definition std_fds :: "file_desc list" where
  "std_fds = map (\<lambda>i. if i < FD_START
       then \<lparr>jumptable = Some (if i = 0 then Std_in_fops else Std_out_fops), inode = 0,
              file_position = 0, flags = FD_IN_USE\<rparr>
       else \<lparr>jumptable = None, inode = 0, file_position = 0, flags = FD_NOT_IN_USE\<rparr>) [0..<FD_CNT]"

text \<open>The length of a string in an array that holds its NUL.\<close>

definition list_strlen :: "u8 list \<Rightarrow> nat" where
  "list_strlen xs = length (takeWhile (\<lambda>c. c \<noteq> 0) xs)"

text \<open>The block of the new process: descriptors, arguments, number and the caller's stack.\<close>

definition fill_block :: "exec_frame \<Rightarrow> 'a process_scheme \<Rightarrow> 'a process_scheme" where
  "fill_block frame s =
     (let cmd = bytes_at (vmem s) (cmd_at frame) ARGS_SIZE
      in update_pcb (running_pid s) (\<lambda>p. p\<lparr>fds := std_fds, raw_argv := cmd, argv0 := Some 0,
           argv1 := Some (list_strlen cmd + 1), pid := ucast (running_pid s),
           parent_ksp := frame_esp frame, parent_kbp := frame_ebp frame\<rparr>) s)"

text \<open>The terminal on display when it runs, a free one otherwise; there may be none.\<close>

definition terminal_for_new :: "'a terms_scheme \<Rightarrow> 'a terms_scheme \<times> nat option" where
  "terminal_for_new s =
     (if running (terminal_at (unat (current_terminal s)) s) = 1
      then (s, Some (unat (current_terminal s))) else new_terminal (ucast (running_pid s)) s)"

text \<open>The links to the parent; the first process of a terminal has none.\<close>

definition link_block :: "u8 \<Rightarrow> nat \<Rightarrow> 'a terms_scheme \<Rightarrow> 'a terms_scheme" where
  "link_block parent t s =
     (let new = running_pid s;
          pp = (if ucast new = term_pid (terminal_at t s) then - 1 else sint (pid (pcbs s parent)));
          s = update_pcb new (\<lambda>p. p\<lparr>child_pcb := None, parent_pid := pp, parent_pcb := Some parent\<rparr>) s
      in if pp \<noteq> - 1 then update_pcb parent (\<lambda>p. p\<lparr>child_pcb := Some new\<rparr>) s
         else update_pcb new (\<lambda>p. p\<lparr>parent_pcb := None\<rparr>) s)"

definition setup_pcb :: "exec_frame \<Rightarrow> u8 \<Rightarrow> 'a terms_scheme \<Rightarrow> 'a terms_scheme option" where
  "setup_pcb frame parent s =
     (case terminal_for_new (fill_block frame s) of
        (s, None) \<Rightarrow> None
      | (s, Some t) \<Rightarrow> Some ((link_block parent t s)\<lparr>tss_esp0 := kernel_stack (ucast (running_pid s))\<rparr>))"

text \<open>The part after the process number was taken; no failing path gives it back.\<close>

definition start_process :: "exec_frame \<Rightarrow> u8 \<Rightarrow> 'a terms_scheme \<Rightarrow> 'a terms_scheme outcome option" where
  "start_process frame parent s =
     Option.bind (file_read_name (cmd_at frame) (entry_at frame) ENTRY_POINT_OFFSET 4 s) (\<lambda>(s, n).
       if n \<noteq> 4 then Some (Return (sti s) (- 1))
       else
         let (s, r) = make_task_pgdir (running_pid s) s
         in if r \<noteq> 0 then Some (Return (sti s) (- 1))
            else Option.bind (file_read_name (cmd_at frame) LOAD_ADDR 0 0 s) (\<lambda>(s, n).
              if n = - 1 then Some (Return (sti s) (- 1))
              else if \<not> accessible s (cmd_at frame) ARGS_SIZE \<or> \<not> accessible s (entry_at frame) 4 then None
              else map_option (\<lambda>s. Enter_user (sti s) (load32 (vmem s) (entry_at frame)))
                (setup_pcb frame parent s)))"

definition execute :: "exec_frame \<Rightarrow> u32 \<Rightarrow> 'a terms_scheme \<Rightarrow> 'a terms_scheme outcome option" where
  "execute frame ucmd s =
     (let s = cli s; parent = running_pid s in
      if ucmd = 0 then Some (Return (sti s) (- 1))
      else Option.bind (strlen (vmem s) ucmd) (\<lambda>l.
        if \<not> accessible s ucmd (unat l + 1) then None
        else Option.bind (read_command (vmem s) ucmd) (\<lambda>cmd.
        Option.bind (put_bytes (cmd_at frame) cmd s) (\<lambda>s.
        Option.bind (read_dentry_by_name (cmd_at frame) s) (\<lambda>d. case d of
          None \<Rightarrow> Some (Return (sti s) (- 1))
        | Some d \<Rightarrow>
            Option.bind (read_data (inode_idx d) 0 (header_at frame) ELF_HEADER_SIZE s) (\<lambda>(s, n).
              if n \<noteq> 4 then Some (Return (sti s) (- 1))
              else if bytes_at (vmem s) (header_at frame) 4 \<noteq> elf_header then Some (Return (sti s) (- 1))
              else case alloc_pid (procs s) of
                None \<Rightarrow> Some (Return (sti s) (- 1))
              | Some (used, p) \<Rightarrow> start_process frame parent (s\<lparr>procs := used, running_pid := p\<rparr>)))))))"

subsection \<open>Ending a process\<close>

definition close_all :: "'a process_scheme \<Rightarrow> 'a process_scheme" where
  "close_all s = fold (\<lambda>i s. fst (sys_close (int i) s)) [0..<FD_CNT] s"

text \<open>
  A shell that ends starts another one on the stack it was entered on; when that fails the
  code would go on with a foreign frame. Otherwise the parent's \<^verbatim>\<open>execute\<close> returns.
\<close>

definition halt_restart :: "exec_frame \<Rightarrow> nat option \<Rightarrow> 'a terms_scheme \<Rightarrow> 'a terms_scheme outcome option" where
  "halt_restart frame term s =
     (case term of
        None \<Rightarrow> None
      | Some t \<Rightarrow>
          (case execute frame (shell_at frame)
             (update_terminal (unat (current_terminal s)) (\<lambda>t. t\<lparr>running := 0\<rparr>)
               (s\<lparr>tss_esp0 := kernel_stack (term_pid (terminal_at t s))\<rparr>)) of
             Some (Return s r) \<Rightarrow> None
           | r \<Rightarrow> r))"

definition halt_to_parent :: "u8 \<Rightarrow> nat option \<Rightarrow> 'a terms_scheme \<Rightarrow> 'a terms_scheme outcome option" where
  "halt_to_parent stat term s =
     (let p = running_pid s;
          s = update_pcb p (\<lambda>x. x\<lparr>child_return :=
                if program_exception s \<noteq> 0 then PROCESS_KILLED_BY_EXCEPTION else ucast stat\<rparr>) s;
          s = set_program_exception 0 s;
          pp = parent_pid (pcbs s p);
          s = s\<lparr>tss_esp0 := kernel_stack (of_int pp), running_pid := of_int pp\<rparr>
      in Option.bind (remove_task_pgdir (ucast (pid (pcbs s p))) s) (\<lambda>(s, _).
         Option.bind (flush_tlb s) (\<lambda>s. case term of
           None \<Rightarrow> None
         | Some t \<Rightarrow>
             let s = update_terminal t (\<lambda>x. x\<lparr>vidmapped := 0\<rparr>) s
             in Some (Resume s (parent_ksp (pcbs s p)) (parent_kbp (pcbs s p)) (child_return (pcbs s p))))))"

definition halt :: "exec_frame \<Rightarrow> u8 \<Rightarrow> 'a terms_scheme \<Rightarrow> 'a terms_scheme outcome option" where
  "halt frame stat s =
     (let p = running_pid s;
          s = (case parent_pcb (pcbs s p) of None \<Rightarrow> s
               | Some q \<Rightarrow> update_pcb q (\<lambda>x. x\<lparr>child_pcb := None\<rparr>) s);
          s = close_all s
      in Option.bind (get_running_terminal s) (\<lambda>term.
           let s = s\<lparr>procs := free_pid (pid (pcbs s p)) (procs s)\<rparr>
           in if parent_pid (pcbs s p) = - 1 then halt_restart frame term s
              else halt_to_parent stat term s))"

subsection \<open>Dispatch\<close>

definition returned :: "('s \<times> int) option \<Rightarrow> 's outcome option" where
  "returned = map_option (\<lambda>(s, r). Return s r)"

definition irqh_syscall ::
  "read_env \<Rightarrow> exec_frame \<Rightarrow> u32 \<Rightarrow> u32 \<Rightarrow> u32 \<Rightarrow> u32 \<Rightarrow> 'a keyboard_scheme \<Rightarrow> 'a keyboard_scheme outcome option"
where
  "irqh_syscall env frame type arg1 arg2 arg3 s =
     (if type = 0 \<or> type > 10 then Some (Return s (- 1))
      else if type = 1 then halt frame (ucast arg1) s
      else if type = 2 then execute frame arg1 s
      else if type = 3 then returned (sys_read env (sint arg1) arg2 (sint arg3) s)
      else if type = 4 then returned (sys_write (sint arg1) arg2 (sint arg3) s)
      else if type = 5 then returned (sys_open arg1 s)
      else if type = 6 then returned (Some (sys_close (sint arg1) s))
      else if type = 7 then returned (getargs arg1 (sint arg2) s)
      else if type = 8 then returned (vidmap arg1 s)
      else Some (Unimplemented s))"

text \<open>The whole of \<^verbatim>\<open>init_terminals\<close>.\<close>

definition init_terminals :: "exec_frame \<Rightarrow> 'a terms_scheme \<Rightarrow> 'a terms_scheme outcome option" where
  "init_terminals frame s = Option.bind (init_terminal_state s) (execute frame (shell_at frame))"

subsection \<open>Reading the command line\<close>

text \<open>What a command line means: the command's name and its argument string.\<close>

definition split_command :: "u8 list \<Rightarrow> u8 list \<times> u8 list" where
  "split_command u =
     (let v = dropWhile (\<lambda>c. c = 0x20) u
      in (takeWhile (\<lambda>c. c \<noteq> 0x20) v, dropWhile (\<lambda>c. c = 0x20) (dropWhile (\<lambda>c. c \<noteq> 0x20) v)))"

lemma bytes_at_suffix:
  assumes "cstr m a u" "i \<le> length u"
  shows "bytes_at m (a + of_nat i) (length u - i + 1) = drop i u @ [0]"
proof (rule nth_equalityI)
  fix k assume "k < length (bytes_at m (a + of_nat i) (length u - i + 1))"
  then have k: "k \<le> length u - i" by simp
  have at: "bytes_at m (a + of_nat i) (length u - i + 1) ! k = m (a + of_nat (i + k))"
    using k by (subst nth_bytes_at) (simp_all add: add.assoc)
  show "bytes_at m (a + of_nat i) (length u - i + 1) ! k = (drop i u @ [0]) ! k"
  proof (cases "k = length u - i")
    case True
    then have "i + k = length u" using assms(2) by simp
    then show ?thesis unfolding at using True cstr_end [OF assms(1)] assms(2) by (simp add: nth_append)
  next
    case False
    then have "k < length u - i" "i + k < length u" using k by simp_all
    then show ?thesis unfolding at using cstr_nth [OF assms(1), of "i + k"] by (simp add: nth_append)
  qed
qed (use assms(2) in simp)

lemma skip_spaces_drop:
  assumes "cstr m a u" "i < length u" "u ! i = 0x20"
  shows "skip_spaces m a i (length u) < length u \<and>
    drop (skip_spaces m a i (length u)) u = 0x20 # dropWhile (\<lambda>c. c = 0x20) (drop i u)"
  using assms(2,3)
proof (induction "length u - i" arbitrary: i rule: less_induct)
  case less
  have di: "drop i u = u ! i # drop (Suc i) u" using less.prems(1) by (rule Cons_nth_drop_Suc [symmetric])
  show ?case
  proof (cases "i + 1 < length u \<and> m (a + of_nat (i + 1)) = 0x20")
    case True
    then have nxt: "i + 1 < length u" "u ! (i + 1) = 0x20" using cstr_nth [OF assms(1), of "i + 1"] by auto
    have "skip_spaces m a i (length u) = skip_spaces m a (i + 1) (length u)"
      using True by (subst skip_spaces.simps) simp
    then show ?thesis using less.hyps [OF _ nxt] nxt(1) di less.prems(2) by simp
  next
    case False
    then have stop: "skip_spaces m a i (length u) = i" by (subst skip_spaces.simps) (simp only: if_False)
    have "dropWhile (\<lambda>c. c = 0x20) (drop (Suc i) u) = drop (Suc i) u"
    proof (cases "i + 1 < length u")
      case True
      then have "u ! Suc i \<noteq> 0x20" using False cstr_nth [OF assms(1), of "i + 1"] by simp
      moreover have "drop (Suc i) u = u ! Suc i # drop (Suc (Suc i)) u" using True by (simp add: Cons_nth_drop_Suc)
      ultimately show ?thesis by (simp only: dropWhile.simps if_False)
    qed simp
    then show ?thesis using stop di less.prems by simp
  qed
qed

text \<open>The copying loop on the characters from position \<open>i\<close> on.\<close>

definition copied :: "u8 list \<Rightarrow> u8 list \<Rightarrow> (u8 list \<times> nat) option" where
  "copied pre w =
     (let name = takeWhile (\<lambda>c. c \<noteq> 0x20) w; rest = dropWhile (\<lambda>c. c \<noteq> 0x20) w;
          args = dropWhile (\<lambda>c. c = 0x20) rest; j = length pre + length name
      in if rest = [] then
           if j \<le> 128 then Some (pre @ name @ replicate (128 - j) 0, j) else None
         else if j + length args + 2 \<le> 128
           then Some (pre @ name @ 0x20 # args @ replicate (127 - j - length args) 0, j) else None)"

lemma copied_Cons: "c \<noteq> 0x20 \<Longrightarrow> copied (pre @ [c]) w = copied pre (c # w)"
  by (simp add: copied_def Let_def del: dropWhile_eq_Nil_conv)

lemma copy_command_copied:
  assumes "cstr m a u" "i \<le> length u" "length pre \<le> 128"
  shows "copy_command m a i (length u) (length pre) (pre @ replicate (128 - length pre) 0) = copied pre (drop i u)"
  using assms(2,3)
proof (induction "length u - i" arbitrary: i pre rule: less_induct)
  case less
  let ?j = "length pre" and ?cmd = "pre @ replicate (128 - length pre) 0"
  show ?case
  proof (cases "i < length u")
    case False
    then show ?thesis using less.prems by (subst copy_command.simps) (simp add: copied_def Let_def)
  next
    case True
    have di: "drop i u = u ! i # drop (Suc i) u" using True by (rule Cons_nth_drop_Suc [symmetric])
    have mi: "m (a + of_nat i) = u ! i" using cstr_nth [OF assms(1) True] .
    show ?thesis
    proof (cases "128 \<le> ?j")
      case full: True
      then show ?thesis using True less.prems di
        by (subst copy_command.simps) (auto simp: copied_def Let_def)
    next
      case room: False
      show ?thesis
      proof (cases "u ! i = 0x20")
        case space: True
        let ?k = "skip_spaces m a i (length u)"
        note skip = skip_spaces_drop [OF assms(1) True space]
        have rest: "bytes_at m (a + of_nat ?k) (length u - ?k + 1) =
            0x20 # dropWhile (\<lambda>c. c = 0x20) (drop i u) @ [0]"
          using bytes_at_suffix [OF assms(1), of ?k] skip by simp
        let ?args = "dropWhile (\<lambda>c. c = 0x20) (drop i u)"
        have "copy_command m a i (length u) ?j ?cmd =
            (if ?j + (length ?args + 2) \<le> 128
             then Some (take ?j ?cmd @ (0x20 # ?args @ [0]) @ drop (?j + (length ?args + 2)) ?cmd, ?j) else None)"
          using True room mi space unfolding copy_command.simps [of m a i] Let_def rest
          by simp
        moreover have "replicate (127 - ?j - length ?args) (0 :: u8) = 0 # replicate (126 - ?j - length ?args) 0"
          if "?j + (length ?args + 2) \<le> 128"
        proof -
          have "127 - ?j - length ?args = Suc (126 - ?j - length ?args)" using that by simp
          then show ?thesis by (simp only: replicate_Suc)
        qed
        moreover have "takeWhile (\<lambda>c. c \<noteq> 0x20) (drop i u) = []" "dropWhile (\<lambda>c. c \<noteq> 0x20) (drop i u) = drop i u"
          using di space by simp_all
        ultimately show ?thesis using di by (simp add: copied_def Let_def)
      next
        case char: False
        have "copy_command m a i (length u) ?j ?cmd =
            copy_command m a (i + 1) (length u) (?j + 1) (?cmd[?j := u ! i])"
          using True room mi char by (subst copy_command.simps) simp
        moreover have "?cmd[?j := u ! i] = (pre @ [u ! i]) @ replicate (128 - length (pre @ [u ! i])) 0"
        proof -
          have "128 - ?j = Suc (128 - (?j + 1))" using room by simp
          then show ?thesis by (simp add: list_update_append)
        qed
        ultimately have "copy_command m a i (length u) ?j ?cmd = copied (pre @ [u ! i]) (drop (i + 1) u)"
          using less.hyps [of "i + 1" "pre @ [u ! i]"] True room by simp
        also have "\<dots> = copied pre (drop i u)" using copied_Cons [OF char] di by simp
        finally show ?thesis .
      qed
    qed
  qed
qed

text \<open>The buffer that a command line is parsed into: name, NUL, arguments, NULs.\<close>

definition command_buffer :: "u8 list \<Rightarrow> u8 list \<Rightarrow> u8 list" where
  "command_buffer name args = name @ 0 # args @ replicate (127 - length name - length args) 0"

definition command_fits :: "u8 list \<Rightarrow> bool" where
  "command_fits u \<longleftrightarrow>
     (let v = dropWhile (\<lambda>c. c = 0x20) u; (name, args) = split_command u
      in if 0x20 \<in> set v then length name + length args + 2 \<le> 128 else length name + 1 \<le> 128)"

lemma no_space_split:
  "0x20 \<notin> set v \<Longrightarrow> takeWhile (\<lambda>c. c \<noteq> (0x20 :: u8)) v = v \<and> dropWhile (\<lambda>c. c \<noteq> (0x20 :: u8)) v = []"
  by (auto simp: takeWhile_eq_all_conv)

lemma read_command_buffer:
  assumes "cstr m a u"
  shows "read_command m a =
    (if command_fits u then Some (command_buffer (fst (split_command u)) (snd (split_command u))) else None)"
proof -
  let ?sp = "length (takeWhile (\<lambda>c. c = 0x20) u)" and ?v = "dropWhile (\<lambda>c. c = 0x20) u"
  have len: "strlen m a = Some (of_nat (length u))" using assms by (rule strlen_cstr)
  have sp: "strnonspace m a = Some (of_nat ?sp)" using assms by (rule strnonspace_cstr)
  have le: "?sp \<le> length u" by (rule length_takeWhile_le)
  have un: "unat (of_nat (length u) :: u32) = length u" "unat (of_nat ?sp :: u32) = ?sp"
    using cstr_length [OF assms] le by (simp_all del: of_nat_unat_id)
  have v: "drop ?sp u = ?v" by (simp add: dropWhile_eq_drop)
  have copy: "copy_command m a ?sp (length u) 0 (replicate 128 0) = copied [] ?v"
    using copy_command_copied [OF assms le, of "[]"] unfolding v by simp
  have "read_command m a = Option.bind (copied [] ?v) (\<lambda>(cmd, j). if j < 128 then Some (cmd[j := 0]) else None)"
    unfolding read_command_def sp len Option.bind.simps un copy ..
  also have "\<dots> = (if command_fits u then Some (command_buffer (fst (split_command u)) (snd (split_command u))) else None)"
  proof (cases "0x20 \<in> set ?v")
    case True
    then have "dropWhile (\<lambda>c. c \<noteq> 0x20) ?v \<noteq> []" by (simp add: dropWhile_eq_Nil_conv)
    with True show ?thesis
      by (simp add: copied_def Let_def command_fits_def split_command_def command_buffer_def list_update_append
          del: dropWhile_eq_Nil_conv)
  next
    case False
    note split = no_space_split [OF False]
    have copied: "copied [] ?v = (if length ?v \<le> 128 then Some (?v @ replicate (128 - length ?v) 0, length ?v) else None)"
      unfolding copied_def Let_def by (simp only: split) simp
    have names: "split_command u = (?v, [])" unfolding split_command_def Let_def by (simp only: split) simp
    show ?thesis
    proof (cases "length ?v \<le> 127")
      case True
      then have "128 - length ?v = Suc (127 - length ?v)" by simp
      then have "(?v @ replicate (128 - length ?v) 0)[length ?v := 0] = command_buffer ?v []"
        by (simp only: replicate_Suc command_buffer_def list_update_length) simp
      with True False show ?thesis by (simp add: copied names command_fits_def)
    qed (use False in \<open>simp add: copied names command_fits_def\<close>)
  qed
  finally show ?thesis .
qed

subsection \<open>Operations that change memory only\<close>

definition only_memory :: "'a machine_scheme \<Rightarrow> 'a machine_scheme \<Rightarrow> bool" where
  "only_memory s s' \<longleftrightarrow> s' = s\<lparr>memory := memory s'\<rparr>"

lemma only_memory_refl [simp]: "only_memory s s"
  by (simp add: only_memory_def)

lemma only_memory_upd [simp]: "only_memory s (s\<lparr>memory := m\<rparr>)"
  by (simp add: only_memory_def)

lemma only_memory_trans: "only_memory s s1 \<Longrightarrow> only_memory s1 s2 \<Longrightarrow> only_memory s s2"
  unfolding only_memory_def by (metis machine.surjective machine.update_convs(3))

lemma only_memory_put_byte: "put_byte a b s = Some s' \<Longrightarrow> only_memory s s'"
  by (auto simp: put_byte_def)

lemma only_memory_put_bytes: "put_bytes a bs s = Some s' \<Longrightarrow> only_memory s s'"
proof (induction bs arbitrary: a s)
  case (Cons b bs)
  then obtain s1 where "put_byte a b s = Some s1" "put_bytes (a + 1) bs s1 = Some s'"
    by (auto simp: bind_eq_Some_conv)
  with Cons.IH show ?case using only_memory_put_byte only_memory_trans by blast
qed simp

lemma only_memory_copy: "copy_object d a n s = Some s' \<Longrightarrow> only_memory s s'"
  by (auto simp: copy_object_def split: if_split_asm intro: only_memory_put_bytes)

lemma only_memory_read_loop:
  "read_data_loop d i off buf len reads idx boff s = Some (s', r) \<Longrightarrow> only_memory s s'"
proof (induction d i off buf len reads idx boff s rule: read_data_loop.induct)
  case (1 d i off buf len reads idx boff s)
  show ?case
  proof (cases "reads < len")
    case False
    then show ?thesis using 1(3) by (subst (asm) read_data_loop.simps) simp
  next
    case True
    then obtain b where b: "inode_data (vmem s) (bootblk s) i idx = Some b"
      using 1(3) by (subst (asm) read_data_loop.simps) (auto simp: bind_eq_Some_conv)
    show ?thesis
    proof (cases "of_int reads + off \<ge> inode_size (vmem s) (bootblk s) i")
      case past: True
      then show ?thesis using 1(3) True b by (subst (asm) read_data_loop.simps) simp
    next
      case more: False
      let ?v = "vmem s (d + b * FS_BLK_SIZE + boff)"
      obtain s1 where s1: "put_byte (buf + of_int reads) ?v s = Some s1"
        using 1(3) True b more by (subst (asm) read_data_loop.simps) (auto simp: bind_eq_Some_conv)
      have one: "only_memory s s1" using s1 by (rule only_memory_put_byte)
      show ?thesis
      proof (cases "boff + 1 \<ge> FS_BLK_SIZE")
        case boundary: True
        then obtain nb where nb: "inode_data (vmem s1) (bootblk s1) i (idx + 1) = Some nb"
          using 1(3) True b more s1 by (subst (asm) read_data_loop.simps) (auto simp: bind_eq_Some_conv)
        show ?thesis
        proof (cases "nb \<ge> datablk_cnt (vmem s1) (bootblk s1)")
          case True
          then show ?thesis using 1(3) \<open>reads < len\<close> b more s1 boundary nb one
            by (subst (asm) read_data_loop.simps) simp
        next
          case False
          then have "read_data_loop d i off buf len (reads + 1) (idx + 1) 0 s1 = Some (s', r)"
            using 1(3) True b more s1 boundary nb by (subst (asm) read_data_loop.simps) simp
          with 1(1) [OF True b more s1 boundary nb False] one show ?thesis using only_memory_trans by blast
        qed
      next
        case inside: False
        then have "read_data_loop d i off buf len (reads + 1) idx (boff + 1) s1 = Some (s', r)"
          using 1(3) True b more s1 by (subst (asm) read_data_loop.simps) simp
        with 1(2) [OF True b more s1 inside] one show ?thesis using only_memory_trans by blast
      qed
    qed
  qed
qed

lemma only_memory_read_data: "read_data i off buf len s = Some (s', r) \<Longrightarrow> only_memory s s'"
  by (auto simp: read_data_def Let_def bind_eq_Some_conv split: if_split_asm intro: only_memory_read_loop)

lemma only_memory_read_name: "file_read_name fname buf off sz s = Some (s', r) \<Longrightarrow> only_memory s s'"
  by (auto simp: file_read_name_def Let_def bind_eq_Some_conv split: if_split_asm option.split_asm
      intro: only_memory_read_data)

lemma only_memory_fields:
  assumes "only_memory s s'"
  shows "procs s' = procs s" "running_pid s' = running_pid s" "pcbs s' = pcbs s" "cr3 s' = cr3 s"
    "same_tables s' s" "int_flag s' = int_flag s" "bootblk s' = bootblk s"
    "program_exception s' = program_exception s"
proof -
  obtain m where s': "s' = s\<lparr>memory := m\<rparr>" using assms unfolding only_memory_def by blast
  show "procs s' = procs s" "running_pid s' = running_pid s" "pcbs s' = pcbs s" "cr3 s' = cr3 s"
    "same_tables s' s" "int_flag s' = int_flag s" "bootblk s' = bootblk s"
    "program_exception s' = program_exception s" by (simp_all add: s' same_tables_def)
qed

lemma only_memory_terms:
  assumes "only_memory s (s' :: 'a terms_scheme)"
  shows "terminals s' = terminals s" "current_terminal s' = current_terminal s"
proof -
  obtain m where s': "s' = s\<lparr>memory := m\<rparr>" using assms unfolding only_memory_def by blast
  show "terminals s' = terminals s" "current_terminal s' = current_terminal s" by (simp_all add: s')
qed

subsection \<open>How a start ends\<close>

lemma new_terminal_keeps:
  assumes "new_terminal p s = (s', t)"
  shows "pcbs s' = pcbs s" "running_pid s' = running_pid s" "procs s' = procs s" "cr3 s' = cr3 s"
    "memory s' = memory s" "int_flag s' = int_flag s" "current_terminal s' = current_terminal s"
    "same_tables s' s"
  using assms by (auto simp: new_terminal_def update_terminal_def same_tables_def split: option.splits)

text \<open>Everything about the new block but its links.\<close>

definition fresh_block :: "exec_frame \<Rightarrow> u8 \<Rightarrow> u8 list \<Rightarrow> pcb \<Rightarrow> bool" where
  "fresh_block frame p cmd b \<longleftrightarrow> fds b = std_fds \<and> raw_argv b = cmd \<and> argv0 b = Some 0 \<and>
     argv1 b = Some (list_strlen cmd + 1) \<and> pid b = ucast p \<and> parent_ksp b = frame_esp frame \<and>
     parent_kbp b = frame_ebp frame"

text \<open>Its links: the first process of a terminal has no parent, any other hangs below its starter.\<close>

definition linked :: "u8 \<Rightarrow> u8 \<Rightarrow> 'a process_scheme \<Rightarrow> bool" where
  "linked p parent s \<longleftrightarrow> (parent_pid (pcbs s p) = - 1 \<and> parent_pcb (pcbs s p) = None) \<or>
     (parent_pid (pcbs s p) = sint (pid (pcbs s parent)) \<and> parent_pcb (pcbs s p) = Some parent \<and>
      child_pcb (pcbs s parent) = Some p)"

lemma same_tables_sym: "same_tables s t \<Longrightarrow> same_tables t s"
  by (simp add: same_tables_def)

lemma terminal_for_new_keeps:
  assumes "terminal_for_new s = (s', t)"
  shows "pcbs s' = pcbs s" "running_pid s' = running_pid s" "procs s' = procs s" "cr3 s' = cr3 s"
    "memory s' = memory s" "int_flag s' = int_flag s" "current_terminal s' = current_terminal s"
    "same_tables s' s"
  using assms new_terminal_keeps [of "ucast (running_pid s)" s s' t]
  by (auto simp: terminal_for_new_def same_tables_def split: if_split_asm)

lemma update_pcb_frame [simp]:
  "running_pid (update_pcb p f s) = running_pid s" "procs (update_pcb p f s) = procs s"
  "cr3 (update_pcb p f s) = cr3 s" "memory (update_pcb p f s) = memory s"
  "int_flag (update_pcb p f s) = int_flag s" "same_tables (update_pcb p f s) s' = same_tables s s'"
  "pcbs (update_pcb p f s) q = (if q = p then f (pcbs s p) else pcbs s q)"
  "terminals (update_pcb p f t) = terminals t" "current_terminal (update_pcb p f t) = current_terminal t"
  "screen_x (update_pcb p f t) = screen_x t" "screen_y (update_pcb p f t) = screen_y t"
  by (simp_all add: update_pcb_def same_tables_def)

lemma fill_block_frame [simp]:
  "running_pid (fill_block frame s) = running_pid s" "procs (fill_block frame s) = procs s"
  "cr3 (fill_block frame s) = cr3 s" "memory (fill_block frame s) = memory s"
  "int_flag (fill_block frame s) = int_flag s" "same_tables (fill_block frame s) s' = same_tables s s'"
  "terminals (fill_block frame t) = terminals t" "current_terminal (fill_block frame t) = current_terminal t"
  "q \<noteq> running_pid s \<Longrightarrow> pcbs (fill_block frame s) q = pcbs s q"
  by (simp_all add: fill_block_def Let_def)

lemma fresh_fill_block:
  "fresh_block frame (running_pid s) (bytes_at (vmem s) (cmd_at frame) 128) (pcbs (fill_block frame s) (running_pid s))"
  by (simp add: fill_block_def Let_def fresh_block_def)

lemma link_block_frame [simp]:
  "running_pid (link_block q t s) = running_pid s" "procs (link_block q t s) = procs s"
  "cr3 (link_block q t s) = cr3 s" "memory (link_block q t s) = memory s"
  "int_flag (link_block q t s) = int_flag s" "same_tables (link_block q t s) s' = same_tables s s'"
  "terminals (link_block q t s) = terminals s" "current_terminal (link_block q t s) = current_terminal s"
  "r \<noteq> running_pid s \<Longrightarrow> r \<noteq> q \<Longrightarrow> pcbs (link_block q t s) r = pcbs s r"
  by (simp_all add: link_block_def Let_def)

lemma link_block_links: "linked (running_pid s) q (link_block q t s)"
  by (simp add: link_block_def Let_def linked_def)

lemma fresh_link_block:
  "fresh_block frame p cmd (pcbs s r) \<Longrightarrow> fresh_block frame p cmd (pcbs (link_block q t s) r)"
  by (auto simp: link_block_def Let_def fresh_block_def)

lemma setup_pcb_result:
  assumes "setup_pcb frame parent s = Some s'"
  defines "p \<equiv> running_pid s"
  shows "running_pid s' = p" "procs s' = procs s" "cr3 s' = cr3 s" "memory s' = memory s"
    "int_flag s' = int_flag s" "tss_esp0 s' = kernel_stack (ucast p)" "same_tables s' s"
    "fresh_block frame p (bytes_at (vmem s) (cmd_at frame) 128) (pcbs s' p)" "linked p parent s'"
    "current_terminal s' = current_terminal s"
    "\<And>q. q \<noteq> p \<Longrightarrow> q \<noteq> parent \<Longrightarrow> pcbs s' q = pcbs s q"
proof -
  obtain s2 t where tm: "terminal_for_new (fill_block frame s) = (s2, Some t)"
    and s': "s' = (link_block parent t s2)\<lparr>tss_esp0 := kernel_stack (ucast (running_pid s2))\<rparr>"
    using assms(1) by (auto simp: setup_pcb_def split: prod.split_asm option.split_asm)
  note keeps = terminal_for_new_keeps [OF tm]
  have run: "running_pid s2 = p" using keeps by (simp add: p_def)
  show "running_pid s' = p" "procs s' = procs s" "cr3 s' = cr3 s" "memory s' = memory s"
    "int_flag s' = int_flag s" "tss_esp0 s' = kernel_stack (ucast p)" "current_terminal s' = current_terminal s"
    using keeps run by (simp_all add: s')
  have "same_tables (link_block parent t s2) s"
    using same_tables_sym [OF keeps(8)] by (simp add: same_tables_sym)
  then show "same_tables s' s" by (simp add: s' same_tables_def)
  have "fresh_block frame p (bytes_at (vmem s) (cmd_at frame) 128) (pcbs s2 p)"
    using fresh_fill_block [of frame s] keeps(1) by (simp add: p_def)
  then show "fresh_block frame p (bytes_at (vmem s) (cmd_at frame) 128) (pcbs s' p)"
    using fresh_link_block by (simp add: s')
  show "linked p parent s'" using link_block_links [of s2 parent t] run by (simp add: s' linked_def)
  show "pcbs s' q = pcbs s q" if "q \<noteq> p" "q \<noteq> parent" for q
    using that keeps(1) run by (simp add: s' p_def)
qed

lemma make_task_pgdir_keeps:
  assumes "make_task_pgdir p s = (s', r)"
  shows "procs s' = procs s" "running_pid s' = running_pid s" "pcbs s' = pcbs s" "int_flag s' = int_flag s"
    "memory s' = memory s" "r = 0 \<Longrightarrow> cr3 s' = unat p"
  using assms by (auto simp: make_task_pgdir_def Let_def simp del: upt_rec_numeral split: if_split_asm)

text \<open>A started process: the state in which user code is entered.\<close>

definition started :: "exec_frame \<Rightarrow> u8 \<Rightarrow> 'a process_scheme \<Rightarrow> bool" where
  "started frame parent s \<longleftrightarrow> int_flag s \<and> cr3 s = unat (running_pid s) \<and>
     tss_esp0 s = kernel_stack (ucast (running_pid s)) \<and> linked (running_pid s) parent s \<and>
     (\<exists>cmd. fresh_block frame (running_pid s) cmd (pcbs s (running_pid s)))"

lemma start_process_outcome:
  assumes "start_process frame parent s = Some r"
  shows "(\<exists>s'. r = Return s' (- 1) \<and> int_flag s' \<and> procs s' = procs s \<and> running_pid s' = running_pid s) \<or>
    (\<exists>s' e. r = Enter_user s' e \<and> procs s' = procs s \<and> running_pid s' = running_pid s \<and> started frame parent s' \<and>
      (\<forall>q. q \<noteq> running_pid s \<longrightarrow> q \<noteq> parent \<longrightarrow> pcbs s' q = pcbs s q))"
proof -
  have sti: "procs (sti x) = procs x" "running_pid (sti x) = running_pid x" for x :: "'a terms_scheme"
    by (simp_all add: sti_def)
  obtain s1 n where name: "file_read_name (cmd_at frame) (entry_at frame) ENTRY_POINT_OFFSET 4 s = Some (s1, n)"
    using assms unfolding start_process_def bind_eq_Some_conv by fast
  note f1 = only_memory_fields [OF only_memory_read_name [OF name]]
  show ?thesis
  proof (cases "n = 4")
    case False
    then have "r = Return (sti s1) (- 1)" using assms name by (simp add: start_process_def)
    then show ?thesis using f1 sti [of s1] by simp
  next
    case four: True
    obtain s2 k where dir: "make_task_pgdir (running_pid s1) s1 = (s2, k)" by fastforce
    note f2 = make_task_pgdir_keeps [OF dir]
    show ?thesis
    proof (cases "k = 0")
      case False
      then have "r = Return (sti s2) (- 1)" using assms name four dir by (simp add: start_process_def)
      then show ?thesis using f1 f2 sti [of s2] by simp
    next
      case zero: True
      obtain s3 l where load: "file_read_name (cmd_at frame) LOAD_ADDR 0 0 s2 = Some (s3, l)"
        using assms name four dir zero by (auto simp: start_process_def bind_eq_Some_conv)
      note f3 = only_memory_fields [OF only_memory_read_name [OF load]]
      show ?thesis
      proof (cases "l = - 1")
        case True
        then have "r = Return (sti s3) (- 1)" using assms name four dir zero load by (simp add: start_process_def)
        then show ?thesis using f1 f2 f3 sti [of s3] by simp
      next
        case False
        then obtain s4 where s4: "setup_pcb frame parent s3 = Some s4"
          and r: "r = Enter_user (sti s4) (load32 (vmem s4) (entry_at frame))"
          using assms name four dir zero load by (auto simp: start_process_def split: if_split_asm)
        note f4 = setup_pcb_result [OF s4]
        have run: "running_pid s3 = running_pid s" using f1 f2 f3 by simp
        have "started frame parent (sti s4)"
          unfolding started_def using f1 f2(6) [OF zero] f2 f3 f4 run by (auto simp: sti_def linked_def)
        moreover have "pcbs (sti s4) q = pcbs s q" if "q \<noteq> running_pid s" "q \<noteq> parent" for q
          using f4(11) [of q] that run f1 f2 f3 by (simp add: sti_def)
        ultimately show ?thesis using r sti [of s4] f1 f2 f3 f4 by simp
      qed
    qed
  qed
qed

lemma execute_outcome:
  assumes "execute frame ucmd s = Some r"
  obtains (refused) s' where "r = Return s' (- 1)" "int_flag s'" "procs s' = procs s" "running_pid s' = running_pid s"
  | (leaked) s' where "r = Return s' (- 1)" "int_flag s'" "alloc_pid (procs s) = Some (procs s', running_pid s')"
  | (entered) s' e where "r = Enter_user s' e" "alloc_pid (procs s) = Some (procs s', running_pid s')"
      "started frame (running_pid s) s'"
      "\<And>q. q \<noteq> running_pid s' \<Longrightarrow> q \<noteq> running_pid s \<Longrightarrow> pcbs s' q = pcbs s q"
proof -
  have sti: "procs (sti x) = procs x" "running_pid (sti x) = running_pid x" for x :: "'a terms_scheme"
    by (simp_all add: sti_def)
  have cli: "procs (cli s) = procs s" "running_pid (cli s) = running_pid s" "pcbs (cli s) = pcbs s" by (simp_all add: cli_def)
  show thesis
  proof (cases "ucmd = 0")
    case True
    then have "r = Return (sti (cli s)) (- 1)" using assms by (simp add: execute_def Let_def)
    then show thesis using refused cli sti [of "cli s"] by simp
  next
    case False
    let ?s = "cli s"
    obtain cmd s1 d where s1: "put_bytes (cmd_at frame) cmd ?s = Some s1"
      and d: "read_dentry_by_name (cmd_at frame) s1 = Some d"
      and rest: "(case d of None \<Rightarrow> Some (Return (sti s1) (- 1))
        | Some d \<Rightarrow>
            Option.bind (read_data (inode_idx d) 0 (header_at frame) ELF_HEADER_SIZE s1) (\<lambda>(s, n).
              if n \<noteq> 4 then Some (Return (sti s) (- 1))
              else if bytes_at (vmem s) (header_at frame) 4 \<noteq> elf_header then Some (Return (sti s) (- 1))
              else case alloc_pid (procs s) of
                None \<Rightarrow> Some (Return (sti s) (- 1))
              | Some (used, p) \<Rightarrow> start_process frame (running_pid ?s) (s\<lparr>procs := used, running_pid := p\<rparr>))) = Some r"
      using assms False unfolding execute_def Let_def
      by (auto simp: bind_eq_Some_conv simp del: not_None_eq split: if_split_asm)
    note f1 = only_memory_fields [OF only_memory_put_bytes [OF s1]]
    show thesis
    proof (cases d)
      case None
      then show thesis using rest refused [of "sti s1"] f1 cli sti [of s1] by simp
    next
      case (Some d)
      then obtain s2 n where hd: "read_data (inode_idx d) 0 (header_at frame) ELF_HEADER_SIZE s1 = Some (s2, n)"
        using rest by (auto simp: bind_eq_Some_conv)
      note f2 = only_memory_fields [OF only_memory_read_data [OF hd]]
      show thesis
      proof (cases "n = 4 \<and> bytes_at (vmem s2) (header_at frame) 4 = elf_header \<and> alloc_pid (procs s2) \<noteq> None")
        case False
        then have "r = Return (sti s2) (- 1)" using rest Some hd by (auto split: if_split_asm option.split_asm)
        then show thesis using refused [of "sti s2"] f1 f2 cli sti [of s2] by simp
      next
        case True
        then obtain used p where al: "alloc_pid (procs s2) = Some (used, p)" by auto
        then have "start_process frame (running_pid s) (s2\<lparr>procs := used, running_pid := p\<rparr>) = Some r"
          using rest Some hd True cli by simp
        from start_process_outcome [OF this] show thesis
          using leaked entered al f1 f2 cli by auto
      qed
    qed
  qed
qed

subsection \<open>How an end ends\<close>

lemma unat_ucast8: "unat (ucast (q :: u8) :: u32) = unat q"
  by transfer simp

lemma uint_not_minus_one [simp]: "uint (q :: u8) \<noteq> - 1"
proof
  assume "uint q = - 1"
  then have "uint q < 0" by simp
  then show False by simp
qed

lemma of_int_unat8: "of_int (int (unat (q :: u8))) = (ucast q :: u32)"
  by transfer simp

text \<open>Blocks that differ in their descriptors only.\<close>

lemma sys_close_keeps:
  fixes s :: "'a terms_scheme"
  shows "running_pid (fst (sys_close i s)) = running_pid s" "procs (fst (sys_close i s)) = procs s"
    "program_exception (fst (sys_close i s)) = program_exception s" "terminals (fst (sys_close i s)) = terminals s"
    "q \<noteq> running_pid s \<Longrightarrow> pcbs (fst (sys_close i s)) q = pcbs s q"
    "memory (fst (sys_close i s)) = memory s" "screen_x (fst (sys_close i s)) = screen_x s"
    "screen_y (fst (sys_close i s)) = screen_y s"
    "\<exists>f. pcbs (fst (sys_close i s)) (running_pid s) = (pcbs s (running_pid s))\<lparr>fds := f\<rparr>"
proof -
  have "b = b\<lparr>fds := fds b\<rparr>" for b :: pcb by simp
  then show "\<exists>f. pcbs (fst (sys_close i s)) (running_pid s) = (pcbs s (running_pid s))\<lparr>fds := f\<rparr>"
    unfolding sys_close_def update_fd_def update_pcb_def by (simp, metis)
qed (auto simp: sys_close_def update_fd_def update_pcb_def)

lemma close_all_keeps:
  fixes s :: "'a terms_scheme" and xs :: "nat list"
  defines "s' \<equiv> fold (\<lambda>i s. fst (sys_close (int i) s)) xs s"
  shows "running_pid s' = running_pid s \<and> procs s' = procs s \<and> program_exception s' = program_exception s \<and>
    terminals s' = terminals s \<and> (\<forall>q. q \<noteq> running_pid s \<longrightarrow> pcbs s' q = pcbs s q) \<and>
    memory s' = memory s \<and> screen_x s' = screen_x s \<and> screen_y s' = screen_y s \<and>
    (\<exists>f. pcbs s' (running_pid s) = (pcbs s (running_pid s))\<lparr>fds := f\<rparr>)"
  unfolding s'_def
proof (induction xs arbitrary: s)
  case Nil
  have "b = b\<lparr>fds := fds b\<rparr>" for b :: pcb by simp
  then show ?case by (simp, metis)
next
  case (Cons i xs)
  note step = sys_close_keeps [where i = "int i" and s = s]
  obtain f where "pcbs (fst (sys_close (int i) s)) (running_pid s) = (pcbs s (running_pid s))\<lparr>fds := f\<rparr>"
    using step(9) by blast
  then show ?case using Cons.IH [of "fst (sys_close (int i) s)"] step(1-8) by auto
qed

lemma halt_to_parent_result:
  assumes ids: "unat p < 8" "unat q < 8" "p \<noteq> q"
    and run: "running_pid s = p" and pcb: "pid (pcbs s p) = ucast p" "parent_pid (pcbs s p) = int (unat q)"
    and par: "pid (pcbs s q) = ucast q"
  shows "\<exists>s'. halt_to_parent stat (Some t) s = Some (Resume s' (parent_ksp (pcbs s p)) (parent_kbp (pcbs s p))
      (if program_exception s \<noteq> 0 then PROCESS_KILLED_BY_EXCEPTION else ucast stat)) \<and>
    running_pid s' = q \<and> procs s' = procs s \<and> cr3 s' = unat q \<and> program_exception s' = 0 \<and>
    tss_esp0 s' = kernel_stack (ucast q) \<and> child_pcb (pcbs s' q) = child_pcb (pcbs s q) \<and>
    memory s' = memory s \<and> screen_x s' = screen_x s \<and> screen_y s' = screen_y s"
proof -
  have of_q: "of_int (int (unat q)) = (ucast q :: u32)" "of_int (int (unat q)) = q"
    by (rule of_int_unat8) simp
  have small: "\<not> NUM_PROC \<le> p" "\<not> (8 :: u32) \<le> ucast q" "unat (ucast q :: u32) = unat q"
    using ids unat_ucast8 [of q] by (simp_all add: word_le_nat_alt)
  let ?r = "if program_exception s \<noteq> 0 then PROCESS_KILLED_BY_EXCEPTION else ucast stat"
  let ?s1 = "(set_program_exception 0 (update_pcb p (\<lambda>x. x\<lparr>child_return := ?r\<rparr>) s))
    \<lparr>tss_esp0 := kernel_stack (ucast q), running_pid := q\<rparr>"
  let ?d = "(pgdir ?s1 (unat p))(ELF_LOAD_PG := pgdir ?s1 (unat p) ELF_LOAD_PG AND NOT PG_PRESENT)"
  let ?s2 = "?s1\<lparr>pgdir := (pgdir ?s1)(unat p := ?d), cr3 := unat p\<rparr>"
  have remove: "remove_task_pgdir (ucast (pid (pcbs ?s1 p))) ?s1 = Some (?s2, 0)"
    using pcb small by (simp add: remove_task_pgdir_def set_program_exception_def Let_def)
  have flush: "flush_tlb ?s2 = Some (?s2\<lparr>cr3 := unat q\<rparr>)"
    using par small ids(3) by (simp add: flush_tlb_def get_current_pcb_def set_program_exception_def Let_def)
  let ?s3 = "update_terminal t (\<lambda>x. x\<lparr>vidmapped := 0\<rparr>) (?s2\<lparr>cr3 := unat q\<rparr>)"
  have block: "parent_pid (pcbs (set_program_exception 0 (update_pcb p (\<lambda>x. x\<lparr>child_return := ?r\<rparr>) s)) p) = int (unat q)"
    using pcb by (simp add: set_program_exception_def)
  have "halt_to_parent stat (Some t) s = Some (Resume ?s3 (parent_ksp (pcbs ?s3 p)) (parent_kbp (pcbs ?s3 p))
      (child_return (pcbs ?s3 p)))"
    unfolding halt_to_parent_def Let_def run block of_q remove Option.bind.simps prod.case flush option.case ..
  moreover have "pcbs ?s3 = (pcbs s)(p := (pcbs s p)\<lparr>child_return := ?r\<rparr>)"
    by (simp add: set_program_exception_def update_pcb_def)
  ultimately show ?thesis using ids(3)
    by (intro exI [of _ ?s3]) (simp add: set_program_exception_def update_terminal_def)
qed

lemma halt_result:
  assumes ids: "unat (running_pid s) < 8" "unat q < 8" "running_pid s \<noteq> q"
    and pcb: "pid (get_current_pcb s) = ucast (running_pid s)" "parent_pid (get_current_pcb s) = int (unat q)"
      "parent_pcb (get_current_pcb s) = Some q" and par: "pid (pcbs s q) = ucast q"
    and on: "runs_on s (running_pid s) t"
  shows "\<exists>s'. halt frame stat s = Some (Resume s' (parent_ksp (get_current_pcb s)) (parent_kbp (get_current_pcb s))
      (if program_exception s \<noteq> 0 then PROCESS_KILLED_BY_EXCEPTION else ucast stat)) \<and>
    running_pid s' = q \<and> procs s' = free_pid (ucast (running_pid s)) (procs s) \<and> cr3 s' = unat q \<and>
    program_exception s' = 0 \<and> tss_esp0 s' = kernel_stack (ucast q) \<and> child_pcb (pcbs s' q) = None \<and>
    memory s' = memory s \<and> screen_x s' = screen_x s \<and> screen_y s' = screen_y s"
proof -
  let ?p = "running_pid s"
  let ?s1 = "update_pcb q (\<lambda>x. x\<lparr>child_pcb := None\<rparr>) s"
  let ?s2 = "close_all ?s1"
  have cur: "get_current_pcb s = pcbs s ?p" by (simp add: get_current_pcb_def)
  have keeps: "running_pid ?s2 = ?p" "procs ?s2 = procs s" "program_exception ?s2 = program_exception s"
    "terminals ?s2 = terminals s" "pcbs ?s2 r = pcbs ?s1 r" "memory ?s2 = memory s"
    "screen_x ?s2 = screen_x s" "screen_y ?s2 = screen_y s" if "r \<noteq> ?p" for r
    using close_all_keeps [of "[0..<8]" ?s1] that
    by (simp_all add: close_all_def del: upt_rec_numeral) (simp_all add: update_pcb_def)
  obtain f where f: "pcbs ?s2 ?p = (pcbs s ?p)\<lparr>fds := f\<rparr>"
    using close_all_keeps [of "[0..<8]" ?s1] ids(3) by (auto simp: close_all_def simp del: upt_rec_numeral)
  have q: "pcbs ?s2 q = (pcbs s q)\<lparr>child_pcb := None\<rparr>" using keeps(5) [of q] ids(3) by simp
  have "same_links s ?s2" unfolding same_links_def
  proof
    fix r show "pid (pcbs s r) = pid (pcbs ?s2 r) \<and> parent_pid (pcbs s r) = parent_pid (pcbs ?s2 r) \<and>
        parent_pcb (pcbs s r) = parent_pcb (pcbs ?s2 r)"
      using f keeps(5) [of r] by (cases "r = ?p") simp_all
  qed
  from runs_on_links [OF on this] have "runs_on ?s2 (running_pid ?s2) t" using keeps(1,4) ids(3) by metis
  then have get: "get_running_terminal ?s2 = Some (Some t)" by (rule get_running_terminal_runs_on)
  let ?s3 = "?s2\<lparr>procs := free_pid (pid (pcbs ?s2 ?p)) (procs ?s2)\<rparr>"
  have "halt frame stat s = halt_to_parent stat (Some t) ?s3"
    using pcb get f by (simp add: halt_def cur Let_def)
  moreover obtain s' where s': "halt_to_parent stat (Some t) ?s3 = Some (Resume s' (parent_ksp (pcbs ?s3 ?p)) (parent_kbp (pcbs ?s3 ?p))
      (if program_exception ?s3 \<noteq> 0 then PROCESS_KILLED_BY_EXCEPTION else ucast stat))"
    "running_pid s' = q" "procs s' = procs ?s3" "cr3 s' = unat q" "program_exception s' = 0"
    "tss_esp0 s' = kernel_stack (ucast q)" "child_pcb (pcbs s' q) = child_pcb (pcbs ?s3 q)"
    "memory s' = memory ?s3" "screen_x s' = screen_x ?s3" "screen_y s' = screen_y ?s3"
    using halt_to_parent_result [of ?p q ?s3 stat t] ids pcb par f q keeps(1) [of q] cur by auto
  moreover have "pcbs ?s3 = pcbs ?s2" "procs ?s3 = free_pid (ucast ?p) (procs s)"
    "program_exception ?s3 = program_exception s" "memory ?s3 = memory s" "screen_x ?s3 = screen_x s" "screen_y ?s3 = screen_y s"
    using keeps [of q] ids(3) f pcb cur by auto
  ultimately show ?thesis using f q cur by (intro exI [of _ s']) simp
qed

subsection \<open>A new process runs where its parent does\<close>

text \<open>A link to a parent, and what a chain of them does not meet.\<close>

definition below :: "'a process_scheme \<Rightarrow> u8 \<Rightarrow> u8 \<Rightarrow> bool" where
  "below s p q \<longleftrightarrow> parent_pcb (pcbs s p) = Some q"

lemma runs_on_new_child:
  assumes on: "runs_on s parent t" and free: "\<not> (below s)\<^sup>*\<^sup>* parent new"
    and tms: "terminals s' = terminals s"
    and same: "\<And>q. q \<noteq> new \<Longrightarrow> pid (pcbs s' q) = pid (pcbs s q) \<and> parent_pid (pcbs s' q) = parent_pid (pcbs s q) \<and>
      parent_pcb (pcbs s' q) = parent_pcb (pcbs s q)"
  shows "runs_on s' parent t"
proof -
  have look: "get_terminal_from_pid n s' = get_terminal_from_pid n s" for n
    using tms by (rule get_terminal_from_pid_cong)
  from on free show ?thesis
  proof induction
    case (root p t)
    then have "p \<noteq> new" by auto
    then show ?case using root same [of p] look by (intro runs_on.root) simp
  next
    case (child p q t)
    then have "below s p q" by (simp add: below_def)
    then have "p \<noteq> new" "\<not> (below s)\<^sup>*\<^sup>* q new" using child.prems by (auto intro: converse_rtranclp_into_rtranclp)
    moreover have "q \<noteq> new" using calculation(2) by auto
    ultimately show ?case using child same [of p] same [of q] look by (intro runs_on.child [of s' p q]) simp_all
  qed
qed

lemma setup_pcb_runs_on:
  assumes on: "runs_on s parent t" and free: "\<not> (below s)\<^sup>*\<^sup>* parent (running_pid s)"
    and shown: "running (terminal_at (unat (current_terminal s)) s) = 1" "unat (current_terminal s) < 3"
    and fresh: "get_terminal_from_pid (ucast (running_pid s)) s = None"
    and par: "pid (pcbs s parent) = ucast parent"
  shows "\<exists>s'. setup_pcb frame parent s = Some s' \<and> runs_on s' (running_pid s) t \<and>
    parent_pcb (pcbs s' (running_pid s)) = Some parent \<and> child_pcb (pcbs s' parent) = Some (running_pid s)"
proof -
  have ne: "parent \<noteq> running_pid s" using free by auto
  let ?p = "running_pid s" and ?c = "unat (current_terminal s)"
  let ?s1 = "fill_block frame s"
  let ?s' = "(link_block parent ?c ?s1)\<lparr>tss_esp0 := kernel_stack (ucast ?p)\<rparr>"
  have done_setup: "setup_pcb frame parent s = Some ?s'"
    using shown by (simp add: setup_pcb_def terminal_for_new_def terminal_at_def)
  have "term_pid (terminal_at ?c s) \<noteq> ucast ?p" using fresh shown(2) get_terminal_from_pid_None by blast
  then have pp: "(if ucast ?p = term_pid (terminal_at ?c ?s1) then - 1 else sint (pid (pcbs ?s1 parent))) = int (unat parent)"
  proof -
    have "sint (ucast parent :: u32) = int (unat parent)"
    proof -
      have "unat parent < 256" using unsigned_less [of parent] by simp
      then show ?thesis by (simp add: sint32 unat_ucast8)
    qed
    then show ?thesis using \<open>term_pid (terminal_at ?c s) \<noteq> ucast ?p\<close> ne par by (simp add: terminal_at_def)
  qed
  have blocks: "pcbs ?s' ?p = (pcbs ?s1 ?p)\<lparr>child_pcb := None, parent_pid := int (unat parent), parent_pcb := Some parent\<rparr>"
    "pcbs ?s' parent = (pcbs s parent)\<lparr>child_pcb := Some ?p\<rparr>"
    "q \<noteq> ?p \<Longrightarrow> q \<noteq> parent \<Longrightarrow> pcbs ?s' q = pcbs s q" for q
    using ne unfolding link_block_def Let_def fill_block_frame(1) pp by simp_all
  have new: "pid (pcbs ?s1 ?p) = ucast ?p" using fresh_fill_block [of frame s] by (simp add: fresh_block_def)
  have look: "get_terminal_from_pid n ?s' = get_terminal_from_pid n s" for n
    by (rule get_terminal_from_pid_cong) simp
  have "runs_on ?s' parent t"
  proof (rule runs_on_new_child [OF on free])
    show "terminals ?s' = terminals s" by simp
    show "pid (pcbs ?s' q) = pid (pcbs s q) \<and> parent_pid (pcbs ?s' q) = parent_pid (pcbs s q) \<and>
        parent_pcb (pcbs ?s' q) = parent_pcb (pcbs s q)" if "q \<noteq> ?p" for q
      using blocks that by (cases "q = parent") simp_all
  qed
  then have "runs_on ?s' ?p t"
    using blocks new look fresh par ne
    by (intro runs_on.child [of ?s' ?p parent]) (simp_all add: of_int_unat8)
  then show ?thesis using done_setup blocks(1,2) by (intro exI [of _ ?s']) simp
qed

text \<open>With no program on display the new process is the first of the lowest free terminal.\<close>

lemma setup_pcb_new_terminal:
  assumes cur: "running (terminal_at (unat (current_terminal s)) s) = 0" "unat (current_terminal s) < 3"
    and len: "length (terminals s) = 3" and fresh: "get_terminal_from_pid (ucast (running_pid s)) s = None"
  shows "\<exists>s' t. setup_pcb frame parent s = Some s' \<and> t < 3 \<and> running (terminal_at t s) = 0 \<and>
    (\<forall>i<t. running (terminal_at i s) \<noteq> 0) \<and> runs_on s' (running_pid s) t \<and> running (terminal_at t s') = 1 \<and>
    parent_pcb (pcbs s' (running_pid s)) = None"
proof -
  let ?p = "running_pid s" and ?s1 = "fill_block frame s"
  obtain t where t: "List.find (\<lambda>i. running (terminal_at i s) = 0) [0..<3] = Some t" "t < 3"
    "running (terminal_at t s) = 0" "\<forall>i<t. running (terminal_at i s) \<noteq> 0"
    using cur by (cases "List.find (\<lambda>i. running (terminal_at i s) = 0) [0..<3]")
      (auto simp: find_None_iff find_Some_iff)
  let ?s2 = "update_terminal t (\<lambda>x. x\<lparr>term_pid := ucast ?p, running := 1\<rparr>) ?s1"
  let ?s' = "(link_block parent t ?s2)\<lparr>tss_esp0 := kernel_stack (ucast ?p)\<rparr>"
  have at: "terminal_at i ?s1 = terminal_at i s" for i by (simp add: terminal_at_def)
  have done_setup: "setup_pcb frame parent s = Some ?s'"
    using cur(1) t(1) by (simp add: setup_pcb_def terminal_for_new_def new_terminal_def at)
  have at2: "terminal_at i ?s2 = (if i = t then (terminal_at t s)\<lparr>term_pid := ucast ?p, running := 1\<rparr> else terminal_at i s)" for i
    using len t(2) by (simp add: terminal_at_def update_terminal_def nth_list_update)
  have run2: "running_pid ?s2 = ?p" "pcbs ?s2 = pcbs ?s1" by (simp_all add: update_terminal_def)
  have new: "pid (pcbs ?s1 ?p) = ucast ?p" using fresh_fill_block [of frame s] by (simp add: fresh_block_def)
  have blocks: "pid (pcbs ?s' ?p) = ucast ?p" "parent_pcb (pcbs ?s' ?p) = None"
    using new by (simp_all add: link_block_def Let_def run2 at2)
  have look: "term_pid (terminal_at i ?s') = (if i = t then ucast ?p else term_pid (terminal_at i s))" for i
    using at2 [of i] by (simp add: terminal_at_def)
  have "List.find (\<lambda>i. term_pid (terminal_at i ?s') = ucast ?p) [0..<3] = Some t"
  proof -
    have "t = 0 \<or> t = 1 \<or> t = 2" using t(2) by auto
    then show ?thesis using fresh unfolding find_0_2 look get_terminal_from_pid_None by auto
  qed
  then have "runs_on ?s' ?p t" using blocks(1) by (intro runs_on.root) (simp add: get_terminal_from_pid_def)
  moreover have "running (terminal_at t ?s') = 1" using at2 [of t] by (simp add: terminal_at_def)
  ultimately show ?thesis using done_setup t(2-4) blocks(2) by blast
qed

lemma getargs_command:
  assumes "raw_argv (get_current_pcb s) = command_buffer name args" "argv1 (get_current_pcb s) = Some (length name + 1)"
    and "0 \<notin> set args" "length name + length args \<le> 126"
    and "buf \<noteq> 0" "mapped_at s buf (min (length args + 1) n) pa"
  shows "getargs buf (int n) s =
    (if args = [] then Some (s, - 1)
     else Some (s\<lparr>memory := write_bytes (memory s) pa (take n (args @ [0]))\<rparr>, 0))"
proof -
  let ?z = "127 - length name - length args"
  have drop: "drop (length name + 1) (command_buffer name args) = args @ replicate ?z 0"
    by (simp add: command_buffer_def)
  have zeros: "replicate ?z (0 :: u8) = 0 # replicate (?z - 1) 0" "0 < ?z" using assms(4)
    by (simp_all flip: replicate_Suc)
  have take: "takeWhile (\<lambda>c. c \<noteq> 0) (args @ replicate ?z 0) = args"
    using assms(3) unfolding zeros(1) by (subst takeWhile_append2) auto
  have cut: "take (min (length args + 1) n) (args @ replicate ?z 0) = take n (args @ [0])"
  proof -
    have "take (length args + 1) (args @ replicate ?z 0) = args @ [0]" unfolding zeros(1) by simp
    then have "take n (take (length args + 1) (args @ replicate ?z 0)) = take n (args @ [0])" by (simp only:)
    then show ?thesis by (simp only: take_take min.commute)
  qed
  have len: "length (take n (args @ [0])) = min (length args + 1) n" by simp
  have "put_bytes buf (take n (args @ [0])) s = Some (s\<lparr>memory := write_bytes (memory s) pa (take n (args @ [0]))\<rparr>)"
    by (rule put_bytes_mapped) (use assms(4,6) len in simp_all)
  note put = this
  have ok: "\<not> (buf = 0 \<or> int n < 0)" "length args \<noteq> length (args @ replicate ?z (0 :: u8))" using assms(5) zeros(2) by auto
  show ?thesis unfolding getargs_def Let_def assms(1,2) option.case drop take if_not_P [OF ok(1)] if_not_P [OF ok(2)]
      nat_int cut put by simp
qed

definition demo_frame :: exec_frame where
  "demo_frame = \<lparr>cmd_at = 0x500100, header_at = 0x500200, entry_at = 0x500300, frame_esp = 0x7F0000,
     frame_ebp = 0x7F0010, shell_at = 0x500400\<rparr>"

lemma demo_terms_exception [simp]: "program_exception demo_terms = 0"
  by (simp add: demo_terms_def fs.extend_def demo_def init_paging_def Let_def demo_cold_def paging.extend_def
      cold_tables_def del: upt_rec_numeral)

subsection \<open>Properties\<close>

text \<open>
  C28: \<^verbatim>\<open>execute\<close> splits its command into the name, up to the first space, and the
  argument string after the spaces that follow, and stores past its 128-byte buffer exactly
  when the two do not fit with their NULs.
\<close>

theorem command_parsing:
  assumes "cstr m a u"
  shows "read_command m a =
    (if command_fits u then Some (command_buffer (fst (split_command u)) (snd (split_command u))) else None)"
  using assms by (rule read_command_buffer)

lemma command_parsing_witness:
  "read_command (\<lambda>a. if a = 0 then 0x20 else if a = 1 then 0x63 else if a = 2 then 0x20 else
     if a = 3 then 0x20 else if a = 4 then 0x66 else 0) 0 = Some (command_buffer [0x63] [0x66])"
proof -
  let ?m = "\<lambda>a :: u32. if a = 0 then 0x20 else if a = 1 then 0x63 else if a = 2 then 0x20 else
     if a = 3 then 0x20 else if a = 4 then 0x66 else 0 :: u8"
  have "cstr ?m 0 [0x20, 0x63, 0x20, 0x20, 0x66]" by (simp add: cstr_def bytes_at_Suc)
  then show ?thesis using command_parsing [of ?m 0 "[0x20, 0x63, 0x20, 0x20, 0x66]"]
    by (simp add: command_fits_def split_command_def)
qed

text \<open>
  \<^verbatim>\<open>getargs\<close> hands out the argument string that \<^verbatim>\<open>execute\<close> left in the
  block, with its NUL or cut at the size of the buffer, and fails when there is none.
\<close>

theorem getargs_returns_arguments:
  assumes "raw_argv (get_current_pcb s) = command_buffer name args" "argv1 (get_current_pcb s) = Some (length name + 1)"
    and "0 \<notin> set args" "length name + length args \<le> 126"
    and "buf \<noteq> 0" "mapped_at s buf (min (length args + 1) n) pa"
  shows "getargs buf (int n) s =
    (if args = [] then Some (s, - 1)
     else Some (s\<lparr>memory := write_bytes (memory s) pa (take n (args @ [0]))\<rparr>, 0))"
  using getargs_command [OF assms] .

lemma getargs_returns_arguments_witness:
  "\<exists>s :: terms. getargs 0x500000 2 s = Some (s\<lparr>memory := write_bytes demo_image 0x500000 [0x66, 0]\<rparr>, 0)"
proof -
  let ?s = "demo_proc\<lparr>pcbs := (pcbs demo_proc)(2 := (pcbs demo_proc 2)\<lparr>raw_argv := command_buffer [0x63] [0x66],
    argv1 := Some (length [0x63 :: u8] + 1)\<rparr>)\<rparr>"
  have "translate ?s = translate demo"
    using demo_proc_tables by (intro translate_cong) (simp add: same_tables_def)
  then have map: "mapped_at ?s 0x500000 (min (length [0x66 :: u8] + 1) 2) 0x500000"
    using demo_buffer(1) [of 2] by (simp add: mapped_at_def)
  have "getargs 0x500000 (int 2) ?s = Some (?s\<lparr>memory := write_bytes (memory ?s) 0x500000 (take 2 ([0x66] @ [0]))\<rparr>, 0)"
    using getargs_returns_arguments [OF _ _ _ _ _ map, of "[0x63]"] by (simp add: get_current_pcb_def)
  then have "getargs 0x500000 2 ?s = Some (?s\<lparr>memory := write_bytes demo_image 0x500000 [0x66, 0]\<rparr>, 0)" by simp
  then show ?thesis by blast
qed

text \<open>
  C30: A start that fails after a process number was taken does not give it back: the number
  stays marked and stays the running one, so that eight such failures use the numbers up.
\<close>

theorem late_failure_leaks_number:
  assumes "alloc_pid (procs s) = Some (used, p)"
    and "start_process frame parent (s\<lparr>procs := used, running_pid := p\<rparr>) = Some (Return s' r)"
  shows "r = - 1 \<and> used_pids (procs s') = insert (unat p) (used_pids (procs s)) \<and>
    unat p \<notin> used_pids (procs s) \<and> running_pid s' = p"
  using start_process_outcome [OF assms(2)] alloc_pid_Some [OF assms(1)] by auto

lemma late_failure_leaks_number_witness:
  "\<exists>s'. start_process demo_frame 0 (demo_proc\<lparr>procs := 0xC0, running_pid := 1\<rparr>) = Some (Return s' (- 1)) \<and>
    used_pids (procs s') = insert 1 (used_pids (procs demo_proc))"
proof -
  let ?s = "demo_proc\<lparr>procs := 0xC0, running_pid := 1\<rparr>"
  have same: "same_tables ?s demo" using demo_proc_tables by (simp add: same_tables_def)
  then have view: "vmem ?s = vmem demo" "translate ?s = translate demo" using vmem_cong [of ?s demo] translate_cong by auto
  have al: "alloc_pid (procs demo_proc) = Some (0xC0, 1)"
  proof -
    have "(8 :: nat) = Suc (Suc 6)" by simp
    then show ?thesis unfolding alloc_pid_def by (simp only: alloc_pid_loop.simps) (simp add: demo_proc_def)
  qed
  obtain d where d: "List.find (\<lambda>d. entry_name d = [0x66]) (dentries demo_proc) = Some d" "inode_idx d = 1"
    by (rule demo_entry)
  have "read_dentry_by_name 0x500100 ?s = Some (Some d)"
    using read_dentry_by_name_find [of ?s "0x500100" "[0x66]"] demo_name d
    by (simp add: view demo_proc_vmem accessible_def dentries_def translate_cong [OF demo_proc_tables])
  then have "file_read_name 0x500100 0x500300 24 4 ?s = Some (?s, 0)"
    using d by (simp add: file_read_name_def read_data_def Let_def view word_le_nat_alt)
  then have "start_process demo_frame 0 ?s = Some (Return (sti ?s) (- 1))"
    by (simp add: start_process_def demo_frame_def)
  from late_failure_leaks_number [OF al this] this show ?thesis by auto
qed

text \<open>
  C12: When a program started by another one ends, the kernel is back in that one's
  \<^verbatim>\<open>execute\<close>: its number runs again on its directory and kernel stack, the call
  returns the exit status, or 256 after an exception, and the number of the ended program and
  the link to it are gone.
\<close>

theorem halt_returns_to_parent:
  assumes "unat (running_pid s) < 8" "unat q < 8" "running_pid s \<noteq> q"
    and "pid (get_current_pcb s) = ucast (running_pid s)" "parent_pid (get_current_pcb s) = int (unat q)"
      "parent_pcb (get_current_pcb s) = Some q" and "pid (pcbs s q) = ucast q"
    and "runs_on s (running_pid s) t"
  shows "\<exists>s'. halt frame stat s = Some (Resume s' (parent_ksp (get_current_pcb s)) (parent_kbp (get_current_pcb s))
      (if program_exception s \<noteq> 0 then PROCESS_KILLED_BY_EXCEPTION else ucast stat)) \<and>
    running_pid s' = q \<and> used_pids (procs s') = used_pids (procs s) - {unat (running_pid s)} \<and> cr3 s' = unat q \<and>
    program_exception s' = 0 \<and> tss_esp0 s' = kernel_stack (ucast q) \<and> child_pcb (pcbs s' q) = None"
  using halt_result [OF assms, of frame stat] by (auto simp: used_pids_free unat_ucast8)

lemma halt_returns_to_parent_witness:
  "\<exists>s'. halt demo_frame 7 demo_terms = Some (Resume s' 0 0 7) \<and> running_pid s' = 0 \<and> child_pcb (pcbs s' 0) = None"
  using halt_returns_to_parent [of demo_terms 0 0 demo_frame 7] demo_terms_runs
  by (auto simp: get_current_pcb_def blank_pcb_def demo_terms_exception)

text \<open>
  C29: What terminal a new process runs on, where no terminal belongs to its number yet and its
  number is not that of its starter or of one above it: while a running terminal is on display it gets its starter
  as parent and runs on the terminal its starter runs on, whichever that is; otherwise it has no
  parent and is the first process of the lowest free terminal, which runs from then on.
\<close>

theorem child_runs_where_parent_runs:
  assumes "runs_on s parent t" "\<not> (below s)\<^sup>*\<^sup>* parent (running_pid s)" "pid (pcbs s parent) = ucast parent"
    and "get_terminal_from_pid (ucast (running_pid s)) s = None"
    and "running (terminal_at (unat (current_terminal s)) s) \<le> 1" "unat (current_terminal s) < 3" "length (terminals s) = 3"
  shows "\<exists>s'. setup_pcb frame parent s = Some s' \<and>
    (if running (terminal_at (unat (current_terminal s)) s) = 1
     then get_running_terminal s' = Some (Some t) \<and> parent_pcb (pcbs s' (running_pid s)) = Some parent \<and>
       child_pcb (pcbs s' parent) = Some (running_pid s)
     else \<exists>t'<3. running (terminal_at t' s) = 0 \<and> (\<forall>i<t'. running (terminal_at i s) \<noteq> 0) \<and>
       get_running_terminal s' = Some (Some t') \<and> running (terminal_at t' s') = 1 \<and>
       parent_pcb (pcbs s' (running_pid s)) = None)"
proof (cases "running (terminal_at (unat (current_terminal s)) s) = 1")
  case True
  from setup_pcb_runs_on [OF assms(1,2) True assms(6,4,3)] obtain s' where
    s': "setup_pcb frame parent s = Some s'" "runs_on s' (running_pid s) t"
      "parent_pcb (pcbs s' (running_pid s)) = Some parent" "child_pcb (pcbs s' parent) = Some (running_pid s)" by blast
  moreover have "running_pid s' = running_pid s" using s'(1) by (rule setup_pcb_result(1))
  ultimately show ?thesis using True get_running_terminal_runs_on [of s' t] by auto
next
  case False
  then have "running (terminal_at (unat (current_terminal s)) s) = 0" using assms(5) by (simp add: word_le_nat_alt word_unat_eq_iff)
  from setup_pcb_new_terminal [OF this assms(6,7,4)] obtain s' t' where
    s': "setup_pcb frame parent s = Some s'" "t' < 3" "running (terminal_at t' s) = 0"
      "\<forall>i<t'. running (terminal_at i s) \<noteq> 0" "runs_on s' (running_pid s) t'" "running (terminal_at t' s') = 1"
      "parent_pcb (pcbs s' (running_pid s)) = None" by blast
  moreover have "running_pid s' = running_pid s" using s'(1) by (rule setup_pcb_result(1))
  ultimately show ?thesis using False get_running_terminal_runs_on [of s' t'] by auto
qed

text \<open>Process 3 is started by process 2 with a terminal on display that runs or does not.\<close>

definition demo_new :: "u8 \<Rightarrow> terms" where
  "demo_new r = demo_terms\<lparr>running_pid := 3, terminals := [demo_terminal 0 0 0xB9000, demo_terminal 5 1 0xBA000,
     (demo_terminal 6 2 0xBB000)\<lparr>running := r\<rparr>], current_terminal := 2\<rparr>"

lemma child_runs_where_parent_runs_witness:
  "(\<exists>s'. setup_pcb demo_frame 2 (demo_new 1) = Some s' \<and> parent_pcb (pcbs s' 3) = Some 2 \<and>
     get_running_terminal s' = Some (Some 0)) \<and>
   (\<exists>s'. setup_pcb demo_frame 2 (demo_new 0) = Some s' \<and> parent_pcb (pcbs s' 3) = None \<and>
     get_running_terminal s' = Some (Some 2))"
proof -
  have new: "\<exists>s'. setup_pcb demo_frame 2 (demo_new r) = Some s' \<and> parent_pcb (pcbs s' 3) = (if r = 1 then Some 2 else None) \<and>
    get_running_terminal s' = Some (Some (if r = 1 then 0 else 2))" if r: "r = 0 \<or> r = 1" for r
  proof -
    let ?s = "demo_new r"
    have look: "get_terminal_from_pid p ?s = get_terminal_from_pid p demo_terms" for p
      by (simp add: get_terminal_from_pid_def find_0_2 terminal_at_def demo_terminal_def demo_new_def)
    have fields: "running_pid ?s = 3" "pcbs ?s = pcbs demo_terms" "current_terminal ?s = 2" "length (terminals ?s) = 3"
      by (simp_all add: demo_new_def)
    have "runs_on ?s 0 0"
      by (rule runs_on.root) (simp add: look fields, simp add: get_terminal_from_pid_def find_0_2 terminal_at_def demo_terminal_def blank_pcb_def)
    then have on: "runs_on ?s 2 0"
      by (rule runs_on.child [rotated 3])
        (simp_all add: look fields, simp_all add: get_terminal_from_pid_def find_0_2 terminal_at_def demo_terminal_def blank_pcb_def)
    have "(below ?s)\<^sup>*\<^sup>* 2 q \<Longrightarrow> q \<in> {0, 2}" for q
      by (induction rule: rtranclp_induct) (auto simp: below_def blank_pcb_def fields split: if_split_asm)
    then have free: "\<not> (below ?s)\<^sup>*\<^sup>* 2 (running_pid ?s)" unfolding fields by force
    have none: "get_terminal_from_pid (ucast (running_pid ?s)) ?s = None"
      by (simp add: look fields) (simp add: get_terminal_from_pid_def find_0_2 terminal_at_def demo_terminal_def)
    have run: "running (terminal_at i ?s) = (if i = 2 then r else 1)" if "i < 3" for i
      using that by (auto simp: terminal_at_def demo_terminal_def demo_new_def less_Suc_eq numeral_3_eq_3 numeral_2_eq_2)
    from child_runs_where_parent_runs [OF on free _ none, of demo_frame] r run fields
    show ?thesis by (auto split: if_splits)
  qed
  from new [of 1] new [of 0] show ?thesis by simp
qed

text \<open>
  A system call number that is 0 or above 10 is answered with -1 and changes nothing; the
  two signal calls are not implemented and crash.
\<close>

theorem system_call_numbers:
  "(n = 0 \<or> 10 < n \<longrightarrow> irqh_syscall env frame n a b c s = Some (Return s (- 1))) \<and>
   (n \<in> {9, 10} \<longrightarrow> irqh_syscall env frame n a b c s = Some (Unimplemented s)) \<and>
   (n = 6 \<longrightarrow> irqh_syscall env frame n a b c s =
     Some (Return (fst (sys_close (sint a) s)) (snd (sys_close (sint a) s))))"
  by (auto simp: irqh_syscall_def returned_def split: prod.splits)

lemma system_call_numbers_witness:
  "\<forall>env a b c. irqh_syscall env demo_frame 11 a b c (demo_keyboard []) = Some (Return (demo_keyboard []) (- 1))"
proof (intro allI)
  show "irqh_syscall env demo_frame 11 a b c (demo_keyboard []) = Some (Return (demo_keyboard []) (- 1))" for env a b c
    using system_call_numbers [of 11 env demo_frame a b c "demo_keyboard []"] by simp
qed

end
