(* ===== verification/Scheduler.thy ===== *)
theory Scheduler
  imports Syscall_Exec
begin

text \<open>
  \<^verbatim>\<open>student-distrib/pit.c\<close>: the timer and the scheduler. Every timer interrupt
  first carries out the terminal switch the keyboard asked for, then goes round the terminals
  to the next one that was ever displayed and resumes the process at the end of its chain of
  children, or starts its shell. The stack pointers that the handler saves are arguments, and
  a result says whether it returned to the interrupted process, resumed another one on the
  stack saved for it, or went on as \<^verbatim>\<open>execute\<close>.
\<close>

abbreviation PIT_CHANNEL_0 :: u16 where "PIT_CHANNEL_0 \<equiv> 0x40"
abbreviation PIT_MODE_REGISTER :: u16 where "PIT_MODE_REGISTER \<equiv> 0x43"
abbreviation PIT_SET_CHANNEL_0 :: u32 where "PIT_SET_CHANNEL_0 \<equiv> 0x00"
abbreviation PIT_SET_ACCESS_MODE_3 :: u32 where "PIT_SET_ACCESS_MODE_3 \<equiv> 0x30"
abbreviation PIT_SET_MODE_RATE :: u32 where "PIT_SET_MODE_RATE \<equiv> 0x04"
abbreviation PIT_SET_BCD_MODE_0 :: u32 where "PIT_SET_BCD_MODE_0 \<equiv> 0x00"
abbreviation PIT_IRQ :: u32 where "PIT_IRQ \<equiv> 0"
abbreviation PIT_FREQ :: nat where "PIT_FREQ \<equiv> 1193182"
abbreviation SCHEDULE_TIME :: nat where "SCHEDULE_TIME \<equiv> 10"
abbreviation MS_IN_SEC :: nat where "MS_IN_SEC \<equiv> 1000"

record scheduler = keyboard +
  current_schedule :: u8
  schedule_counter :: u8

datatype 's tick =
    Interrupted 's
  | Switch 's u32 u32
  | Start "'s outcome"

definition init_pit :: "'a scheduler_scheme \<Rightarrow> 'a scheduler_scheme" where
  "init_pit s =
     (let frequency = of_nat (PIT_FREQ * SCHEDULE_TIME div MS_IN_SEC) :: u16;
          s = enable_irq PIT_IRQ s;
          low = ucast (frequency AND 0x00FF) :: u8;
          high = ucast (drop_bit 8 frequency) :: u8;
          s = outb (PIT_SET_CHANNEL_0 OR PIT_SET_ACCESS_MODE_3 OR PIT_SET_MODE_RATE OR PIT_SET_BCD_MODE_0)
                PIT_MODE_REGISTER s;
          s = outb (ucast low) PIT_CHANNEL_0 s;
          s = outb (ucast high) PIT_CHANNEL_0 s
      in s\<lparr>current_schedule := 0, schedule_counter := 0\<rparr>)"

text \<open>The switch that is pending, with the number cut to the parameter's eight bits.\<close>

definition take_switch :: "'a scheduler_scheme \<Rightarrow> 'a scheduler_scheme option" where
  "take_switch s =
     (if terminal_to_switch_to s \<noteq> - 1
      then map_option (\<lambda>s. s\<lparr>terminal_to_switch_to := - 1\<rparr>)
        (switch_terminal (of_int (terminal_to_switch_to s)) s)
      else Some s)"

text \<open>The search for the next terminal; it does not end when none is running.\<close>

partial_function (option) next_schedule :: "terminal list \<Rightarrow> u8 \<Rightarrow> u8 option" where
  "next_schedule ts counter =
     (let counter = (counter + 1) mod TERMINAL_NUM
      in if status (ts ! unat counter) \<noteq> TASK_RUNNING then next_schedule ts counter else Some counter)"

text \<open>The end of the chain of children; it does not end when the chain is a circle.\<close>

partial_function (option) lowest_child :: "(u8 \<Rightarrow> pcb) \<Rightarrow> u8 \<Rightarrow> u8 option" where
  "lowest_child blocks p =
     (case child_pcb (blocks p) of None \<Rightarrow> Some p | Some q \<Rightarrow> lowest_child blocks q)"

definition save_context :: "u32 \<Rightarrow> u32 \<Rightarrow> 'a process_scheme \<Rightarrow> 'a process_scheme" where
  "save_context esp ebp s = update_pcb (running_pid s) (\<lambda>p. p\<lparr>ksp := esp, kbp := ebp\<rparr>) s"

definition scheduler_vidmap :: "u8 \<Rightarrow> u32 \<Rightarrow> 'a terms_scheme \<Rightarrow> 'a terms_scheme" where
  "scheduler_vidmap num_term p s =
     (let term = terminal_at (unat num_term) s;
          video_addr = (if term_id term = current_terminal s then VIDEO else vid_mem_buf term)
      in fst (map_vid_mem (ucast p) VIDMAP_ADDR video_addr s))"

text \<open>The memory that the video addresses of the process stand for.\<close>

definition point_video :: "u8 \<Rightarrow> u32 \<Rightarrow> 'a terms_scheme \<Rightarrow> 'a terms_scheme" where
  "point_video c p s =
     (let s = (if vidmapped (terminal_at (unat c) s) \<noteq> 0 then scheduler_vidmap c p s else s)
      in fst (map_vid_mem (ucast p) VIDEO
           (if c = current_terminal s then VIDEO else vid_mem_buf (terminal_at (unat c) s)) s))"

definition resume_process :: "u8 \<Rightarrow> 'a terms_scheme \<Rightarrow> 'a terms_scheme tick option" where
  "resume_process c s =
     Option.bind (lowest_child (pcbs s) (ucast (term_pid (terminal_at (unat c) s)))) (\<lambda>q.
       let p = pid (pcbs s q);
           s = point_video c p (set_pid (ucast p) (s\<lparr>tss_esp0 := kernel_stack p\<rparr>))
       in map_option (\<lambda>s. Switch (send_eoi PIT_IRQ s) (ksp (pcbs s q)) (kbp (pcbs s q))) (flush_tlb s))"

definition irqh_pit :: "exec_frame \<Rightarrow> u32 \<Rightarrow> u32 \<Rightarrow> 'a scheduler_scheme \<Rightarrow> 'a scheduler_scheme tick option" where
  "irqh_pit frame esp ebp s =
     Option.bind (take_switch s) (\<lambda>s.
     Option.bind (next_schedule (terminals s) (schedule_counter s)) (\<lambda>c.
       let s = s\<lparr>schedule_counter := c\<rparr> in
       if c = current_schedule s then Some (Interrupted (send_eoi PIT_IRQ s))
       else
         let s = save_context esp ebp (s\<lparr>current_schedule := c\<rparr>)
         in if running (terminal_at (unat c) s) = 1 then resume_process c s
            else map_option Start (execute frame (shell_at frame) (send_eoi PIT_IRQ s))))"

definition get_current_schedule :: "'a scheduler_scheme \<Rightarrow> u8" where
  "get_current_schedule s = current_schedule s"

subsection \<open>Going round the terminals\<close>

text \<open>What the search means: the first running terminal after the counter, which comes last itself.\<close>

definition next_running :: "terminal list \<Rightarrow> nat \<Rightarrow> nat option" where
  "next_running ts c =
     List.find (\<lambda>t. status (ts ! t) = TASK_RUNNING) [(c + 1) mod 3, (c + 2) mod 3, c mod 3]"

lemma three_terminals: "c < TERMINAL_NUM \<longleftrightarrow> c = 0 \<or> c = 1 \<or> c = 2"
  by (auto simp: word_less_nat_alt word_unat_eq_iff)

lemma next_schedule_found:
  assumes "next_schedule ts c = Some d"
  shows "d < TERMINAL_NUM \<and> status (ts ! unat d) = TASK_RUNNING"
proof (rule next_schedule.raw_induct [where P = "\<lambda>ts c d. d < TERMINAL_NUM \<and> status (ts ! unat d) = TASK_RUNNING", OF _ assms])
  fix f ts c d
  assume *: "\<And>ts c d. f ts c = Some d \<Longrightarrow> d < TERMINAL_NUM \<and> status (ts ! unat d) = TASK_RUNNING"
   "(let counter = (c + 1) mod TERMINAL_NUM
      in if status (ts ! unat counter) \<noteq> TASK_RUNNING then f ts counter else Some counter) = Some d"
  have "(c + 1) mod TERMINAL_NUM < TERMINAL_NUM" by (simp add: word_less_nat_alt unat_mod)
  with * show "d < TERMINAL_NUM \<and> status (ts ! unat d) = TASK_RUNNING" by (auto simp: Let_def split: if_split_asm)
qed

lemma next_schedule_step:
  "next_schedule ts 0 = (if status (ts ! 1) = TASK_RUNNING then Some 1 else next_schedule ts 1)"
  "next_schedule ts 1 = (if status (ts ! 2) = TASK_RUNNING then Some 2 else next_schedule ts 2)"
  "next_schedule ts 2 = (if status (ts ! 0) = TASK_RUNNING then Some 0 else next_schedule ts 0)"
  by (subst next_schedule.simps, simp)+

lemma next_running_cases:
  "next_running ts 0 = (if status (ts ! 1) = TASK_RUNNING then Some 1
     else if status (ts ! 2) = TASK_RUNNING then Some 2 else if status (ts ! 0) = TASK_RUNNING then Some 0 else None)"
  "next_running ts (Suc 0) = (if status (ts ! 2) = TASK_RUNNING then Some 2
     else if status (ts ! 0) = TASK_RUNNING then Some 0 else if status (ts ! 1) = TASK_RUNNING then Some 1 else None)"
  "next_running ts 2 = (if status (ts ! 0) = TASK_RUNNING then Some 0
     else if status (ts ! 1) = TASK_RUNNING then Some 1 else if status (ts ! 2) = TASK_RUNNING then Some 2 else None)"
  by (simp_all add: next_running_def numeral_2_eq_2)

lemma next_schedule_running:
  assumes "c < TERMINAL_NUM"
  shows "next_schedule ts c = map_option of_nat (next_running ts (unat c))"
proof (cases "\<exists>t<3. status (ts ! t) = TASK_RUNNING")
  case False
  then have "next_schedule ts c = None"
    using next_schedule_found [of ts c] by (cases "next_schedule ts c") (auto simp: word_less_nat_alt)
  moreover have "next_running ts (unat c) = None" using False by (simp add: next_running_def)
  ultimately show ?thesis by simp
next
  case True
  then have "status (ts ! 0) = TASK_RUNNING \<or> status (ts ! 1) = TASK_RUNNING \<or> status (ts ! 2) = TASK_RUNNING"
    by (auto simp: numeral_3_eq_3 less_Suc_eq numeral_2_eq_2)
  with assms show ?thesis
    unfolding three_terminals by (auto simp: next_schedule_step next_running_cases)
qed

text \<open>How many terminals may come before \<open>t\<close> when the counter is at \<open>c\<close>; every search goes closer.\<close>

definition gap :: "nat \<Rightarrow> nat \<Rightarrow> nat" where
  "gap c t = (t + 2 - c) mod 3"

lemma next_schedule_closer:
  assumes "next_schedule ts c = Some d" "c < TERMINAL_NUM" "t < 3" "status (ts ! t) = TASK_RUNNING"
  shows "d = of_nat t \<or> gap (unat d) t < gap (unat c) t"
proof -
  have "t = 0 \<or> t = 1 \<or> t = 2" using assms(3) by auto
  moreover have "next_running ts (unat c) = Some (unat d)"
    using assms(1) unfolding next_schedule_running [OF assms(2)]
    by (auto simp: next_running_def unat_of_nat split: if_split_asm)
  moreover have "d < TERMINAL_NUM" using next_schedule_found [OF assms(1)] by simp
  ultimately show ?thesis using assms(2,4) unfolding three_terminals
    by (elim disjE) (simp_all add: next_running_cases gap_def split: if_split_asm)
qed

text \<open>
  C10: In any three consecutive searches of the scheduler every terminal whose status stays
  \<^verbatim>\<open>TASK_RUNNING\<close> is chosen, whatever happens to the others meanwhile.
\<close>

theorem every_terminal_gets_its_turn:
  assumes "c 0 < TERMINAL_NUM" "t < 3"
    and "\<And>i. i < 3 \<Longrightarrow> next_schedule (ts i) (c i) = Some (c (Suc i)) \<and> status (ts i ! t) = TASK_RUNNING"
  shows "\<exists>i \<in> {1, 2, 3}. c i = of_nat t"
proof (rule ccontr)
  assume none: "\<not> ?thesis"
  have bound: "c i < TERMINAL_NUM" if "i \<le> 3" for i
    using assms(1) assms(3) [of "i - 1"] next_schedule_found [of "ts (i - 1)" "c (i - 1)" "c i"] that
    by (cases i) auto
  have "gap (unat (c (Suc i))) t < gap (unat (c i)) t" if "i < 3" for i
  proof -
    have "Suc i \<in> {1, 2, 3}" using that by auto
    then have "c (Suc i) \<noteq> of_nat t" using none by blast
    then show ?thesis using next_schedule_closer [of "ts i" "c i" "c (Suc i)" t] assms(2,3) bound [of i] that by auto
  qed
  from this [of 0] this [of 1] this [of 2] have "3 \<le> gap (unat (c 0)) t" by (simp add: numeral_2_eq_2)
  moreover have "gap (unat (c 0)) t < 3" by (simp add: gap_def)
  ultimately show False by simp
qed

subsection \<open>Resuming a process\<close>

lemma map_vid_mem_frame [simp]:
  "pcbs (fst (map_vid_mem p v a s)) = pcbs s" "running_pid (fst (map_vid_mem p v a s)) = running_pid s"
  "terminals (fst (map_vid_mem p v a s')) = terminals s'"
  "current_terminal (fst (map_vid_mem p v a s')) = current_terminal s'"
  "memory (fst (map_vid_mem p v a s)) = memory s" "tss_esp0 (fst (map_vid_mem p v a s)) = tss_esp0 s"
  by (simp_all add: map_vid_mem_def Let_def cli_def sti_def)

lemma point_video_frame [simp]:
  "pcbs (point_video c p s) = pcbs s" "running_pid (point_video c p s) = running_pid s"
  "terminals (point_video c p s) = terminals s" "current_terminal (point_video c p s) = current_terminal s"
  "memory (point_video c p s) = memory s" "tss_esp0 (point_video c p s) = tss_esp0 s"
  by (simp_all add: point_video_def scheduler_vidmap_def Let_def)

lemma send_eoi_frame [simp]:
  "pcbs (send_eoi i s) = pcbs s" "running_pid (send_eoi i s) = running_pid s" "tss_esp0 (send_eoi i s) = tss_esp0 s"
  "terminals (send_eoi i s') = terminals s'" "current_terminal (send_eoi i s') = current_terminal s'"
  "memory (send_eoi i s) = memory s" "cr3 (send_eoi i s) = cr3 s" "same_tables (send_eoi i s) s = True"
  by (simp_all add: send_eoi_def outb_def same_tables_def)

lemma lowest_child_cong:
  assumes "\<And>p. child_pcb (b p) = child_pcb (b' p)"
  shows "lowest_child b = lowest_child b'"
proof -
  have step: "lowest_child b' p = Some q" if "lowest_child b p = Some q" "\<And>p. child_pcb (b p) = child_pcb (b' p)" for b b' p q
  proof -
    have "b = b \<longrightarrow> lowest_child b' p = Some q"
    proof (rule lowest_child.raw_induct [where P = "\<lambda>c p q. c = b \<longrightarrow> lowest_child b' p = Some q", OF _ that(1)], rule impI)
      fix f c p q
      assume ih: "\<And>c p q. f c p = Some q \<Longrightarrow> c = b \<longrightarrow> lowest_child b' p = Some q"
        and step: "(case child_pcb (c p) of None \<Rightarrow> Some p | Some q \<Rightarrow> f c q) = Some q" and c: "c = b"
      show "lowest_child b' p = Some q"
        using step ih that(2) [of p] unfolding c by (subst lowest_child.simps) (auto split: option.splits)
    qed
    then show ?thesis by simp
  qed
  have "lowest_child b p = lowest_child b' p" for p
    using step [of b p _ b'] step [of b' p _ b] assms by (cases "lowest_child b p"; cases "lowest_child b' p") auto
  then show ?thesis by (rule ext)
qed

text \<open>The process that a terminal's turn goes to carries the number of its block.\<close>

definition turn_of :: "nat \<Rightarrow> 'a terms_scheme \<Rightarrow> u8 option" where
  "turn_of t s = lowest_child (pcbs s) (ucast (term_pid (terminal_at t s)))"

definition turns_ok :: "'a terms_scheme \<Rightarrow> bool" where
  "turns_ok s \<longleftrightarrow> (\<forall>t<3. running (terminal_at t s) = 1 \<longrightarrow>
     (\<forall>q. turn_of t s = Some q \<longrightarrow> pid (pcbs s q) = ucast q))"

definition resumed_state :: "u8 \<Rightarrow> u8 \<Rightarrow> 'a terms_scheme \<Rightarrow> 'a terms_scheme" where
  "resumed_state c q s =
     (let p = pid (pcbs s q)
      in send_eoi PIT_IRQ ((point_video c p (set_pid (ucast p) (s\<lparr>tss_esp0 := kernel_stack p\<rparr>)))\<lparr>cr3 := unat p\<rparr>))"

lemma resume_process_result:
  assumes "resume_process c s = Some r" "turns_ok s" "c < TERMINAL_NUM" "running (terminal_at (unat c) s) = 1"
  shows "\<exists>q. turn_of (unat c) s = Some q \<and> q < 8 \<and> pid (pcbs s q) = ucast q \<and>
    r = Switch (resumed_state c q s) (ksp (pcbs s q)) (kbp (pcbs s q))"
proof -
  let ?next = "\<lambda>q. point_video c (pid (pcbs s q))
    (set_pid (ucast (pid (pcbs s q))) (s\<lparr>tss_esp0 := kernel_stack (pid (pcbs s q))\<rparr>))"
  obtain q s1 where q: "turn_of (unat c) s = Some q"
    and s1: "flush_tlb (?next q) = Some s1"
    and r: "r = Switch (send_eoi PIT_IRQ s1) (ksp (pcbs s1 q)) (kbp (pcbs s1 q))"
    using assms(1) unfolding resume_process_def turn_of_def Let_def by (auto simp: bind_eq_Some_conv)
  have own: "pid (pcbs s q) = ucast q"
    using assms(2-4) q unfolding turns_ok_def by (simp add: word_less_nat_alt)
  then have cur: "get_current_pcb (?next q) = pcbs s q" by (simp add: get_current_pcb_def set_pid_def)
  have "\<not> pid (pcbs s q) \<ge> 8" and s1': "s1 = (?next q)\<lparr>cr3 := unat (pid (pcbs s q))\<rparr>"
    using s1 unfolding flush_tlb_def cur Let_def by (simp_all split: if_split_asm)
  then have "q < 8" by (simp add: own not_le word_less_nat_alt unat_ucast8)
  moreover have "pcbs s1 = pcbs s" by (simp add: s1' set_pid_def)
  moreover have "send_eoi PIT_IRQ s1 = resumed_state c q s" unfolding resumed_state_def s1' Let_def ..
  ultimately show ?thesis using q r own by simp
qed

lemma resumed_state_frame [simp]:
  assumes "pid (pcbs s q) = ucast q"
  shows "pcbs (resumed_state c q s) = pcbs s" "running_pid (resumed_state c q s) = q"
    "terminals (resumed_state c q s) = terminals s" "current_terminal (resumed_state c q s) = current_terminal s"
    "cr3 (resumed_state c q s) = unat q" "tss_esp0 (resumed_state c q s) = kernel_stack (ucast q)"
  using assms by (simp_all add: resumed_state_def set_pid_def Let_def unat_ucast8)

subsection \<open>What the pending switch leaves alone\<close>

definition same_but_cursor :: "'a scheduler_scheme \<Rightarrow> 'a scheduler_scheme \<Rightarrow> bool" where
  "same_but_cursor s s' \<longleftrightarrow> pcbs s' = pcbs s \<and> running_pid s' = running_pid s \<and>
     schedule_counter s' = schedule_counter s \<and> current_schedule s' = current_schedule s \<and>
     pgtbl_addr s' = pgtbl_addr s \<and> pgtbl_proc_addr s' = pgtbl_proc_addr s \<and>
     length (terminals s') = length (terminals s) \<and>
     (\<forall>t. term_pid (terminal_at t s') = term_pid (terminal_at t s) \<and> running (terminal_at t s') = running (terminal_at t s) \<and>
       vid_mem_buf (terminal_at t s') = vid_mem_buf (terminal_at t s) \<and> term_id (terminal_at t s') = term_id (terminal_at t s) \<and>
       vidmapped (terminal_at t s') = vidmapped (terminal_at t s))"

lemma same_but_cursor_trans:
  "same_but_cursor s s1 \<Longrightarrow> same_but_cursor s1 s2 \<Longrightarrow> same_but_cursor s s2"
  by (simp add: same_but_cursor_def)

lemma same_but_cursor_memory: "only_memory s s' \<Longrightarrow> same_but_cursor s s'"
  unfolding only_memory_def by (erule ssubst) (simp add: same_but_cursor_def terminal_at_def)

lemma same_but_cursor_update:
  assumes "\<And>t. term_pid (f t) = term_pid t" "\<And>t. running (f t) = running t" "\<And>t. vid_mem_buf (f t) = vid_mem_buf t"
    "\<And>t. term_id (f t) = term_id t" "\<And>t. vidmapped (f t) = vidmapped t"
  shows "same_but_cursor s (update_terminal t f s)"
proof (cases "t < length (terminals s)")
  case True
  then show ?thesis using assms by (simp add: same_but_cursor_def update_terminal_def terminal_at_def nth_list_update)
next
  case False
  then show ?thesis by (simp add: same_but_cursor_def update_terminal_def terminal_at_def list_update_beyond)
qed

lemma same_but_cursor_simps [simp]:
  "same_but_cursor s s" "same_but_cursor s (remap_video a s)" "same_but_cursor s (set_screen_xy x y s)"
  "same_but_cursor s (cli s)" "same_but_cursor s (sti s)" "same_but_cursor s (s\<lparr>current_terminal := c\<rparr>)"
  "same_but_cursor s (s\<lparr>terminal_to_switch_to := k\<rparr>)"
  by (simp_all add: same_but_cursor_def remap_video_def map_vid_mem_def set_screen_xy_def set_cursor_location_def
      outb_def cli_def sti_def terminal_at_def Let_def)

lemma restore_terminal_keeps:
  assumes "restore_terminal n s = Some s'"
  shows "same_but_cursor s s'"
proof (cases "n \<ge> TERMINAL_NUM")
  case True
  then show ?thesis using assms by (simp add: restore_terminal_def)
next
  case False
  let ?u = "update_terminal (unat (current_terminal s)) (\<lambda>t. t\<lparr>term_x := get_screen_x s, term_y := get_screen_y s\<rparr>) s"
  let ?r = "remap_video VIDEO (set_screen_xy (term_x (terminal_at (unat n) ?u)) (term_y (terminal_at (unat n) ?u)) ?u)"
  obtain s1 s2 a b c where copies: "copy_object a VIDEO SCREEN_BYTES ?r = Some s1"
    "copy_object VIDEO b SCREEN_BYTES s1 = Some s2" and s': "s' = remap_video c s2"
    using assms False unfolding restore_terminal_def Let_def by (auto simp: bind_eq_Some_conv)
  have "same_but_cursor s ?u" by (rule same_but_cursor_update) simp_all
  then have "same_but_cursor s ?r" using same_but_cursor_trans same_but_cursor_simps(2,3) by blast
  then have "same_but_cursor s s2"
    using copies only_memory_copy same_but_cursor_memory same_but_cursor_trans by blast
  then show ?thesis unfolding s' using same_but_cursor_trans same_but_cursor_simps(2) by blast
qed

lemma switch_terminal_keeps:
  assumes "switch_terminal n s = Some s'"
  shows "same_but_cursor s s'"
proof (cases "current_terminal s = n \<or> n \<ge> TERMINAL_NUM")
  case True
  then show ?thesis using assms by (simp add: switch_terminal_def)
next
  case False
  then obtain s1 where s1: "restore_terminal n (cli s) = Some s1"
    and s': "s' = sti (update_terminal (unat n) (\<lambda>t. t\<lparr>status := TASK_RUNNING\<rparr>) (s1\<lparr>current_terminal := n\<rparr>))"
    using assms unfolding switch_terminal_def by auto
  have "same_but_cursor s s1"
    using restore_terminal_keeps [OF s1] same_but_cursor_trans same_but_cursor_simps(4) by blast
  moreover have "same_but_cursor (s1\<lparr>current_terminal := n\<rparr>) s'" unfolding s'
    by (rule same_but_cursor_trans [OF same_but_cursor_update same_but_cursor_simps(5)]) simp_all
  ultimately show ?thesis using same_but_cursor_trans same_but_cursor_simps(6) by blast
qed

lemma take_switch_keeps:
  assumes "take_switch s = Some s'"
  shows "same_but_cursor s s'"
  using assms switch_terminal_keeps same_but_cursor_trans same_but_cursor_simps(7)
  unfolding take_switch_def by (fastforce split: if_split_asm)

lemma turn_of_keeps:
  assumes "\<And>p. child_pcb (pcbs s' p) = child_pcb (pcbs s p)" "term_pid (terminal_at t s') = term_pid (terminal_at t s)"
  shows "turn_of t s' = turn_of t s"
  using lowest_child_cong [of "pcbs s'" "pcbs s"] assms by (simp add: turn_of_def)

lemma irqh_pit_switch:
  assumes "irqh_pit frame esp ebp s = Some (Switch s' a b)" "turns_ok s"
  shows "\<exists>s1 c q. take_switch s = Some s1 \<and> next_schedule (terminals s1) (schedule_counter s) = Some c \<and>
    running (terminal_at (unat c) s1) = 1 \<and> c < TERMINAL_NUM \<and> turn_of (unat c) s = Some q \<and> q < 8 \<and>
    s' = resumed_state c q (save_context esp ebp (s1\<lparr>schedule_counter := c, current_schedule := c\<rparr>)) \<and>
    pid (pcbs s q) = ucast q \<and> a = ksp (pcbs s' q) \<and> b = kbp (pcbs s' q)"
proof -
  obtain s1 c where s1: "take_switch s = Some s1" and c: "next_schedule (terminals s1) (schedule_counter s1) = Some c"
    and rest: "c \<noteq> current_schedule s1"
      "running (terminal_at (unat c) (save_context esp ebp (s1\<lparr>schedule_counter := c, current_schedule := c\<rparr>))) = 1"
      "resume_process c (save_context esp ebp (s1\<lparr>schedule_counter := c, current_schedule := c\<rparr>)) = Some (Switch s' a b)"
    using assms(1) unfolding irqh_pit_def Let_def by (auto simp: bind_eq_Some_conv split: if_split_asm)
  let ?s = "save_context esp ebp (s1\<lparr>schedule_counter := c, current_schedule := c\<rparr>)"
  have keeps: "same_but_cursor s s1" by (rule take_switch_keeps [OF s1])
  have links: "child_pcb (pcbs ?s p) = child_pcb (pcbs s p)" "pid (pcbs ?s p) = pid (pcbs s p)" for p
    using keeps by (simp_all add: save_context_def update_pcb_def same_but_cursor_def)
  have at: "terminal_at t ?s = terminal_at t s1" for t by (simp add: save_context_def update_pcb_def terminal_at_def)
  have turn: "turn_of t ?s = turn_of t s" for t
    by (rule turn_of_keeps) (use links at keeps in \<open>simp_all add: same_but_cursor_def\<close>)
  have ok: "turns_ok ?s"
    using assms(2) keeps unfolding turns_ok_def turn links at same_but_cursor_def by simp
  have c3: "c < TERMINAL_NUM" using next_schedule_found [OF c] by simp
  obtain q where q: "turn_of (unat c) ?s = Some q" "q < 8" "pid (pcbs ?s q) = ucast q"
    "Switch s' a b = Switch (resumed_state c q ?s) (ksp (pcbs ?s q)) (kbp (pcbs ?s q))"
    using resume_process_result [OF rest(3) ok c3 rest(2)] by blast
  have "schedule_counter s1 = schedule_counter s" using keeps by (simp add: same_but_cursor_def)
  moreover have "pcbs s' = pcbs ?s" using q(3,4) by simp
  ultimately show ?thesis using s1 c c3 q rest(2) unfolding turn links at by auto
qed

subsection \<open>Two terminals that run\<close>

text \<open>Process 2 runs below the shell 0 of terminal 0, and the shell 1 on terminal 1; terminal 2 was never shown.\<close>

definition demo_sched :: scheduler where
  "demo_sched = keyboard.extend ((demo_keyboard [])\<lparr>
       terminals := [demo_line [], demo_terminal 1 1 0xBA000, (demo_terminal 6 2 0xBB000)\<lparr>running := 0, status := 0\<rparr>],
       pcbs := (pcbs demo_terms)(0 := blank_pcb\<lparr>child_pcb := Some 2\<rparr>, 1 := blank_pcb\<lparr>pid := 1\<rparr>)\<rparr>)
     \<lparr>current_schedule = 0, schedule_counter = 0\<rparr>"

lemma demo_sched_fields [simp]:
  "running_pid demo_sched = 2" "current_terminal demo_sched = 0" "terminal_to_switch_to demo_sched = - 1"
  "terminals demo_sched = [demo_line [], demo_terminal 1 1 0xBA000, (demo_terminal 6 2 0xBB000)\<lparr>running := 0, status := 0\<rparr>]"
  "pcbs demo_sched = (pcbs demo_terms)(0 := blank_pcb\<lparr>child_pcb := Some 2\<rparr>, 1 := blank_pcb\<lparr>pid := 1\<rparr>)"
  "current_schedule demo_sched = 0" "schedule_counter demo_sched = 0"
  "tables_placed demo_sched = tables_placed demo_terms"
  by (simp_all add: demo_sched_def keyboard.extend_def demo_keyboard_def terms.extend_def tables_placed_def proc_table_addr_def
    del: demo_terms_fields(6))

lemma demo_sched_turns: "turn_of 0 demo_sched = Some 2" "turn_of 1 demo_sched = Some 1" "turns_ok demo_sched"
proof -
  have child: "child_pcb blank_pcb = None" by (simp add: blank_pcb_def)
  show t: "turn_of 0 demo_sched = Some 2" "turn_of 1 demo_sched = Some 1"
    unfolding turn_of_def by (simp_all add: terminal_at_def demo_line_def demo_terminal_def lowest_child.simps [of _ 0]
      lowest_child.simps [of _ 1] lowest_child.simps [of _ 2] child)
  then show "turns_ok demo_sched"
    by (simp add: turns_ok_def all_below_3) (simp add: terminal_at_def)
qed

subsection \<open>What the resumed process sees\<close>

text \<open>The frame that the video addresses of a terminal's processes stand for.\<close>

definition video_frame :: "u8 \<Rightarrow> 'a terms_scheme \<Rightarrow> u32" where
  "video_frame c s = (if c = current_terminal s then VIDEO else vid_mem_buf (terminal_at (unat c) s))"

lemma point_video_maps:
  assumes "tables_placed s" "unat (ucast p :: u8) < 8" "take_bit 12 (video_frame c s) = 0"
    and id: "term_id (terminal_at (unat c) s) = c"
  shows "mapped_at (point_video c p s) VIDEO 4000 (video_frame c s)"
    and "vidmapped (terminal_at (unat c) s) \<noteq> 0 \<Longrightarrow> mapped_at (point_video c p s) VIDMAP_ADDR 4000 (video_frame c s)"
proof -
  let ?p = "ucast p :: u8" and ?f = "video_frame c s"
  define s1 where "s1 = (if vidmapped (terminal_at (unat c) s) \<noteq> 0 then scheduler_vidmap c p s else s)"
  have vm: "scheduler_vidmap c p s = fst (map_vid_mem ?p VIDMAP_ADDR ?f s)"
    by (simp add: scheduler_vidmap_def video_frame_def id)
  have placed: "tables_placed s1" using assms(1) by (simp add: s1_def vm)
  have same: "terminals s1 = terminals s" "current_terminal s1 = current_terminal s" by (simp_all add: s1_def vm)
  have pv: "point_video c p s = fst (map_vid_mem ?p VIDEO ?f s1)"
    unfolding point_video_def s1_def [symmetric] Let_def by (simp add: video_frame_def terminal_at_def same)
  show "mapped_at (point_video c p s) VIDEO 4000 ?f"
    unfolding pv by (rule map_vid_mem_mapped) (use placed assms(2,3) in \<open>simp_all add: take_bit_eq_mod\<close>)
  show "mapped_at (point_video c p s) VIDMAP_ADDR 4000 ?f" if v: "vidmapped (terminal_at (unat c) s) \<noteq> 0"
  proof (rule table_page_mapped)
    let ?s = "point_video c p s"
    have s1: "s1 = fst (map_vid_mem ?p VIDMAP_ADDR ?f s)" using v by (simp add: s1_def vm)
    note tabs1 = map_vid_mem_tables [OF assms(2) s1] and tabs = map_vid_mem_tables [OF assms(2) pv]
    have slot: "unat (drop_bit 22 (VIDMAP_ADDR :: u32)) = 40" "unat (take_bit 10 (drop_bit 12 (VIDMAP_ADDR :: u32))) = 0"
      by (simp_all add: drop_bit_eq_div take_bit_eq_mod)
    show "tables_placed ?s" "cr3 ?s < 8" using placed assms(2) tabs(3) by (simp_all add: pv)
    have addr: "proc_table_addr ?s q = proc_table_addr s q" for q by (simp add: pv s1)
    show "pgdir ?s (cr3 ?s) (unat (drop_bit 22 VIDMAP_ADDR)) = proc_table_addr ?s (cr3 ?s) OR 7"
      "pgtbl_proc ?s (cr3 ?s) (unat (take_bit 10 (drop_bit 12 VIDMAP_ADDR))) = ?f OR 7"
      unfolding slot addr tabs(3) by (simp_all add: tabs(1,2) tabs1(1,2))
  qed (use assms(3) in \<open>simp_all add: take_bit_eq_mod\<close>)
qed

lemma mapped_at_tables: "same_tables s t \<Longrightarrow> mapped_at s v n a = mapped_at t v n a"
  using translate_cong [of s t] by (simp add: mapped_at_def)

lemma point_video_cr3: "unat (ucast p :: u8) < 8 \<Longrightarrow> cr3 (point_video c p s) = unat (ucast p :: u8)"
  by (simp add: point_video_def Let_def map_vid_mem_tables(3) [OF _ refl])

lemma resumed_schedule [simp]:
  "current_schedule (resumed_state c q s) = current_schedule s" "schedule_counter (resumed_state c q s) = schedule_counter s"
  "terminal_to_switch_to (resumed_state c q s) = terminal_to_switch_to s"
  by (simp_all add: resumed_state_def send_eoi_def outb_def set_pid_def point_video_def scheduler_vidmap_def
      map_vid_mem_def cli_def sti_def Let_def)

lemma resumed_state_maps:
  assumes "tables_placed s" "q < 8" "pid (pcbs s q) = ucast q" "take_bit 12 (video_frame c s) = 0"
    and "term_id (terminal_at (unat c) s) = c"
  shows "mapped_at (resumed_state c q s) VIDEO 4000 (video_frame c s)"
    and "vidmapped (terminal_at (unat c) s) \<noteq> 0 \<Longrightarrow> mapped_at (resumed_state c q s) VIDMAP_ADDR 4000 (video_frame c s)"
proof -
  let ?s = "set_pid q (s\<lparr>tss_esp0 := kernel_stack (ucast q)\<rparr>)" and ?p = "ucast q :: u32"
  have q8: "unat (ucast ?p :: u8) < 8" "unat (ucast ?p :: u8) = unat q" using assms(2) by (simp_all add: word_less_nat_alt)
  have s': "resumed_state c q s = send_eoi PIT_IRQ ((point_video c ?p ?s)\<lparr>cr3 := unat q\<rparr>)"
    using assms(3) by (simp add: resumed_state_def unat_ucast8 Let_def)
  have "same_tables (send_eoi PIT_IRQ ((point_video c ?p ?s)\<lparr>cr3 := unat q\<rparr>)) (point_video c ?p ?s)"
    using point_video_cr3 [OF q8(1), of c ?s] q8(2) by (simp add: same_tables_def send_eoi_def outb_def)
  note tables = mapped_at_tables [OF this]
  have same: "video_frame c ?s = video_frame c s" "terminal_at (unat c) ?s = terminal_at (unat c) s"
    "tables_placed ?s = tables_placed s"
    by (simp_all add: video_frame_def set_pid_def terminal_at_def tables_placed_def proc_table_addr_def)
  show "mapped_at (resumed_state c q s) VIDEO 4000 (video_frame c s)"
    unfolding s' tables same(1) [symmetric] by (rule point_video_maps(1)) (use assms q8 same in simp_all)
  show "mapped_at (resumed_state c q s) VIDMAP_ADDR 4000 (video_frame c s)" if "vidmapped (terminal_at (unat c) s) \<noteq> 0"
    unfolding s' tables same(1) [symmetric] by (rule point_video_maps(2)) (use assms q8 same that in simp_all)
qed

lemma irqh_pit_resumes:
  fixes esp ebp :: u32
  assumes s1: "take_switch s = Some s1" and c: "next_schedule (terminals s1) (schedule_counter s) = Some c"
    and "c \<noteq> current_schedule s" "running (terminal_at (unat c) s) = 1"
    and q: "turn_of (unat c) s = Some q" "q < 8" "pid (pcbs s q) = ucast q"
  defines "s2 \<equiv> save_context esp ebp (s1\<lparr>schedule_counter := c, current_schedule := c\<rparr>)"
  shows "irqh_pit frame esp ebp s = Some (Switch (resumed_state c q s2) (ksp (pcbs s2 q)) (kbp (pcbs s2 q)))"
    and "pid (pcbs s2 q) = ucast q"
proof -
  have keeps: "same_but_cursor s s1" by (rule take_switch_keeps [OF s1])
  have at: "terminal_at t s2 = terminal_at t s1" for t
    by (simp add: s2_def save_context_def update_pcb_def terminal_at_def)
  have links: "child_pcb (pcbs s2 p) = child_pcb (pcbs s p)" "pid (pcbs s2 p) = pid (pcbs s p)" for p
    using keeps by (simp_all add: s2_def save_context_def update_pcb_def same_but_cursor_def)
  show own: "pid (pcbs s2 q) = ucast q" using q(3) links(2) by simp
  have "turn_of (unat c) s2 = turn_of (unat c) s"
    by (rule turn_of_keeps) (use links at keeps in \<open>simp_all add: same_but_cursor_def\<close>)
  then have turn: "turn_of (unat c) s2 = Some q" using q(1) by simp
  let ?t = "point_video c (ucast q) (set_pid q (s2\<lparr>tss_esp0 := kernel_stack (ucast q)\<rparr>))"
  have "get_current_pcb ?t = pcbs s2 q" by (simp add: get_current_pcb_def set_pid_def)
  then have "flush_tlb ?t = Some (?t\<lparr>cr3 := unat q\<rparr>)"
    using q(2) own by (simp add: flush_tlb_def Let_def unat_ucast8 word_le_nat_alt word_less_nat_alt)
  then have "resume_process c s2 = Some (Switch (resumed_state c q s2) (ksp (pcbs s2 q)) (kbp (pcbs s2 q)))"
    using turn by (simp add: resume_process_def turn_of_def resumed_state_def own Let_def unat_ucast8 set_pid_def)
  moreover have "c \<noteq> current_schedule s1" "running (terminal_at (unat c) s2) = 1" "schedule_counter s1 = schedule_counter s"
    using assms(3,4) keeps by (simp_all add: at same_but_cursor_def)
  ultimately show "irqh_pit frame esp ebp s = Some (Switch (resumed_state c q s2) (ksp (pcbs s2 q)) (kbp (pcbs s2 q)))"
    using c unfolding irqh_pit_def s1 Option.bind.simps Let_def s2_def [symmetric] by (simp add: s2_def [symmetric])
qed

text \<open>
  C11: At a timer interrupt the turn goes to the process at the end of the chain of the next
  running terminal: it runs on its own kernel stack and directory, and its video page, with
  the page it got from \<^verbatim>\<open>vidmap\<close> when there is one, leads to the screen if the
  terminal is on display and to the terminal's own buffer if it is not.
\<close>

theorem resumed_process_draws_on_its_terminal:
  assumes "take_switch s = Some s1" "next_schedule (terminals s1) (schedule_counter s) = Some c"
    and "c \<noteq> current_schedule s" "running (terminal_at (unat c) s) = 1"
    and "turn_of (unat c) s = Some q" "q < 8" "pid (pcbs s q) = ucast q"
    and "tables_placed s" "take_bit 12 (vid_mem_buf (terminal_at (unat c) s)) = 0"
      "term_id (terminal_at (unat c) s) = c"
  shows "\<exists>s' a b. irqh_pit frame esp ebp s = Some (Switch s' a b) \<and> current_schedule s' = c \<and> running_pid s' = q \<and>
    tss_esp0 s' = kernel_stack (ucast q) \<and> cr3 s' = unat q \<and>
    mapped_at s' VIDEO 4000 (video_frame c s1) \<and>
    (vidmapped (terminal_at (unat c) s) \<noteq> 0 \<longrightarrow> mapped_at s' VIDMAP_ADDR 4000 (video_frame c s1))"
proof -
  let ?s = "save_context esp ebp (s1\<lparr>schedule_counter := c, current_schedule := c\<rparr>)"
  note tick = irqh_pit_resumes [OF assms(1-7), where esp = esp and ebp = ebp]
  have keeps: "same_but_cursor s s1" by (rule take_switch_keeps [OF assms(1)])
  have at: "terminal_at t ?s = terminal_at t s1" "current_schedule ?s = c" for t
    by (simp_all add: save_context_def update_pcb_def terminal_at_def)
  have placed: "tables_placed ?s" using assms(8) keeps
    by (simp add: save_context_def update_pcb_def tables_placed_def proc_table_addr_def same_but_cursor_def)
  have id: "term_id (terminal_at (unat c) ?s) = c" and vm: "vidmapped (terminal_at (unat c) ?s) = vidmapped (terminal_at (unat c) s)"
    and al: "take_bit 12 (video_frame c ?s) = 0"
    using assms(9,10) keeps unfolding video_frame_def at same_but_cursor_def by (simp_all add: take_bit_eq_mod)
  note maps = resumed_state_maps [OF placed assms(6) tick(2) al id]
  have "video_frame c ?s = video_frame c s1"
    by (simp add: video_frame_def terminal_at_def save_context_def update_pcb_def)
  then show ?thesis using tick(1,2) maps at(2) vm by (intro exI conjI) auto
qed

lemma resumed_process_draws_on_its_terminal_witness:
  "\<exists>s' a b. irqh_pit demo_frame 0x7FDF00 0x7FDF80 demo_sched = Some (Switch s' a b) \<and> running_pid s' = 1 \<and>
    mapped_at s' VIDEO 4000 0xBA000"
proof -
  have take: "take_switch demo_sched = Some demo_sched" by (simp add: take_switch_def)
  have "next_schedule (terminals demo_sched) (schedule_counter demo_sched) = Some 1"
    by (simp add: next_schedule_step demo_terminal_def)
  from resumed_process_draws_on_its_terminal [OF take this, of 1 demo_frame "0x7FDF00" "0x7FDF80"]
  obtain s' a b where s': "irqh_pit demo_frame 0x7FDF00 0x7FDF80 demo_sched = Some (Switch s' a b)"
    "current_schedule s' = 1" "running_pid s' = 1" "mapped_at s' VIDEO 4000 (video_frame 1 demo_sched)"
    using demo_sched_turns demo_terms_placed
    by (auto simp: terminal_at_def demo_terminal_def blank_pcb_def take_bit_eq_mod)
  then show ?thesis by (auto simp: video_frame_def terminal_at_def demo_terminal_def)
qed

text \<open>
  C24: A process that the scheduler interrupted for another one comes back, whenever its
  terminal's turn comes again, on exactly the stack it was interrupted on, if nobody else wrote
  its saved pointers in between.
\<close>

theorem interrupted_process_resumes:
  assumes "irqh_pit frame esp ebp s = Some (Switch s1 a b)" "turns_ok s"
    and "irqh_pit frame' esp' ebp' s2 = Some (Switch s3 a' b')" "turns_ok s2"
    and "running_pid s3 = running_pid s" "running_pid s2 \<noteq> running_pid s"
    and "ksp (pcbs s2 (running_pid s)) = ksp (pcbs s1 (running_pid s))"
    and "kbp (pcbs s2 (running_pid s)) = kbp (pcbs s1 (running_pid s))"
  shows "a' = esp \<and> b' = ebp"
proof -
  have saved: "pcbs t' = (pcbs t)(running_pid t := (pcbs t (running_pid t))\<lparr>ksp := esp, kbp := ebp\<rparr>) \<and>
      a = ksp (pcbs t' (running_pid t')) \<and> b = kbp (pcbs t' (running_pid t'))"
    if tick: "irqh_pit frame esp ebp t = Some (Switch t' a b)" and ok: "turns_ok t" for frame esp ebp t t' a b
  proof -
    obtain t1 c q where t1: "take_switch t = Some t1"
      and t': "t' = resumed_state c q (save_context esp ebp (t1\<lparr>schedule_counter := c, current_schedule := c\<rparr>))"
      and q: "pid (pcbs t q) = ucast q" "a = ksp (pcbs t' q)" "b = kbp (pcbs t' q)"
      using irqh_pit_switch [OF tick ok] by blast
    let ?t = "save_context esp ebp (t1\<lparr>schedule_counter := c, current_schedule := c\<rparr>)"
    have keeps: "same_but_cursor t t1" by (rule take_switch_keeps [OF t1])
    have own: "pid (pcbs ?t q) = ucast q"
      using keeps q(1) by (auto simp: save_context_def update_pcb_def same_but_cursor_def)
    have "running_pid t' = q" "pcbs t' = pcbs ?t" using own by (simp_all add: t')
    then show ?thesis using keeps q by (simp add: save_context_def update_pcb_def same_but_cursor_def)
  qed
  show ?thesis using saved [OF assms(1,2)] saved [OF assms(3,4)] assms(5-8) by simp
qed

lemma interrupted_process_resumes_witness:
  "\<exists>s1 s3 a b. irqh_pit demo_frame 0x7FDF00 0x7FDF80 demo_sched = Some (Switch s1 a b) \<and>
    irqh_pit demo_frame 0x7FBF00 0x7FBF80 s1 = Some (Switch s3 0x7FDF00 0x7FDF80)"
proof -
  have take: "take_switch demo_sched = Some demo_sched" by (simp add: take_switch_def)
  have next1: "next_schedule (terminals demo_sched) (schedule_counter demo_sched) = Some 1"
    by (simp add: next_schedule_step demo_terminal_def)
  let ?s = "save_context 0x7FDF00 0x7FDF80 (demo_sched\<lparr>schedule_counter := 1, current_schedule := 1\<rparr>)"
  let ?s1 = "resumed_state 1 1 ?s"
  note first = irqh_pit_resumes [OF take next1, where q = 1 and esp = "0x7FDF00" and ebp = "0x7FDF80"]
  have own: "pid (pcbs ?s 1) = 1" "pid (pcbs ?s 1) = ucast (1 :: u8)" by (simp_all add: save_context_def update_pcb_def)
  have s1: "irqh_pit demo_frame 0x7FDF00 0x7FDF80 demo_sched = Some (Switch ?s1 0 0)"
    using first(1) [of demo_frame] demo_sched_turns by (simp add: terminal_at_def demo_terminal_def own) (simp add: save_context_def update_pcb_def blank_pcb_def)
  have f1: "terminals ?s1 = terminals demo_sched" "schedule_counter ?s1 = 1" "current_schedule ?s1 = 1" "pcbs ?s1 = pcbs ?s"
    "running_pid ?s1 = 1"
    using own by (simp_all add: save_context_def update_pcb_def)
  have take1: "take_switch ?s1 = Some ?s1" by (simp add: take_switch_def save_context_def update_pcb_def)
  have next2: "next_schedule (terminals ?s1) (schedule_counter ?s1) = Some 0"
    unfolding f1 by (simp add: next_schedule_step demo_terminal_def demo_line_def)
  have turn: "turn_of t ?s1 = turn_of t demo_sched" for t
    by (rule turn_of_keeps) (simp_all only: f1 terminal_at_def, simp add: save_context_def update_pcb_def)
  have own2: "pid (pcbs ?s1 2) = ucast (2 :: u8)" unfolding f1 by (simp add: save_context_def update_pcb_def)
  have ok: "turns_ok ?s1" 
    using demo_sched_turns(3) unfolding turns_ok_def turn f1 terminal_at_def by (simp add: save_context_def update_pcb_def)
  let ?s3 = "resumed_state 0 2 (save_context 0x7FBF00 0x7FBF80 (?s1\<lparr>schedule_counter := 0, current_schedule := 0\<rparr>))"
  note second = irqh_pit_resumes [OF take1 next2, where q = 2 and esp = "0x7FBF00" and ebp = "0x7FBF80"]
  have "\<exists>a b. irqh_pit demo_frame 0x7FBF00 0x7FBF80 ?s1 = Some (Switch ?s3 a b)"
  proof (intro exI, rule second(1))
    show "0 \<noteq> current_schedule ?s1" unfolding f1 by simp
    show "running (terminal_at (unat (0 :: u8)) ?s1) = 1"
      unfolding terminal_at_def f1 by (simp add: demo_line_def demo_terminal_def)
    show "turn_of (unat (0 :: u8)) ?s1 = Some 2" using demo_sched_turns(1) by (simp add: turn)
  qed (use own2 in simp_all)
  then obtain a b where s3: "irqh_pit demo_frame 0x7FBF00 0x7FBF80 ?s1 = Some (Switch ?s3 a b)" by blast
  have "running_pid ?s3 = 2" using own2 by (simp add: save_context_def update_pcb_def f1)
  from interrupted_process_resumes [OF s1 demo_sched_turns(3) s3 ok] this
  have "a = 0x7FDF00 \<and> b = 0x7FDF80" by (simp add: f1)
  with s1 s3 show ?thesis by blast
qed

text \<open>
  C25: The search of the scheduler ends exactly when some terminal has the status
  \<^verbatim>\<open>TASK_RUNNING\<close>, and its result is the first such terminal after the counter.
\<close>

theorem scheduler_search:
  assumes "c < TERMINAL_NUM"
  shows "next_schedule ts c = map_option of_nat (next_running ts (unat c)) \<and>
    (next_schedule ts c \<noteq> None) = (\<exists>t<3. status (ts ! t) = TASK_RUNNING)"
proof -
  have "next_running ts (unat c) \<noteq> None" if "\<exists>t<3. status (ts ! t) = TASK_RUNNING"
  proof -
    from that have "status (ts ! 0) = TASK_RUNNING \<or> status (ts ! 1) = TASK_RUNNING \<or> status (ts ! 2) = TASK_RUNNING"
      by (auto simp: numeral_3_eq_3 less_Suc_eq numeral_2_eq_2)
    with assms show ?thesis unfolding three_terminals
      by (elim disjE) (simp_all add: next_running_cases split: if_split)
  qed
  moreover have "\<exists>t<3. status (ts ! t) = TASK_RUNNING" if found: "next_running ts (unat c) \<noteq> None"
  proof -
    obtain t where "next_running ts (unat c) = Some t" using found by auto
    then have "status (ts ! t) = TASK_RUNNING" "t < 3" by (auto simp: next_running_def split: if_split_asm)
    then show ?thesis by blast
  qed
  ultimately show ?thesis by (auto simp: next_schedule_running [OF assms])
qed

lemma scheduler_search_witness: "next_schedule (terminals demo_sched) 1 = Some 0"
  using scheduler_search [of 1 "terminals demo_sched"]
  by (simp add: next_running_cases demo_terminal_def demo_line_def)

lemma every_terminal_gets_its_turn_witness:
  "\<exists>i \<in> {1, 2, 3}. [0, 1, 0, 1] ! i = (of_nat 1 :: u8)"
proof (rule every_terminal_gets_its_turn)
  fix i :: nat assume "i < 3"
  then consider "i = 0" | "i = 1" | "i = 2" by linarith
  then show "next_schedule (terminals demo_sched) ([0, 1, 0, 1] ! i) = Some ([0, 1, 0, 1] ! Suc i) \<and>
      status (terminals demo_sched ! 1) = TASK_RUNNING"
    by cases (simp_all add: next_schedule_step demo_terminal_def demo_line_def)
qed simp_all

text \<open>
  Pressing Alt and one of the first three function keys puts that terminal on display at
  the next timer interrupt, once, and marks it for the scheduler; the three screens and
  cursors stay what they were.
\<close>

theorem alt_function_key_shows_terminal:
  assumes "display_ok s" "multi_byte s = 0" "length (key_state s) = 89" "alt_pressed s" "n < 3"
  shows "\<exists>s1 s2. handle_keypress (SCS1_PRESSED_F1 + of_nat n) s = Some s1 \<and> take_switch s1 = Some s2 \<and>
    current_terminal s2 = of_nat n \<and> terminal_to_switch_to s2 = - 1 \<and>
    (\<forall>t<3. virtual_screen t s2 = virtual_screen t s \<and> virtual_cursor t s2 = virtual_cursor t s)"
proof -
  let ?code = "SCS1_PRESSED_F1 + of_nat n :: u32"
  let ?p = "note_press ?code s"
  define s1 where "s1 = (send_eoi KEYBOARD_IRQ ?p)\<lparr>terminal_to_switch_to := int n\<rparr>"
  from assms(5) consider "n = 0" | "n = 1" | "n = 2" by linarith
  then have key: "handle_keypress ?code s = Some s1"
    by cases (use assms in \<open>simp_all add: handle_keypress_def press_key_def Let_def alt_pressed_def is_func_key_def
      note_press_def set_key_def key_at_def s1_def\<close>)
  have same: "same_tables s1 s" "pcbs s1 = pcbs s" "running_pid s1 = running_pid s" "terminals s1 = terminals s"
    "current_terminal s1 = current_terminal s" "screen_x s1 = screen_x s" "screen_y s1 = screen_y s" "memory s1 = memory s"
    by (simp_all add: s1_def note_press_def set_key_def send_eoi_def outb_def same_tables_def)
  have view: "virtual_screen t s1 = virtual_screen t s" "virtual_cursor t s1 = virtual_cursor t s"
    "terminal_at t s1 = terminal_at t s" for t
    by (simp_all add: virtual_screen_def virtual_cursor_def page_of_def terminal_at_def same)
  have "display_ok s1" using assms(1) low_memory_cong [OF same(1-3)]
    unfolding display_ok_def bufs_ok_def view same by blast
  then obtain s2 where s2: "switch_terminal (of_nat n) s1 = Some s2" "current_terminal s2 = of_nat n"
    "\<forall>t<3. virtual_screen t s2 = virtual_screen t s1 \<and> virtual_cursor t s2 = virtual_cursor t s1"
    using switch_terminal_step [of s1 "of_nat n"] assms(5)
    by (auto simp: display_ok_def word_less_nat_alt unat_of_nat)
  let ?s2 = "s2\<lparr>terminal_to_switch_to := - 1\<rparr>"
  have "take_switch s1 = Some ?s2" using s2(1) by (simp add: take_switch_def s1_def)
  moreover have "virtual_screen t ?s2 = virtual_screen t s2" "virtual_cursor t ?s2 = virtual_cursor t s2"
 for t
    by (simp_all add: virtual_screen_def virtual_cursor_def page_of_def terminal_at_def)
  ultimately show ?thesis using key s2(2,3) view by (intro exI [of _ s1] exI [of _ ?s2]) simp
qed

lemma alt_function_key_shows_terminal_witness:
  "\<exists>s s1 s2. handle_keypress 0x3C (s :: scheduler) = Some s1 \<and> take_switch s1 = Some s2 \<and>
    current_terminal s = 0 \<and> current_terminal s2 = 1"
proof -
  let ?s = "(fst (make_task_pgdir 2 demo_sched))\<lparr>key_state := (replicate 89 0)[0x38 := 1]\<rparr>"
  let ?t = "fst (make_task_pgdir 2 demo_sched)"
  have f: "terminals ?s = terminals demo_sched" "current_terminal ?s = 0" "multi_byte ?s = 0"
    "screen_x ?s = 0" "screen_y ?s = 0"
    by (simp_all add: make_task_pgdir_def Let_def demo_sched_def keyboard.extend_def demo_keyboard_def terms.extend_def
      del: upt_rec_numeral)
  have "low_memory ?t" by (rule make_task_low_memory) (simp_all add: demo_terms_placed get_current_pcb_def)
  then have "low_memory ?s" using low_memory_cong [of ?s ?t] by (simp add: same_tables_def)
  then have "display_ok ?s"
    by (simp add: display_ok_def bufs_ok_def virtual_cursor_def f all_below_3)
      (simp add: terminal_at_def f demo_line_def demo_terminal_def)
  then have "\<exists>s1 s2. handle_keypress (0x3B + of_nat 1) ?s = Some s1 \<and> take_switch s1 = Some s2 \<and>
      current_terminal s2 = of_nat 1 \<and> terminal_to_switch_to s2 = - 1 \<and>
      (\<forall>t<3. virtual_screen t s2 = virtual_screen t ?s \<and> virtual_cursor t s2 = virtual_cursor t ?s)"
    by (rule alt_function_key_shows_terminal) (simp_all add: f alt_pressed_def key_at_def)
  then obtain s1 s2 where "handle_keypress (0x3B + of_nat 1) ?s = Some s1" "take_switch s1 = Some s2" "current_terminal s2 = of_nat 1"
    by blast
  then have "handle_keypress 0x3C ?s = Some s1 \<and> take_switch s1 = Some s2 \<and> current_terminal ?s = 0 \<and> current_terminal s2 = 1"
    using f(2) by simp
  then show ?thesis by blast
qed

text \<open>
  A shell started while the third terminal is on display for the first time and the second
  one was never used is put on the second terminal: the first free one is taken, not the one
  whose turn it is, and the third terminal stays without a process.
\<close>

theorem shell_lands_on_wrong_terminal:
  assumes "length (terminals s) = 3" "current_terminal s = 2" "running (terminal_at 0 s) = 1"
    and "running (terminal_at 1 s) = 0" "running (terminal_at 2 s) = 0"
  shows "\<exists>s'. terminal_for_new s = (s', Some 1) \<and> term_pid (terminal_at 1 s') = ucast (running_pid s) \<and>
    running (terminal_at 2 s') = 0"
  using assms terminal_at_update [of s 1 2] terminal_at_update [of s 1 1]
  by (simp add: terminal_for_new_def new_terminal_def find_0_2)

lemma shell_lands_on_wrong_terminal_witness:
  "\<exists>s'. terminal_for_new (demo_terms\<lparr>current_terminal := 2,
      terminals := [demo_terminal 0 0 0xB9000, (demo_terminal 5 1 0xBA000)\<lparr>running := 0\<rparr>, (demo_terminal 6 2 0xBB000)\<lparr>running := 0\<rparr>]\<rparr>) =
    (s', Some 1)"
  using shell_lands_on_wrong_terminal [of "demo_terms\<lparr>current_terminal := 2,
      terminals := [demo_terminal 0 0 0xB9000, (demo_terminal 5 1 0xBA000)\<lparr>running := 0\<rparr>, (demo_terminal 6 2 0xBB000)\<lparr>running := 0\<rparr>]\<rparr>"]
  by (auto simp: terminal_at_def demo_terminal_def)

end
