(* ===== verification/Printf.thy ===== *)
theory Printf
  imports Terminal_Io
begin

text \<open>
  \<^verbatim>\<open>printf\<close> and \<^verbatim>\<open>puts\<close> of \<^verbatim>\<open>student-distrib/lib.c\<close>, on formats and strings in
  memory. The stacked arguments are a list; running out of it reads past them. The address of
  the conversion buffer on the stack is an argument. The reference semantics renders a format
  to a text, and the text is printed on the abstract screen.
\<close>

definition fetch :: "u32 \<Rightarrow> 'a paging_scheme \<Rightarrow> u8 option" where
  "fetch a s = map_option (memory s) (translate s a)"

subsection \<open>The conversions\<close>

text \<open>A number's text and its NUL are written to the buffer.\<close>

definition store_number :: "u32 \<Rightarrow> u32 \<Rightarrow> u32 \<Rightarrow> 'a paging_scheme \<Rightarrow> 'a paging_scheme option" where
  "store_number v addr radix s =
     Option.bind (itoa (vmem s) v addr radix) (\<lambda>m.
     Option.bind (strlen m addr) (\<lambda>l. put_bytes addr (bytes_at m addr (unat l + 1)) s))"

definition print_number :: "u32 \<Rightarrow> u32 \<Rightarrow> u32 \<Rightarrow> 'a terms_scheme \<Rightarrow> 'a terms_scheme option" where
  "print_number conv_buf v radix s =
     Option.bind (store_number v conv_buf radix s) (\<lambda>s. map_option fst (puts conv_buf s))"

text \<open>\<^verbatim>\<open>%#x\<close>: the digits go to the buffer's ninth byte, zeros before them, from the length on.\<close>

definition print_padded :: "u32 \<Rightarrow> u32 \<Rightarrow> 'a terms_scheme \<Rightarrow> 'a terms_scheme option" where
  "print_padded conv_buf v s =
     Option.bind (store_number v (conv_buf + 8) 16 s) (\<lambda>s.
     Option.bind (strlen (vmem s) (conv_buf + 8)) (\<lambda>starting_index.
     Option.bind (put_bytes (conv_buf + starting_index) (replicate (8 - unat starting_index) 0x30) s) (\<lambda>s.
       map_option fst (puts (conv_buf + starting_index) s))))"

definition print_signed :: "u32 \<Rightarrow> u32 \<Rightarrow> 'a terms_scheme \<Rightarrow> 'a terms_scheme option" where
  "print_signed conv_buf v s =
     (if sint v < 0
      then Option.bind (put_byte conv_buf 0x2D s) (\<lambda>s.
           Option.bind (store_number (- v) (conv_buf + 1) 10 s) (\<lambda>s. map_option fst (puts conv_buf s)))
      else print_number conv_buf v 10 s)"

text \<open>A conversion character and the arguments left; an unknown one prints nothing.\<close>

definition print_conversion ::
  "u32 \<Rightarrow> bool \<Rightarrow> u8 \<Rightarrow> u32 list \<Rightarrow> 'a terms_scheme \<Rightarrow> ('a terms_scheme \<times> u32 list) option"
where
  "print_conversion conv_buf alternate c args s =
     (if c = 0x25 then map_option (\<lambda>s. (s, args)) (putc 0x25 s)
      else if c \<in> {0x78, 0x75, 0x64, 0x63, 0x73} then
        case args of
          [] \<Rightarrow> None
        | v # rest \<Rightarrow> map_option (\<lambda>s. (s, rest))
           (if c = 0x78 then if alternate then print_padded conv_buf v s else print_number conv_buf v 16 s
            else if c = 0x75 then print_number conv_buf v 10 s
            else if c = 0x64 then print_signed conv_buf v s
            else if c = 0x63 then putc (ucast v) s
            else map_option fst (puts v s))
      else Some (s, args))"

subsection \<open>The format\<close>

text \<open>From the character after \<^verbatim>\<open>%\<close>: the flag \<^verbatim>\<open>#\<close>, any number of times, and the conversion.\<close>

partial_function (option) printf_spec ::
  "u32 \<Rightarrow> bool \<Rightarrow> u32 \<Rightarrow> u32 list \<Rightarrow> 'a terms_scheme \<Rightarrow> ('a terms_scheme \<times> u32 \<times> u32 list) option"
where
  "printf_spec conv_buf alternate buf args s =
     Option.bind (fetch buf s) (\<lambda>c.
       if c = 0x23 then printf_spec conv_buf True (buf + 1) args s
       else map_option (\<lambda>(s, args). (s, buf, args)) (print_conversion conv_buf alternate c args s))"

partial_function (option) printf_loop ::
  "u32 \<Rightarrow> u32 \<Rightarrow> u32 list \<Rightarrow> 'a terms_scheme \<Rightarrow> ('a terms_scheme \<times> u32) option"
where
  "printf_loop conv_buf buf args s =
     Option.bind (fetch buf s) (\<lambda>c.
       if c = 0 then Some (s, buf)
       else if c = 0x25 then
         Option.bind (printf_spec conv_buf False (buf + 1) args s) (\<lambda>(s, buf, args).
           printf_loop conv_buf (buf + 1) args s)
       else Option.bind (putc c s) (printf_loop conv_buf (buf + 1) args))"

definition printf :: "u32 \<Rightarrow> u32 \<Rightarrow> u32 list \<Rightarrow> 'a terms_scheme \<Rightarrow> ('a terms_scheme \<times> int) option" where
  "printf conv_buf format args s =
     map_option (\<lambda>(s, buf). (s, sint (buf - format))) (printf_loop conv_buf format args s)"

subsection \<open>Rendering\<close>

text \<open>
  The text of a conversion. Strings are looked up by address; numbers that
  \<^verbatim>\<open>itoa\<close> cannot convert have no text.
\<close>

definition unsigned_text :: "nat \<Rightarrow> u32 \<Rightarrow> u8 list option" where
  "unsigned_text r v = (if unat v < 2147483648 then Some (number_text r (unat v)) else None)"

definition value_text :: "(u32 \<Rightarrow> u8 list option) \<Rightarrow> bool \<Rightarrow> u8 \<Rightarrow> u32 \<Rightarrow> u8 list option" where
  "value_text strs alternate c v =
     (if c = 0x78 then map_option (\<lambda>t. (if alternate then replicate (8 - length t) 0x30 else []) @ t) (unsigned_text 16 v)
      else if c = 0x75 then unsigned_text 10 v
      else if c = 0x64 then if sint v < 0 then map_option (Cons 0x2D) (unsigned_text 10 (- v)) else unsigned_text 10 v
      else if c = 0x63 then Some [ucast v]
      else strs v)"

definition conversion_text ::
  "(u32 \<Rightarrow> u8 list option) \<Rightarrow> bool \<Rightarrow> u8 \<Rightarrow> u32 list \<Rightarrow> (u8 list \<times> u32 list) option"
where
  "conversion_text strs alternate c args =
     (if c = 0x25 then Some ([0x25], args)
      else if c \<in> {0x78, 0x75, 0x64, 0x63, 0x73} then
        case args of [] \<Rightarrow> None | v # rest \<Rightarrow> map_option (\<lambda>t. (t, rest)) (value_text strs alternate c v)
      else Some ([], args))"

fun render :: "(u32 \<Rightarrow> u8 list option) \<Rightarrow> bool option \<Rightarrow> u8 list \<Rightarrow> u32 list \<Rightarrow> u8 list option" where
  "render strs None [] args = Some []"
| "render strs (Some alternate) [] args = None"
| "render strs None (c # cs) args =
     (if c = 0x25 then render strs (Some False) cs args else map_option (Cons c) (render strs None cs args))"
| "render strs (Some alternate) (c # cs) args =
     (if c = 0x23 then render strs (Some True) cs args
      else Option.bind (conversion_text strs alternate c args) (\<lambda>(t, args).
        map_option (\<lambda>r. t @ r) (render strs None cs args)))"

subsection \<open>What printing leaves alone\<close>

lemma put_screen_char_within:
  assumes ok: "screen_ok pa s" and put: "put_screen_char c s = Some s'"
  shows "within pa s s'"
proof -
  let ?x = "screen_x s" and ?y = "screen_y s"
  have map: "mapped_at s VIDEO 4000 pa" "unat pa + 4000 \<le> 4294967296" and xy: "?x < 80" "?y < 25"
    using ok by (simp_all add: screen_ok_def)
  have cursor: "within pa s (t\<lparr>screen_x := x, screen_y := y\<rparr>) = within pa s t" for t x y by (simp add: within_def)
  consider "c = 0x0A" | "c = 0x08" | "c \<noteq> 0x0A" "c \<noteq> 0x08" by blast
  then show ?thesis
  proof cases
    case 1
    then obtain s1 y' where "next_row ?y s = Some (s1, y')" "s' = s1\<lparr>screen_x := 0, screen_y := y'\<rparr>"
      using put by (auto simp: put_screen_char_def)
    then show ?thesis using next_row_within [OF map] cursor by simp
  next
    case 2
    let ?s1 = "if ?x = 0 \<and> ?y > 0 then set_screen_xy (NUM_COLS - 1) (?y - 1) s else set_screen_x (?x - 1) s"
    have clear: "clear_screen_xy ?s1 = Some s'" using put 2 by (simp add: put_screen_char_def Let_def get_screen_x_def get_screen_y_def)
    have prints: "prints_only s ?s1" "memory ?s1 = memory s" 
      by (simp_all add: set_screen_xy_simps set_screen_x_def)
    have "screen_x ?s1 < 80 \<and> screen_y ?s1 < 25"
      using backspace_position [OF xy] xy
      by (auto simp: set_screen_xy_simps set_screen_x_def word_gt_0)
    then have "screen_ok pa ?s1" using ok screen_ok_frame [OF prints(1), of pa] by simp
    from clear_within [OF this clear] show ?thesis using prints(2) by (simp add: within_def)
  next
    case 3
    then obtain s1 s2 x' y' where cell: "put_cell (VIDEO + cell_offset ?x ?y) c s = Some s1"
      and adv: "advance ?x ?y s1 = Some (s2, x', y')" and s': "s' = s2\<lparr>screen_x := x', screen_y := y'\<rparr>"
      using put by (auto simp: put_screen_char_def bind_eq_Some_conv)
    have s1: "within pa s s1" "\<exists>m. s1 = s\<lparr>memory := m\<rparr>"
      using put_cell_within [OF map(1) cell_index [OF xy]] cell by (simp_all add: cell_offset_nat)
    then have "mapped_at s1 VIDEO 4000 pa" using map(1) by auto
    from advance_within [OF this map(2) adv] s1(1) s' cursor show ?thesis by (simp add: within_trans)
  qed
qed

lemma putc_within:
  assumes ok: "putc_ok pa s" and put: "putc c s = Some s'"
  shows "within pa s s'"
proof -
  obtain "term" where run: "get_running_terminal s = Some term" "hidden_terminal term s = None"
    and scr: "screen_ok pa s" using ok by (auto simp: putc_ok_def)
  let ?c = "if c = 0x09 then 0x20 else c :: u8"
  have "putc_char ?c s = Some s'" using run put by (simp add: putc_def split: if_split_asm)
  then consider "s' = s" | s1 where "put_screen_char ?c s = Some s1" "s' = set_cursor_location (screen_x s1) (screen_y s1) s1"
    using run by (auto simp: putc_char_def Let_def split: if_split_asm)
  then show ?thesis
  proof cases
    case 2
    then show ?thesis using put_screen_char_within [OF scr] by (simp add: within_def)
  qed simp
qed

lemma puts_loop_prints:
  assumes "putc_ok pa s" "mapped_at s a (length xs + 1) base" "cstr (memory s) base xs"
    and "\<And>i. i \<le> length xs \<Longrightarrow> 4000 \<le> unat (base + of_nat i - pa)" "k \<le> length xs"
  shows "\<exists>s'. puts_loop a (int k) s = Some (s', int (length xs)) \<and> putc_ok pa s' \<and> prints_only s s' \<and>
    within pa s s' \<and> screen_of pa s' = fold screen_put (drop k xs) (screen_of pa s)"
  using assms
proof (induction "length xs - k" arbitrary: k s)
  case 0
  then have k: "k = length xs" by simp
  have "translate s (a + of_nat k) = Some (base + of_nat k)" using mapped_at_nth [OF 0(3), of k] k by simp
  moreover have "memory s (base + of_nat k) = 0" using cstr_end [OF 0(4)] k by simp
  ultimately show ?case using 0 k by (subst puts_loop.simps) simp
next
  case (Suc n)
  then have k: "k < length xs" by simp
  let ?c = "xs ! k"
  have tr: "translate s (a + of_nat k) = Some (base + of_nat k)" using mapped_at_nth [OF Suc(4), of k] k by simp
  have c: "memory s (base + of_nat k) = ?c" "?c \<noteq> 0"
    using cstr_nth [OF Suc(5) k] cstr_nonzero [OF Suc(5) k] by simp_all
  obtain s1 where s1: "putc ?c s = Some s1" "prints_only s s1" "putc_ok pa s1"
    "screen_of pa s1 = screen_put ?c (screen_of pa s)" using putc_prints [OF Suc(3)] by blast
  have in1: "within pa s s1" by (rule putc_within [OF Suc(3) s1(1)])
  have map1: "mapped_at s1 a (length xs + 1) base"
    using Suc(4) prints_only_translate [OF s1(2)] by (simp add: mapped_at_def)
  have str1: "cstr (memory s1) base xs"
    using Suc(5) in1 Suc(6) cstr_cong [of xs "memory s1" base "memory s"] by (auto simp: within_def)
  have "n = length xs - Suc k" using Suc(2) by simp
  from Suc(1) [OF this s1(3) map1 str1 Suc(6)] k
  obtain s' where s': "puts_loop a (int (Suc k)) s1 = Some (s', int (length xs))" "putc_ok pa s'" "prints_only s1 s'"
    "within pa s1 s'" "screen_of pa s' = fold screen_put (drop (Suc k) xs) (screen_of pa s1)" by auto
  have "puts_loop a (int k) s = puts_loop a (int (Suc k)) s1"
    using tr c s1(1) by (subst puts_loop.simps) (simp add: add.commute)
  moreover have "prints_only s s'" using s1(2) s'(3) by (simp add: prints_only_def same_tables_def)
  moreover have "drop k xs = ?c # drop (Suc k) xs" using k by (simp add: Cons_nth_drop_Suc)
  ultimately show ?case using s' s1(4) in1 within_trans by auto
qed

lemma puts_prints:
  assumes "putc_ok pa s" "mapped_at s a (length xs + 1) base" "cstr (memory s) base xs"
    and "\<And>i. i \<le> length xs \<Longrightarrow> 4000 \<le> unat (base + of_nat i - pa)"
  shows "\<exists>s'. puts a s = Some (s', int (length xs)) \<and> putc_ok pa s' \<and> prints_only s s' \<and>
    within pa s s' \<and> screen_of pa s' = fold screen_put xs (screen_of pa s)"
  using puts_loop_prints [OF assms, of 0] by (simp add: puts_def)

subsection \<open>The conversion buffer\<close>

definition conv_buffer :: "u32 \<Rightarrow> u32 \<Rightarrow> u32 \<Rightarrow> 'a paging_scheme \<Rightarrow> bool" where
  "conv_buffer cb cbase pa s \<longleftrightarrow> mapped_at s cb 64 cbase \<and> (\<forall>i<64. 4000 \<le> unat (cbase + of_nat i - pa))"

text \<open>Printing a text may also change the buffer, and nothing else in memory.\<close>

definition printed :: "u32 \<Rightarrow> u32 \<Rightarrow> u8 list \<Rightarrow> 'a terms_scheme \<Rightarrow> 'a terms_scheme \<Rightarrow> bool" where
  "printed pa cbase t s s' \<longleftrightarrow> prints_only s s' \<and> putc_ok pa s' \<and> screen_of pa s' = fold screen_put t (screen_of pa s) \<and>
     (\<forall>a. 4000 \<le> unat (a - pa) \<longrightarrow> 64 \<le> unat (a - cbase) \<longrightarrow> memory s' a = memory s a)"

lemma printed_trans: "printed pa cbase t s s1 \<Longrightarrow> printed pa cbase u s1 s2 \<Longrightarrow> printed pa cbase (t @ u) s s2"
  by (simp add: printed_def prints_only_def same_tables_def)

lemma printed_refl [simp]: "putc_ok pa s \<Longrightarrow> printed pa cbase [] s s"
  by (simp add: printed_def)

lemma printed_within:
  "prints_only s s' \<Longrightarrow> putc_ok pa s' \<Longrightarrow> within pa s s' \<Longrightarrow> screen_of pa s' = fold screen_put t (screen_of pa s) \<Longrightarrow>
    printed pa cbase t s s'"
  by (simp add: printed_def within_def)

lemma conv_buffer_frame: "printed pa cbase t s s' \<Longrightarrow> conv_buffer cb cbase pa s' = conv_buffer cb cbase pa s"
  using prints_only_translate [of s s'] by (simp add: printed_def conv_buffer_def mapped_at_def)

lemma printed_store:
  assumes "putc_ok pa s" "conv_buffer cb cbase pa s" "k + length bs \<le> 64"
  shows "printed pa cbase [] s (s\<lparr>memory := write_bytes (memory s) (cbase + of_nat k) bs\<rparr>)"
proof -
  let ?m = "write_bytes (memory s) (cbase + of_nat k) bs"
  have other: "?m a = memory s a" if "\<forall>i<64. a \<noteq> cbase + of_nat i" for a
  proof (rule write_bytes_out, rule ccontr)
    assume "\<not> length bs \<le> unat (a - (cbase + of_nat k))"
    then have "k + unat (a - (cbase + of_nat k)) < 64" using assms(3) by simp
    moreover have "a = cbase + of_nat (k + unat (a - (cbase + of_nat k)))" by simp
    ultimately show False using that by blast
  qed
  have video: "?m (pa + of_nat j) = memory s (pa + of_nat j)" if "j < 4000" for j
  proof (rule other, intro allI impI notI)
    fix i :: nat assume "i < 64" "pa + of_nat j = cbase + of_nat i"
    then have "4000 \<le> unat (pa + of_nat j - pa)" using assms(2) by (simp add: conv_buffer_def)
    then show False using that by (simp add: add_of_nat_diff)
  qed
  have cells: "cells_of ?m pa = cells_of (memory s) pa"
  proof (rule nth_equalityI)
    fix i assume "i < length (cells_of ?m pa)"
    then have i: "i < 2000" by simp
    then show "cells_of ?m pa ! i = cells_of (memory s) pa ! i"
      using video [of "2 * i"] video [of "2 * i + 1"] by (simp only: nth_cells_of)
  qed simp
  have "putc_ok pa (s\<lparr>memory := ?m\<rparr>)"
    by (rule putc_ok_frame [OF _ assms(1)]) (use assms(1) in \<open>simp_all add: putc_ok_def screen_ok_def\<close>)
  moreover have "?m a = memory s a" if "64 \<le> unat (a - cbase)" for a
  proof (rule other, intro allI impI notI)
    fix i :: nat assume "i < 64" "a = cbase + of_nat i"
    then show False using that by (simp add: add_of_nat_diff)
  qed
  ultimately show ?thesis using cells by (simp add: printed_def screen_of_def)
qed

text \<open>A string in the buffer is printed.\<close>

lemma printed_puts:
  assumes "putc_ok pa s" "conv_buffer cb cbase pa s" "k + length xs < 64" "0 \<notin> set xs"
    and "bytes_at (memory s) (cbase + of_nat k) (length xs + 1) = xs @ [0]"
  shows "\<exists>s'. puts (cb + of_nat k) s = Some (s', int (length xs)) \<and> printed pa cbase xs s s'"
proof -
  let ?b = "cbase + of_nat k"
  have map: "mapped_at s (cb + of_nat k) (length xs + 1) ?b"
    using assms(2,3) mapped_at_nth [of s cb 64 cbase] unfolding conv_buffer_def
    by (auto simp: mapped_at_def add.assoc simp flip: of_nat_add)
  have at: "memory s (?b + of_nat i) = (xs @ [0]) ! i" if "i \<le> length xs" for i
    using arg_cong [OF assms(5), of "\<lambda>l. l ! i"] that by simp
  have "bytes_at (memory s) ?b (length xs) = xs"
    by (rule nth_equalityI) (use at in \<open>auto simp: nth_append\<close>)
  then have str: "cstr (memory s) ?b xs" using assms(3,4) at [of "length xs"] by (simp add: cstr_def)
  have far: "4000 \<le> unat (?b + of_nat i - pa)" if "i \<le> length xs" for i
    using assms(2,3) that unfolding conv_buffer_def by (auto simp: add.assoc simp flip: of_nat_add)
  from puts_prints [OF assms(1) map str far] show ?thesis using printed_within by blast
qed

lemma length_base_digits_power: "2 \<le> r \<Longrightarrow> v < r ^ k \<Longrightarrow> length (base_digits r v) \<le> k"
proof (induction k arbitrary: v)
  case (Suc k)
  show ?case
  proof (cases "v = 0")
    case False
    have "v div r < r ^ k" using Suc.prems by (simp add: less_mult_imp_div_less mult.commute)
    then show ?thesis using Suc.IH [of "v div r"] Suc.prems(1) False by (subst base_digits.simps) simp
  qed (simp add: base_digits.simps)
qed (simp add: base_digits.simps)

lemma number_text_facts:
  assumes "2 \<le> r" "r \<le> 36" "v < 2147483648"
  shows "length (number_text r v) \<le> 31" "0 \<notin> set (number_text r v)"
    "r = 16 \<Longrightarrow> length (number_text r v) \<le> 8"
proof -
  show "length (number_text r v) \<le> 31" using length_base_digits [of r v 31] assms by (simp add: number_text_def)
  show "0 \<notin> set (number_text r v)"
  proof -
    have "digit_lookup ! d \<noteq> 0" if "d \<in> set (base_digits r v)" for d
      using base_digits_less [OF assms(1) that] assms(2) by (intro digit_lookup_nonzero) simp
    then show ?thesis by (auto simp: number_text_def)
  qed
  show "length (number_text r v) \<le> 8" if "r = 16"
    using length_base_digits_power [of 16 v 8] assms that by (simp add: number_text_def)
qed

lemma store_number_text:
  assumes "mapped_at s a n b" "length (number_text (unat r) (unat v)) < n"
    and "2 \<le> unat r" "unat r \<le> 36" "unat v < 2147483648"
  shows "store_number v a r s =
    Some (s\<lparr>memory := write_bytes (memory s) b (number_text (unat r) (unat v) @ [0])\<rparr>)"
proof -
  let ?t = "number_text (unat r) (unat v)"
  let ?m = "write_bytes (vmem s) a (?t @ [0])"
  note facts = number_text_facts [OF assms(3-5)]
  have all: "bytes_at ?m a (length (?t @ [0])) = ?t @ [0]"
    by (rule bytes_at_write_bytes) (use facts(1) in simp)
  have at: "?m (a + of_nat i) = (?t @ [0]) ! i" if "i \<le> length ?t" for i
    using nth_bytes_at [of i "length (?t @ [0])" ?m a] that unfolding all by simp
  have "bytes_at ?m a (length ?t) = ?t" by (rule nth_equalityI) (use at in \<open>auto simp: nth_append\<close>)
  then have "cstr ?m a ?t" using facts(1,2) at [of "length ?t"] by (simp add: cstr_def)
  then have "strlen ?m a = Some (of_nat (length ?t))" by (rule strlen_cstr)
  moreover have "put_bytes a (?t @ [0]) s = Some (s\<lparr>memory := write_bytes (memory s) b (?t @ [0])\<rparr>)"
    by (rule put_bytes_mapped) (use mapped_at_mono [OF assms(1)] assms(2) facts(1) in simp_all)
  ultimately show ?thesis
    using itoa_number_text [OF assms(3-5), of "vmem s" a] all facts(1) by (simp add: store_number_def)
qed

subsection \<open>Each conversion prints its text\<close>

lemma conv_buffer_mapped:
  "conv_buffer cb cbase pa s \<Longrightarrow> k \<le> 64 \<Longrightarrow> mapped_at s (cb + of_nat k) (64 - k) (cbase + of_nat k)"
  unfolding conv_buffer_def mapped_at_def by (auto simp: add.assoc simp flip: of_nat_add)

text \<open>A number stored at an offset of the buffer: its text and NUL are there, and nothing was printed.\<close>

lemma buffer_number:
  assumes "putc_ok pa s" "conv_buffer cb cbase pa s" "k + length (number_text (unat r) (unat v)) < 64"
    and "2 \<le> unat r" "unat r \<le> 36" "unat v < 2147483648"
  defines "t \<equiv> number_text (unat r) (unat v)"
  shows "\<exists>s1. store_number v (cb + of_nat k) r s = Some s1 \<and> printed pa cbase [] s s1 \<and> conv_buffer cb cbase pa s1 \<and>
    putc_ok pa s1 \<and> memory s1 = write_bytes (memory s) (cbase + of_nat k) (t @ [0]) \<and> translate s1 = translate s"
proof -
  let ?s1 = "s\<lparr>memory := write_bytes (memory s) (cbase + of_nat k) (t @ [0])\<rparr>"
  have "store_number v (cb + of_nat k) r s = Some ?s1"
    unfolding t_def by (rule store_number_text [OF conv_buffer_mapped [OF assms(2)]]) (use assms(3-6) in simp_all)
  moreover have p: "printed pa cbase [] s ?s1"
    by (rule printed_store [OF assms(1,2)]) (use assms(3) t_def in simp)
  ultimately show ?thesis using conv_buffer_frame [OF p] assms(2) p by (auto simp: printed_def)
qed

lemma print_number_prints:
  assumes "putc_ok pa s" "conv_buffer cb cbase pa s" "2 \<le> unat r" "unat r \<le> 36" "unat v < 2147483648"
  shows "\<exists>s'. print_number cb v r s = Some s' \<and> printed pa cbase (number_text (unat r) (unat v)) s s'"
proof -
  let ?t = "number_text (unat r) (unat v)"
  note facts = number_text_facts [OF assms(3-5)]
  obtain s1 where s1: "store_number v cb r s = Some s1" "printed pa cbase [] s s1" "conv_buffer cb cbase pa s1"
    "putc_ok pa s1" "memory s1 = write_bytes (memory s) cbase (?t @ [0])"
    using buffer_number [OF assms(1,2) _ assms(3-5), of 0] facts(1) by auto
  have "bytes_at (memory s1) cbase (length ?t + 1) = ?t @ [0]"
    using bytes_at_write_bytes [of "?t @ [0]" "memory s" cbase] facts(1) by (simp add: s1(5))
  then obtain s' where "puts cb s1 = Some (s', int (length ?t))" "printed pa cbase ?t s1 s'"
    using printed_puts [OF s1(4,3), of 0 ?t] facts(1,2) by auto
  with s1(1) printed_trans [OF s1(2)] show ?thesis by (simp add: print_number_def)
qed

lemma print_signed_prints:
  assumes "putc_ok pa s" "conv_buffer cb cbase pa s" "sint v < 0" "unat (- v) < 2147483648"
  shows "\<exists>s'. print_signed cb v s = Some s' \<and> printed pa cbase (0x2D # number_text 10 (unat (- v))) s s'"
proof -
  let ?t = "number_text 10 (unat (- v))"
  have facts: "length ?t \<le> 31" "0 \<notin> set ?t"
    by (rule number_text_facts [OF _ _ assms(4)]; simp)+
  let ?s0 = "s\<lparr>memory := write_bytes (memory s) cbase [0x2D]\<rparr>"
  have minus: "put_byte cb 0x2D s = Some ?s0"
    using put_byte_mapped [of s cb cbase "0x2D"] mapped_at_nth [of s cb 64 cbase 0] assms(2)
      write_bytes_Cons [of "[]" "memory s" cbase "0x2D"] by (simp add: conv_buffer_def)
  have p0: "printed pa cbase [] s ?s0" using printed_store [OF assms(1,2), of 0 "[0x2D]"] by simp
  then have ok0: "putc_ok pa ?s0" "conv_buffer cb cbase pa ?s0"
    using conv_buffer_frame [OF p0] assms(2) by (auto simp: printed_def)
  obtain s1 where s1: "store_number (- v) (cb + of_nat 1) 10 ?s0 = Some s1" "printed pa cbase [] ?s0 s1"
    "conv_buffer cb cbase pa s1" "putc_ok pa s1" "memory s1 = write_bytes (memory ?s0) (cbase + of_nat 1) (?t @ [0])"
    using buffer_number [OF ok0, of 1 10 "- v"] facts(1) assms(4) by auto
  have mem: "memory s1 = write_bytes (memory s) cbase (0x2D # ?t @ [0])"
    unfolding s1(5) using write_bytes_Cons [of "?t @ [0]" "memory s" cbase "0x2D"] facts(1)
      write_bytes_Cons [of "[]" "memory s" cbase "0x2D"] by simp
  have "bytes_at (memory s1) cbase (length (0x2D # ?t) + 1) = (0x2D # ?t) @ [0]"
    using bytes_at_write_bytes [of "0x2D # ?t @ [0]" "memory s" cbase] facts(1) by (simp add: mem)
  then obtain s' where "puts cb s1 = Some (s', int (length (0x2D # ?t)))" "printed pa cbase (0x2D # ?t) s1 s'"
    using printed_puts [OF s1(4,3), of 0 "0x2D # ?t"] facts(1,2) by auto
  with minus s1(1) printed_trans [OF printed_trans [OF p0 s1(2)]] assms(3) show ?thesis by (simp add: print_signed_def)
qed

lemma print_padded_prints:
  assumes "putc_ok pa s" "conv_buffer cb cbase pa s" "unat v < 2147483648"
  defines "t \<equiv> number_text 16 (unat v)"
  shows "\<exists>s'. print_padded cb v s = Some s' \<and> printed pa cbase (replicate (8 - length t) 0x30 @ t) s s'"
proof -
  have facts: "0 \<notin> set t" "length t \<le> 8"
    unfolding t_def by (rule number_text_facts [OF _ _ assms(3)]; simp)+
  let ?l = "length t" and ?z = "replicate (8 - length t) (0x30 :: u8)"
  obtain s1 where s1: "store_number v (cb + 8) 16 s = Some s1" "printed pa cbase [] s s1" "conv_buffer cb cbase pa s1"
    "putc_ok pa s1" "memory s1 = write_bytes (memory s) (cbase + 8) (t @ [0])" "translate s1 = translate s"
    using buffer_number [OF assms(1,2), of 8 16 v] facts assms(3) by (auto simp: t_def)
  have map8: "mapped_at s (cb + 8) 56 (cbase + 8)" using conv_buffer_mapped [OF assms(2), of 8] by simp
  have "vmem s1 = vmem (s\<lparr>memory := write_bytes (memory s) (cbase + 8) (t @ [0])\<rparr>)"
    unfolding vmem_def s1(5,6) by (simp cong: option.case_cong)
  then have "bytes_at (vmem s1) (cb + 8) (length (t @ [0])) = t @ [0]"
    using bytes_at_vmem_write [of s "cb + 8" "t @ [0]" "cbase + 8"] mapped_at_mono [OF map8, of "length (t @ [0])"] facts(2)
    by simp
  then have "cstr (vmem s1) (cb + 8) t"
    using facts by (simp add: cstr_def bytes_at_def)
  then have len: "strlen (vmem s1) (cb + 8) = Some (of_nat ?l)" by (rule strlen_cstr)
  have l: "unat (of_nat ?l :: u32) = ?l" "?l \<le> 8" using facts(2) by simp_all
  let ?s2 = "s1\<lparr>memory := write_bytes (memory s1) (cbase + of_nat ?l) ?z\<rparr>"
  have zeros: "put_bytes (cb + of_nat ?l) ?z s1 = Some ?s2"
    by (rule put_bytes_mapped) (use mapped_at_mono [OF conv_buffer_mapped [OF s1(3), of ?l]] l in simp_all)
  have p2: "printed pa cbase [] s1 ?s2" by (rule printed_store [OF s1(4,3)]) (use l in simp)
  then have ok2: "putc_ok pa ?s2" "conv_buffer cb cbase pa ?s2"
    using conv_buffer_frame [OF p2] s1(3) by (auto simp: printed_def)
  have "bytes_at (memory ?s2) (cbase + of_nat ?l) (length (?z @ t) + 1) = (?z @ t) @ [0]"
  proof (rule nth_equalityI)
    fix i assume "i < length (bytes_at (memory ?s2) (cbase + of_nat ?l) (length (?z @ t) + 1))"
    then have i: "i \<le> 8" using l by simp
    have at: "bytes_at (memory ?s2) (cbase + of_nat ?l) (length (?z @ t) + 1) ! i =
        write_bytes (memory s1) (cbase + of_nat ?l) ?z (cbase + of_nat ?l + of_nat i)"
      using i l by (subst nth_bytes_at) simp_all
    show "bytes_at (memory ?s2) (cbase + of_nat ?l) (length (?z @ t) + 1) ! i = ((?z @ t) @ [0]) ! i"
    proof (cases "i < 8 - ?l")
      case True
      then show ?thesis unfolding at using write_bytes_in [of i ?z] by (simp add: nth_append)
    next
      case False
      let ?j = "i - (8 - ?l)"
      have "unat (cbase + of_nat ?l + of_nat i - (cbase + of_nat ?l)) = i" using i by simp
      then have out: "write_bytes (memory s1) (cbase + of_nat ?l) ?z (cbase + of_nat ?l + of_nat i) =
          memory s1 (cbase + of_nat ?l + of_nat i)" using False by (intro write_bytes_out) simp
      have "of_nat (?l + i) = (of_nat (8 + ?j) :: u32)" using False l by simp
      then have pos: "cbase + of_nat ?l + of_nat i = cbase + 8 + (of_nat ?j :: u32)" by (simp add: algebra_simps)
      have "memory s1 (cbase + 8 + of_nat ?j) = (t @ [0]) ! ?j"
        unfolding s1(5) using i l by (intro write_bytes_in) simp_all
      then have val: "write_bytes (memory s1) (cbase + of_nat ?l) ?z (cbase + of_nat ?l + of_nat i) = (t @ [0]) ! ?j"
        unfolding out unfolding pos .
      show ?thesis unfolding at val using False i l by (auto simp: nth_append)
    qed
  qed simp
  moreover have "0 \<notin> set (?z @ t)" using facts(1) by simp
  ultimately obtain s' where "puts (cb + of_nat ?l) ?s2 = Some (s', int (length (?z @ t)))" "printed pa cbase (?z @ t) ?s2 s'"
    using printed_puts [OF ok2, of ?l "?z @ t"] l by auto
  with s1(1) len zeros l printed_trans [OF printed_trans [OF s1(2) p2]] show ?thesis
    by (simp add: print_padded_def)
qed

subsection \<open>A format prints its rendering\<close>

text \<open>A string in memory that neither the screen nor the buffer overlaps.\<close>

definition text_at :: "u32 \<Rightarrow> u32 \<Rightarrow> u32 \<Rightarrow> u8 list \<Rightarrow> 'a paging_scheme \<Rightarrow> bool" where
  "text_at pa cbase a t s \<longleftrightarrow> (\<exists>b. mapped_at s a (length t + 1) b \<and> cstr (memory s) b t \<and>
     (\<forall>i\<le>length t. 4000 \<le> unat (b + of_nat i - pa) \<and> 64 \<le> unat (b + of_nat i - cbase)))"

lemma text_at_cong:
  assumes "translate s' = translate s" "text_at pa cbase a t s"
    and "\<And>x. 4000 \<le> unat (x - pa) \<Longrightarrow> 64 \<le> unat (x - cbase) \<Longrightarrow> memory s' x = memory s x"
  shows "text_at pa cbase a t s'"
proof -
  obtain b where b: "mapped_at s a (length t + 1) b" "cstr (memory s) b t"
    "\<forall>i\<le>length t. 4000 \<le> unat (b + of_nat i - pa) \<and> 64 \<le> unat (b + of_nat i - cbase)"
    using assms(2) unfolding text_at_def by blast
  have "mapped_at s' a (length t + 1) b" using b(1) assms(1) by (simp add: mapped_at_def)
  moreover have "cstr (memory s') b t"
    using b assms(3) cstr_cong [of t "memory s'" b "memory s"] by auto
  ultimately show ?thesis using b(3) unfolding text_at_def by blast
qed

lemma text_at_frame:
  assumes "printed pa cbase u s s'" "text_at pa cbase a t s"
  shows "text_at pa cbase a t s'"
  using text_at_cong [OF prints_only_translate assms(2), of s'] assms(1) by (simp add: printed_def)

lemma text_at_puts:
  assumes "putc_ok pa s" "text_at pa cbase a t s"
  shows "\<exists>s'. puts a s = Some (s', int (length t)) \<and> printed pa cbase t s s'"
proof -
  obtain b where b: "mapped_at s a (length t + 1) b" "cstr (memory s) b t"
    "\<forall>i\<le>length t. 4000 \<le> unat (b + of_nat i - pa)"
    using assms(2) unfolding text_at_def by blast
  from puts_prints [OF assms(1) b(1,2)] b(3) show ?thesis using printed_within by blast
qed

lemma fetch_text:
  assumes "text_at pa cbase a t s" "k \<le> length t"
  shows "fetch (a + of_nat k) s = Some ((t @ [0]) ! k)" "k < length t \<Longrightarrow> t ! k \<noteq> 0"
proof -
  obtain b where b: "mapped_at s a (length t + 1) b" "cstr (memory s) b t" using assms(1) unfolding text_at_def by blast
  have "translate s (a + of_nat k) = Some (b + of_nat k)" using mapped_at_nth [OF b(1)] assms(2) by simp
  moreover have "memory s (b + of_nat k) = (t @ [0]) ! k"
    using assms(2) cstr_nth [OF b(2), of k] cstr_end [OF b(2)] by (cases "k < length t") (simp_all add: nth_append)
  ultimately show "fetch (a + of_nat k) s = Some ((t @ [0]) ! k)" by (simp add: fetch_def)
  show "t ! k \<noteq> 0" if "k < length t" using cstr_nonzero [OF b(2) that] cstr_nth [OF b(2) that] by simp
qed

lemma putc_printed:
  assumes "putc_ok pa s"
  shows "\<exists>s'. putc c s = Some s' \<and> printed pa cbase [c] s s'"
proof -
  obtain s' where s': "putc c s = Some s'" "prints_only s s'" "putc_ok pa s'"
    "screen_of pa s' = screen_put c (screen_of pa s)" using putc_prints [OF assms] by blast
  then show ?thesis using putc_within [OF assms s'(1)] printed_within [of s s' pa "[c]" cbase] by auto
qed

definition console_ready :: "u32 \<Rightarrow> u32 \<Rightarrow> u32 \<Rightarrow> (u32 \<Rightarrow> u8 list option) \<Rightarrow> 'a terms_scheme \<Rightarrow> bool" where
  "console_ready pa cb cbase strs s \<longleftrightarrow> putc_ok pa s \<and> conv_buffer cb cbase pa s \<and>
     (\<forall>v t. strs v = Some t \<longrightarrow> text_at pa cbase v t s)"

lemma console_ready_frame:
  "printed pa cbase t s s' \<Longrightarrow> console_ready pa cb cbase strs s \<Longrightarrow> console_ready pa cb cbase strs s'"
  using text_at_frame conv_buffer_frame unfolding console_ready_def by (metis printed_def)

lemma value_prints:
  assumes "console_ready pa cb cbase strs s" "value_text strs alternate c v = Some t" "c \<in> {0x78, 0x75, 0x64, 0x63, 0x73}"
  shows "\<exists>s'. print_conversion cb alternate c (v # rest) s = Some (s', rest) \<and> printed pa cbase t s s'"
proof -
  have ok: "putc_ok pa s" "conv_buffer cb cbase pa s" using assms(1) by (simp_all add: console_ready_def)
  have number: "\<exists>s'. print_number cb v r s = Some s' \<and> printed pa cbase u s s'"
    if "unsigned_text (unat r) v = Some u" "r = 10 \<or> r = 16" for r u
    using that print_number_prints [OF ok, of r v] by (auto simp: unsigned_text_def split: if_split_asm)
  consider "c = 0x78" "\<not> alternate" | "c = 0x78" "alternate" | "c = 0x75" | "c = 0x64" "\<not> sint v < 0" | "c = 0x64" "sint v < 0"
    | "c = 0x63" | "c = 0x73" using assms(3) by auto
  then show ?thesis
  proof cases
    case 1
    then show ?thesis using assms(2) number [of 16] by (auto simp: print_conversion_def value_text_def)
  next
    case 2
    then have "unat v < 2147483648" "t = replicate (8 - length (number_text 16 (unat v))) 0x30 @ number_text 16 (unat v)"
      using assms(2) by (auto simp: value_text_def unsigned_text_def split: if_split_asm)
    then show ?thesis using print_padded_prints [OF ok, of v] 2 by (auto simp: print_conversion_def)
  next
    case 3
    then show ?thesis using assms(2) number [of 10] by (auto simp: print_conversion_def value_text_def)
  next
    case 4
    then show ?thesis using assms(2) number [of 10] by (auto simp: print_conversion_def value_text_def print_signed_def)
  next
    case 5
    then show ?thesis using assms(2) print_signed_prints [OF ok, of v]
      by (auto simp: print_conversion_def value_text_def unsigned_text_def split: if_split_asm)
  next
    case 6
    then show ?thesis using assms(2) putc_printed [OF ok(1), of "ucast v" cbase] by (auto simp: print_conversion_def value_text_def)
  next
    case 7
    then have "strs v = Some t" using assms(2) by (simp add: value_text_def)
    then have "text_at pa cbase v t s" using assms(1) by (simp add: console_ready_def)
    from text_at_puts [OF ok(1) this] obtain s' where "puts v s = Some (s', int (length t))" "printed pa cbase t s s'" by blast
    then show ?thesis using 7 by (simp add: print_conversion_def)
  qed
qed

lemma conversion_prints:
  assumes "console_ready pa cb cbase strs s" "conversion_text strs alternate c args = Some (t, rest)"
  shows "\<exists>s'. print_conversion cb alternate c args s = Some (s', rest) \<and> printed pa cbase t s s'"
proof -
  consider "c = 0x25" | "c \<in> {0x78, 0x75, 0x64, 0x63, 0x73}" | "c \<notin> {0x25, 0x78, 0x75, 0x64, 0x63, 0x73}" by blast
  then show ?thesis
  proof cases
    case 1
    then show ?thesis using assms putc_printed [of pa s "0x25" cbase]
      by (auto simp: print_conversion_def conversion_text_def console_ready_def)
  next
    case 2
    then obtain v where "args = v # rest" "value_text strs alternate c v = Some t"
      using assms(2) by (auto simp: conversion_text_def split: list.split_asm)
    then show ?thesis using value_prints [OF assms(1) _ 2] by blast
  next
    case 3
    then show ?thesis using assms by (simp add: print_conversion_def conversion_text_def console_ready_def)
  qed
qed


definition run_format ::
  "u32 \<Rightarrow> bool option \<Rightarrow> u32 \<Rightarrow> u32 list \<Rightarrow> 'a terms_scheme \<Rightarrow> ('a terms_scheme \<times> u32) option"
where
  "run_format cb mode buf args s =
     (case mode of
        None \<Rightarrow> printf_loop cb buf args s
      | Some alternate \<Rightarrow> Option.bind (printf_spec cb alternate buf args s) (\<lambda>(s, buf, args). printf_loop cb (buf + 1) args s))"

lemma run_format_prints:
  assumes "console_ready pa cb cbase strs s" "text_at pa cbase fmt cs s" "k \<le> length cs"
    and "render strs mode (drop k cs) args = Some t"
  shows "\<exists>s'. run_format cb mode (fmt + of_nat k) args s = Some (s', fmt + of_nat (length cs)) \<and> printed pa cbase t s s'"
  using assms
proof (induction strs mode "drop k cs" args arbitrary: k s t rule: render.induct)
  case (1 strs args)
  then have k: "k = length cs" by simp
  have "fetch (fmt + of_nat k) s = Some 0" using fetch_text(1) [OF 1(3), of k] k by simp
  then have "run_format cb None (fmt + of_nat k) args s = Some (s, fmt + of_nat (length cs))"
    using k unfolding run_format_def by (simp add: printf_loop.simps)
  then show ?case using 1 by (auto simp: console_ready_def)
next
  case (2 strs alternate args)
  then show ?case by simp
next
  case (3 strs c ds args)
  have k: "k < length cs" "c = cs ! k" "ds = drop (Suc k) cs"
    using 3(3) by (cases "k < length cs"; simp add: Cons_nth_drop_Suc [symmetric])+
  have c: "fetch (fmt + of_nat k) s = Some c" "c \<noteq> 0"
    using fetch_text [OF 3(5), of k] k by (simp_all add: nth_append)
  have nxt: "fmt + of_nat k + 1 = fmt + of_nat (Suc k)" by simp
  show ?case
  proof (cases "c = 0x25")
    case True
    then have "run_format cb None (fmt + of_nat k) args s = run_format cb (Some False) (fmt + of_nat (Suc k)) args s"
      using c unfolding run_format_def by (subst printf_loop.simps) (simp add: nxt [symmetric] del: of_nat_Suc)
    moreover have "render strs (Some False) ds args = Some t" using 3(7) True unfolding 3(3) [symmetric] by simp
    ultimately show ?thesis using 3(1) [OF True k(3) 3(4,5) _ ] k by simp
  next
    case False
    then obtain r where r: "render strs None ds args = Some r" "t = c # r"
      using 3(7) unfolding 3(3) [symmetric] by (auto split: if_split_asm)
    have ok: "putc_ok pa s" using 3(4) by (simp add: console_ready_def)
    obtain s1 where s1: "putc c s = Some s1" "printed pa cbase [c] s s1" using putc_printed [OF ok] by blast
    have "run_format cb None (fmt + of_nat k) args s = run_format cb None (fmt + of_nat (Suc k)) args s1"
      using c False s1(1) unfolding run_format_def by (subst printf_loop.simps) (simp add: nxt [symmetric] del: of_nat_Suc)
    moreover obtain s' where "run_format cb None (fmt + of_nat (Suc k)) args s1 = Some (s', fmt + of_nat (length cs))"
      "printed pa cbase r s1 s'"
      using 3(2) [OF False k(3) console_ready_frame [OF s1(2) 3(4)] text_at_frame [OF s1(2) 3(5)] _ ] k r(1) by auto
    ultimately show ?thesis using printed_trans [OF s1(2)] r(2) by auto
  qed
next
  case (4 strs alternate c ds args)
  have k: "k < length cs" "c = cs ! k" "ds = drop (Suc k) cs"
    using 4(3) by (cases "k < length cs"; simp add: Cons_nth_drop_Suc [symmetric])+
  have c: "fetch (fmt + of_nat k) s = Some c" using fetch_text(1) [OF 4(5), of k] k by (simp add: nth_append)
  have nxt: "fmt + of_nat k + 1 = fmt + of_nat (Suc k)" by simp
  show ?case
  proof (cases "c = 0x23")
    case True
    then have "run_format cb (Some alternate) (fmt + of_nat k) args s = run_format cb (Some True) (fmt + of_nat (Suc k)) args s"
      using c unfolding run_format_def by (subst printf_spec.simps) (simp add: nxt [symmetric] del: of_nat_Suc)
    moreover have "render strs (Some True) ds args = Some t" using 4(7) True unfolding 4(3) [symmetric] by simp
    ultimately show ?thesis using 4(1) [OF True k(3) 4(4,5)] k by simp
  next
    case False
    then obtain u rest r where r: "conversion_text strs alternate c args = Some (u, rest)" "render strs None ds rest = Some r" "t = u @ r"
      using 4(7) unfolding 4(3) [symmetric] by (auto simp: bind_eq_Some_conv)
    obtain s1 where s1: "print_conversion cb alternate c args s = Some (s1, rest)" "printed pa cbase u s s1"
      using conversion_prints [OF 4(4) r(1)] by blast
    have "run_format cb (Some alternate) (fmt + of_nat k) args s = run_format cb None (fmt + of_nat (Suc k)) rest s1"
      using c False s1(1) unfolding run_format_def by (subst printf_spec.simps) (simp add: nxt [symmetric] del: of_nat_Suc)
    moreover obtain s' where "run_format cb None (fmt + of_nat (Suc k)) rest s1 = Some (s', fmt + of_nat (length cs))"
      "printed pa cbase r s1 s'"
      using 4(2) [OF False r(1) refl k(3) console_ready_frame [OF s1(2) 4(4)] text_at_frame [OF s1(2) 4(5)] _ ] k r(1,2) by auto
    ultimately show ?thesis using printed_trans [OF s1(2)] r(3) by auto
  qed
qed


subsection \<open>Properties\<close>

text \<open>
  C15: \<^verbatim>\<open>printf\<close> prints exactly the text that its format and arguments render to,
  for every mixture of plain characters and conversions, as long as the numbers are ones that
  \<^verbatim>\<open>itoa\<close> converts; it returns the length of the format.
\<close>

theorem printf_prints_rendering:
  assumes "putc_ok pa s" "conv_buffer cb cbase pa s" "text_at pa cbase fmt cs s" "length cs < 2147483648"
    and "\<And>v t. strs v = Some t \<Longrightarrow> text_at pa cbase v t s" "render strs None cs args = Some t"
  shows "\<exists>s'. printf cb fmt args s = Some (s', int (length cs)) \<and> screen_of pa s' = fold screen_put t (screen_of pa s)"
proof -
  have "console_ready pa cb cbase strs s" using assms(1,2,5) by (simp add: console_ready_def)
  from run_format_prints [OF this assms(3), of 0 None args t] assms(6)
  obtain s' where "printf_loop cb fmt args s = Some (s', fmt + of_nat (length cs))" "printed pa cbase t s s'"
    by (auto simp: run_format_def)
  then show ?thesis using assms(4) sint32 [of "of_nat (length cs)"] by (auto simp: printf_def printed_def)
qed

text \<open>The format \<^verbatim>\<open>%d %#x\<close> and the argument string are in the image's name area.\<close>

definition demo_format :: "u8 list" where
  "demo_format = [0x25, 0x64, 0x20, 0x25, 0x23, 0x78]"

text \<open>The demonstration system with a string at \<open>0x600000\<close>.\<close>

definition demo_console :: "u8 list \<Rightarrow> terms" where
  "demo_console fmt = demo_terms\<lparr>memory := write_bytes demo_image 0x600000 (fmt @ [0])\<rparr>"

lemma demo_console_ready:
  assumes "length fmt < 4096" "0 \<notin> set fmt"
  shows "putc_ok VIDEO (demo_console fmt)" "conv_buffer 0x700000 0x700000 VIDEO (demo_console fmt)"
    "text_at VIDEO 0x700000 0x600000 fmt (demo_console fmt)"
proof -
  let ?s = "demo_terms\<lparr>memory := write_bytes demo_image 0x600000 (fmt @ [0])\<rparr>"
  have map: "mapped_at ?s a n a" if "4096 \<le> unat a" "unat a + n \<le> 0x800000" for a n
  proof (unfold mapped_at_def, intro allI impI)
    fix i assume "i < n"
    then have "unat (a + of_nat i) = unat a + i" using that by (simp add: unat_word_ariths)
    then show "translate ?s (a + of_nat i) = Some (a + of_nat i)" using that \<open>i < n\<close> by (simp add: demo_terms_translate)
  qed
  have far: "unat (a + of_nat i - b) = unat a + i - unat b" if "unat b \<le> unat a" "unat a + i < 0x800000" for a b :: u32 and i
  proof -
    have "unat (a + of_nat i) = unat a + i" using that by (simp add: unat_word_ariths)
    then show ?thesis using that by (simp add: unat_sub_if')
  qed
  have run: "get_running_terminal ?s = Some (Some 0)"
    using get_running_terminal_cong [of ?s demo_terms] get_running_terminal_runs_on [of demo_terms 0] demo_terms_runs by simp
  have ok: "putc_ok VIDEO ?s"
    unfolding putc_ok_def
  proof (intro conjI exI)
    show "screen_ok VIDEO ?s" using map [of VIDEO 4000] by (simp add: screen_ok_def)
    show "get_running_terminal ?s = Some (Some 0)" by (rule run)
    show "hidden_terminal (Some 0) ?s = None" by (simp add: hidden_terminal_def terminal_at_def demo_terminal_def)
  qed
  have buf: "conv_buffer 0x700000 0x700000 VIDEO ?s"
    unfolding conv_buffer_def
  proof (intro conjI allI impI)
    show "mapped_at ?s 0x700000 64 0x700000" by (rule map) simp_all
    show "4000 \<le> unat (0x700000 + of_nat i - VIDEO :: u32)" if "i < 64" for i
      using that far [of VIDEO "0x700000" i] by simp
  qed
  have str: "cstr (memory ?s) 0x600000 fmt"
  proof -
    have all: "bytes_at (write_bytes demo_image 0x600000 (fmt @ [0])) 0x600000 (length (fmt @ [0])) = fmt @ [0]"
      by (rule bytes_at_write_bytes) (use assms in simp)
    then have at: "write_bytes demo_image 0x600000 (fmt @ [0]) (0x600000 + of_nat i) = (fmt @ [0]) ! i" if "i \<le> length fmt" for i
      using nth_bytes_at [of i "length (fmt @ [0])" "write_bytes demo_image 0x600000 (fmt @ [0])" "0x600000"] that
      unfolding all by simp
    have "bytes_at (write_bytes demo_image 0x600000 (fmt @ [0])) 0x600000 (length fmt) = fmt"
      by (rule nth_equalityI) (use at in \<open>auto simp: nth_append\<close>)
    then show ?thesis using assms at [of "length fmt"] by (simp add: cstr_def)
  qed
  have str_at: "text_at VIDEO 0x700000 0x600000 fmt ?s"
    unfolding text_at_def
  proof (intro exI conjI allI impI)
    show "mapped_at ?s 0x600000 (length fmt + 1) 0x600000" by (rule map) (use assms in simp_all)
    fix i assume i: "i \<le> length fmt"
    then show "4000 \<le> unat (0x600000 + of_nat i - VIDEO)" using far [of VIDEO "0x600000" i] assms by simp
    have "unat (0x600000 + of_nat i - 0x700000 :: u32) = 0x600000 + i + 2 ^ 32 - 0x700000"
      using i assms by (simp add: unat_sub_if' unat_word_ariths)
    then show "64 \<le> unat (0x600000 + of_nat i - 0x700000 :: u32)" by simp
  qed (rule str)
  from ok buf str_at show "putc_ok VIDEO (demo_console fmt)" "conv_buffer 0x700000 0x700000 VIDEO (demo_console fmt)"
    "text_at VIDEO 0x700000 0x600000 fmt (demo_console fmt)" unfolding demo_console_def by blast+
qed

lemma printf_prints_rendering_witness:
  "\<exists>s'. printf 0x700000 0x600000 [0xFFFFFFFB, 0x1F] (demo_console demo_format) =
      Some (s', 6) \<and>
    screen_of VIDEO s' = fold screen_put [0x2D, 0x35, 0x20, 0x30, 0x30, 0x30, 0x30, 0x30, 0x30, 0x31, 0x46]
      (screen_of VIDEO (demo_console demo_format))"
proof -
  have render: "render Map.empty None demo_format [0xFFFFFFFB, 0x1F] =
      Some [0x2D, 0x35, 0x20, 0x30, 0x30, 0x30, 0x30, 0x30, 0x30, 0x31, 0x46]"
  proof -
    have five: "number_text 10 5 = [0x35]" "number_text 16 31 = [0x31, 0x46]"
      by (simp_all add: number_text_def base_digits.simps digit_lookup_def)
    have neg: "sint (0xFFFFFFFB :: u32) < 0" "unat (- 0xFFFFFFFB :: u32) = 5" by (simp_all add: sint32)
    have six: "replicate 6 (0x30 :: u8) = [0x30, 0x30, 0x30, 0x30, 0x30, 0x30]" by (simp add: numeral_eq_Suc)
    have d: "conversion_text Map.empty False 0x64 [0xFFFFFFFB, 0x1F] = Some ([0x2D, 0x35], [0x1F])"
      using neg five(1) by (simp add: conversion_text_def value_text_def unsigned_text_def)
    have x: "conversion_text Map.empty True 0x78 [0x1F] = Some ([0x30, 0x30, 0x30, 0x30, 0x30, 0x30, 0x31, 0x46], [])"
      using five(2) six by (simp add: conversion_text_def value_text_def unsigned_text_def)
    show ?thesis by (simp add: demo_format_def d x)
  qed
  have "length demo_format < 4096" "0 \<notin> set demo_format" by (simp_all add: demo_format_def)
  note ready = demo_console_ready [OF this]
  show ?thesis using printf_prints_rendering [OF ready _ _ render] by (simp add: demo_format_def)
qed

end
