(* ===== verification/User_Lib.thy ===== *)
theory User_Lib
  imports Lib_String
begin

text \<open>
  The string routines of \<^verbatim>\<open>syscalls/ece391support.c\<close>, the library the user programs
  are linked with, on the bytes a program sees. Where a loop walks pointers the model walks
  them too. The facts on them are stated on the abstract strings, as those of
  \<^verbatim>\<open>Lib_String\<close> are.
\<close>

partial_function (option) ece391_strlen_loop :: "mem \<Rightarrow> u32 \<Rightarrow> u32 \<Rightarrow> u32 option" where
  "ece391_strlen_loop m s len = (if m s \<noteq> 0 then ece391_strlen_loop m (s + 1) (len + 1) else Some len)"

definition ece391_strlen :: "mem \<Rightarrow> u32 \<Rightarrow> u32 option" where
  "ece391_strlen m s = ece391_strlen_loop m s 0"

partial_function (option) ece391_strcpy :: "mem \<Rightarrow> u32 \<Rightarrow> u32 \<Rightarrow> mem option" where
  "ece391_strcpy m dst src =
     (let m' = m(dst := m src) in if m src \<noteq> 0 then ece391_strcpy m' (dst + 1) (src + 1) else Some m')"

text \<open>The bytes are unsigned here, unlike in the kernel's \<^const>\<open>strncmp\<close>.\<close>

partial_function (option) ece391_strcmp :: "mem \<Rightarrow> u32 \<Rightarrow> u32 \<Rightarrow> int option" where
  "ece391_strcmp m s1 s2 =
     (if m s1 = m s2 then if m s1 = 0 then Some 0 else ece391_strcmp m (s1 + 1) (s2 + 1)
      else Some (uint (m s1) - uint (m s2)))"

fun ece391_strncmp_loop :: "mem \<Rightarrow> u32 \<Rightarrow> u32 \<Rightarrow> nat \<Rightarrow> int" where
  "ece391_strncmp_loop m s1 s2 0 = 0"
| "ece391_strncmp_loop m s1 s2 (Suc n) =
     (if m s1 = m s2 then if m s1 = 0 \<or> n = 0 then 0 else ece391_strncmp_loop m (s1 + 1) (s2 + 1) n
      else uint (m s1) - uint (m s2))"

definition ece391_strncmp :: "mem \<Rightarrow> u32 \<Rightarrow> u32 \<Rightarrow> u32 \<Rightarrow> int" where
  "ece391_strncmp m s1 s2 n = (if n = 0 then 0 else ece391_strncmp_loop m s1 s2 (unat n))"

text \<open>The remainder is taken on unsigned values, so the index stays in the table.\<close>

partial_function (option) ece391_itoa_loop :: "mem \<Rightarrow> u32 \<Rightarrow> u32 \<Rightarrow> u32 \<Rightarrow> (mem \<times> u32) option" where
  "ece391_itoa_loop m newbuf newval radix =
     (if newval = 0 then Some (m, newbuf)
      else if radix = 0 then None
      else Option.bind (lookup_digit (sint (newval mod radix)))
        (\<lambda>ch. ece391_itoa_loop (m(newbuf := ch)) (newbuf + 1) (newval div radix) radix))"

definition ece391_strrev :: "mem \<Rightarrow> u32 \<Rightarrow> mem option" where
  "ece391_strrev m s =
     map_option (\<lambda>l. let e = sint (l - 1) in if e \<le> 0 then m else strrev_loop m s 0 e) (ece391_strlen m s)"

definition ece391_itoa :: "mem \<Rightarrow> u32 \<Rightarrow> u32 \<Rightarrow> u32 \<Rightarrow> mem option" where
  "ece391_itoa m val buf radix =
     (if val = 0 then Some (m(buf := 0x30, buf + 1 := 0))
      else Option.bind (ece391_itoa_loop m buf val radix) (\<lambda>(m, newbuf). ece391_strrev (m(newbuf := 0)) buf))"

subsection \<open>Strings\<close>

lemma cstr_tail: "cstr m s (x # xs) \<Longrightarrow> cstr m (s + 1) xs"
  using cstr_end [of m s "x # xs"] by (auto simp: cstr_def bytes_at_Suc add.assoc)

lemma cstr_head: "cstr m s (x # xs) \<Longrightarrow> m s = x \<and> x \<noteq> 0"
  by (auto simp: cstr_def bytes_at_Suc)

lemma cstr_empty: "cstr m s [] \<Longrightarrow> m s = 0"
  using cstr_end [of m s "[]"] by simp

lemma ece391_strlen_loop_cstr:
  "cstr m s xs \<Longrightarrow> ece391_strlen_loop m s k = Some (k + of_nat (length xs))"
proof (induction xs arbitrary: s k)
  case Nil
  then show ?case using cstr_empty by (subst ece391_strlen_loop.simps) simp
next
  case (Cons x xs)
  then show ?case using cstr_head [OF Cons.prems] cstr_tail [OF Cons.prems]
    by (subst ece391_strlen_loop.simps) (simp add: add.assoc)
qed

lemma ece391_strlen_cstr: "cstr m s xs \<Longrightarrow> ece391_strlen m s = Some (of_nat (length xs))"
  using ece391_strlen_loop_cstr [of m s xs 0] by (simp add: ece391_strlen_def)

lemma uint_eq_iff8: "uint x = uint y \<longleftrightarrow> x = (y :: u8)"
  by (simp add: word_uint_eq_iff)

lemma uint_eq_0 [simp]: "uint x = 0 \<longleftrightarrow> x = (0 :: u8)"
  using uint_eq_iff8 [of x 0] by simp

lemma uint_pos: "0 < uint x \<longleftrightarrow> x \<noteq> (0 :: u8)"
  using uint_eq_0 [of x] by (metis uint_lt_0 linorder_neqE_linordered_idom order_less_irrefl)

text \<open>The order of strings byte by byte, a proper prefix first.\<close>

definition string_less :: "u8 list \<Rightarrow> u8 list \<Rightarrow> bool" where
  "string_less xs ys \<longleftrightarrow> ord_class.lexordp xs ys"

lemma string_less_simps [simp]:
  "string_less [] ys = (ys \<noteq> [])" "\<not> string_less (x # xs) []"
  "string_less (x # xs) (y # ys) = (x < y \<or> x = y \<and> string_less xs ys)"
  by (auto simp: string_less_def neq_Nil_conv)

lemma ece391_strcmp_cstr:
  assumes "cstr m s1 xs" "cstr m s2 ys"
  shows "\<exists>d. ece391_strcmp m s1 s2 = Some d \<and> (d = 0 \<longleftrightarrow> xs = ys) \<and> (d < 0 \<longleftrightarrow> string_less xs ys)"
  using assms
proof (induction xs arbitrary: s1 s2 ys)
  case Nil
  then show ?case using cstr_empty [OF Nil(1)] cstr_empty [of m s2] cstr_head [of m s2]
    by (cases ys; subst ece391_strcmp.simps) (auto simp: uint_pos)
next
  case (Cons x xs)
  note x = cstr_head [OF Cons.prems(1)]
  show ?case
  proof (cases ys)
    case Nil
    then show ?thesis using x cstr_empty [of m s2] Cons.prems(2) by (subst ece391_strcmp.simps) auto
  next
    case (Cons y ys')
    note y = cstr_head [OF Cons.prems(2) [unfolded Cons]] and tails = cstr_tail [OF Cons.prems(1)] cstr_tail [OF Cons.prems(2) [unfolded Cons]]
    show ?thesis
    proof (cases "x = y")
      case True
      then show ?thesis using Cons.IH [OF tails] x y Cons by (subst ece391_strcmp.simps) simp
    next
      case False
      then show ?thesis using x y Cons by (subst ece391_strcmp.simps) (auto simp: word_less_def uint_eq_iff8)
    qed
  qed
qed

lemma ece391_strncmp_loop_zero:
  "ece391_strncmp_loop m s1 s2 n = 0 \<longleftrightarrow> cut_nul (bytes_at m s1 n) = cut_nul (bytes_at m s2 n)"
proof (induction n arbitrary: s1 s2)
  case (Suc n)
  then show ?case by (cases n) (auto simp: bytes_at_Suc uint_eq_iff8)
qed simp

lemma cut_nul_id: "0 \<notin> set xs \<Longrightarrow> cut_nul xs = xs"
  by (induction xs) auto

lemma cut_nul_eq: "0 \<notin> set ys \<Longrightarrow> length xs = length ys \<Longrightarrow> cut_nul xs = ys \<longleftrightarrow> xs = ys"
  by (induction xs ys rule: list_induct2') auto

lemma ece391_strncmp_prefix:
  assumes "cstr m s2 ys" "ys \<noteq> []"
  shows "ece391_strncmp m s1 s2 (of_nat (length ys)) = 0 \<longleftrightarrow> bytes_at m s1 (length ys) = ys"
proof -
  have ys: "bytes_at m s2 (length ys) = ys" "0 \<notin> set ys" "length ys < 4294967296"
    using assms(1) by (simp_all add: cstr_def)
  then have "(of_nat (length ys) :: u32) \<noteq> 0" using assms(2) unat_of_nat32 [of "length ys"] by (metis length_0_conv unsigned_0)
  then show ?thesis using ys cut_nul_eq [of ys "bytes_at m s1 (length ys)"]
    by (simp add: ece391_strncmp_def ece391_strncmp_loop_zero cut_nul_id)
qed

subsection \<open>Numbers\<close>

lemma ece391_strrev_cstr:
  assumes "cstr m s xs" "length xs < 2147483648"
  shows "ece391_strrev m s = Some (write_bytes m s (rev xs))"
proof -
  let ?l = "of_nat (length xs) :: u32"
  have l: "sint ?l = int (length xs)" using assms(2) by (subst sint32) simp
  have same: "strrev_loop m s 0 (int (length xs) - 1) = write_bytes m s (rev xs)"
    using strrev_cstr [OF assms] by (simp add: strrev_def strlen_cstr [OF assms(1)] l)
  have "sint (?l - 1) = int (length xs) - 1"
  proof (cases xs)
    case (Cons x xs')
    then have "?l - 1 = of_nat (length xs')" by simp
    then show ?thesis using assms(2) Cons by (subst sint32) simp
  qed simp
  moreover have "m = write_bytes m s (rev xs)" if "length xs \<le> 1"
    unfolding same [symmetric] using that by (subst strrev_loop.simps) simp
  ultimately show ?thesis using same by (simp add: ece391_strrev_def ece391_strlen_cstr [OF assms(1)] Let_def)
qed

lemma ece391_itoa_loop_digits:
  assumes "2 \<le> unat r" "unat r \<le> 36"
  shows "ece391_itoa_loop m nb v r =
    (let ds = map (\<lambda>d. digit_lookup ! d) (base_digits (unat r) (unat v))
     in Some (write_bytes m nb ds, nb + of_nat (length ds)))"
proof (induction "unat v" arbitrary: v m nb rule: less_induct)
  case less
  show ?case
  proof (cases "v = 0")
    case True
    then show ?thesis by (simp add: ece391_itoa_loop.simps base_digits.simps)
  next
    case False
    let ?q = "v div r" and ?d = "unat v mod unat r"
    have v0: "0 < unat v" using False by (simp add: unat_gt_0)
    have q: "unat ?q = unat v div unat r" "unat ?q < unat v"
      using assms v0 by (simp_all add: unat_div)
    have d: "?d < 36" using assms mod_less_divisor [of "unat r" "unat v"] by linarith
    then have digit: "lookup_digit (sint (v mod r)) = Some (digit_lookup ! ?d)"
      by (simp add: lookup_digit_def sint32 unat_mod)
    have "ece391_itoa_loop m nb v r = ece391_itoa_loop (m(nb := digit_lookup ! ?d)) (nb + 1) ?q r"
      using False assms digit by (subst ece391_itoa_loop.simps) auto
    moreover have "base_digits (unat r) (unat v) = ?d # base_digits (unat r) (unat ?q)"
      using v0 assms by (subst base_digits.simps) (simp add: q)
    moreover have "length (base_digits (unat r) (unat ?q)) \<le> 32"
      using assms unat_lt32 [of ?q] by (intro length_base_digits) simp_all
    ultimately show ?thesis
      using less [OF q(2)] by (simp add: Let_def write_bytes_Cons add.assoc)
  qed
qed

lemma ece391_itoa_text:
  assumes "2 \<le> unat r" "unat r \<le> 36"
  shows "ece391_itoa m v buf r = Some (write_bytes m buf (number_text (unat r) (unat v) @ [0]))"
proof (cases "v = 0")
  case True
  have "write_bytes m buf [0x30, 0] = m(buf := 0x30, buf + 1 := 0)"
    by (simp flip: write_bytes_Cons)
  with True show ?thesis by (simp add: ece391_itoa_def number_text_def)
next
  case False
  let ?ds = "map (\<lambda>d. digit_lookup ! d) (base_digits (unat r) (unat v))"
  have len: "length ?ds \<le> 32" using assms length_base_digits [of "unat r" "unat v" 32] unat_lt32 [of v] by simp
  have nz: "0 \<notin> set ?ds"
    using base_digits_less [of "unat r" _ "unat v"] assms digit_lookup_nonzero by fastforce
  have "cstr (write_bytes m buf (?ds @ [0])) buf ?ds" using len nz by (intro cstr_written) auto
  then have "ece391_strrev (write_bytes m buf (?ds @ [0])) buf = Some (write_bytes m buf (rev ?ds @ [0]))"
    using len ece391_strrev_cstr [of _ buf ?ds] by (simp add: write_bytes_reversed)
  moreover have "(write_bytes m buf ?ds)(buf + of_nat (length ?ds) := 0) = write_bytes m buf (?ds @ [0])"
    using len by (intro write_bytes_snoc) simp
  ultimately show ?thesis
    using False ece391_itoa_loop_digits [OF assms, of m buf] by (simp add: ece391_itoa_def number_text_def Let_def unat_0_iff)
qed

subsection \<open>Properties\<close>

text \<open>
  \<^verbatim>\<open>ece391_strcmp\<close> of two strings returns; its result is 0 exactly for equal
  strings and negative exactly when the first one comes first in the order of unsigned bytes.
\<close>

theorem strcmp_orders_strings:
  assumes "cstr m s1 xs" "cstr m s2 ys"
  shows "\<exists>d. ece391_strcmp m s1 s2 = Some d \<and> (d = 0 \<longleftrightarrow> xs = ys) \<and> (d < 0 \<longleftrightarrow> string_less xs ys)"
  using ece391_strcmp_cstr [OF assms] .

lemma strcmp_orders_strings_witness:
  "\<exists>d. ece391_strcmp (\<lambda>a. if a = 0 then 0x61 else if a = 16 then 0xE9 else 0) 0 16 = Some d \<and> d < 0"
  using strcmp_orders_strings [of "\<lambda>a. if a = 0 then 0x61 else if a = 16 then 0xE9 else 0" 0 "[0x61]" 16 "[0xE9]"]
  by (auto simp: cstr_def bytes_at_Suc)

text \<open>
  C36: \<^verbatim>\<open>ece391_itoa\<close> leaves a text that reads back as the value for every 32-bit value, also
  those from \<open>2 ^ 31\<close> on, where the kernel's \<^verbatim>\<open>itoa\<close> leaves its table.
\<close>

theorem user_itoa_round_trip:
  assumes "2 \<le> unat r" "unat r \<le> 36"
  shows "\<exists>text. ece391_itoa m v buf r = Some (write_bytes m buf (text @ [0])) \<and>
    parse_number (unat r) text = unat v"
  using ece391_itoa_text [OF assms] parse_number_text [OF assms] by blast

lemma user_itoa_round_trip_witness:
  "\<exists>text. ece391_itoa (\<lambda>_. 0) 0xFFFFFFFF 0x1000 16 = Some (write_bytes (\<lambda>_. 0) 0x1000 (text @ [0])) \<and>
    parse_number 16 text = 4294967295"
  using user_itoa_round_trip [of 16 "\<lambda>_. 0" "0xFFFFFFFF" "0x1000"] by simp

end
