(* ===== verification/Programs.thy ===== *)
theory Programs
  imports Syscall_Exec User_Lib Printf "HOL-Library.Sublist"
begin

text \<open>
  User programs of \<^verbatim>\<open>syscalls\<close> on the system calls of the kernel's model:
  \<^verbatim>\<open>cat\<close>, \<^verbatim>\<open>hello\<close>, \<^verbatim>\<open>testprint\<close>, \<^verbatim>\<open>ls\<close>,
  \<^verbatim>\<open>shell\<close>, \<^verbatim>\<open>counter\<close>, \<^verbatim>\<open>grep\<close> and the animation of
  \<^verbatim>\<open>pingpong\<close>. The address that the linker gives a string literal is an argument,
  as are the addresses of the arrays on the stack. What the kernel meets while
  the \<open>i\<close>-th system call waits is \<open>env i\<close>. A program's memory is the
  machine's, seen through its page directory; an access that no page serves ends the model's
  run with \<open>None\<close>.
\<close>

type_synonym user_env = "nat \<Rightarrow> read_env"
type_synonym literals = "string \<Rightarrow> u32"

definition later :: "user_env \<Rightarrow> user_env" where
  "later env = (\<lambda>i. env (Suc i))"

text \<open>A literal that ends in a newline.\<close>

definition nl :: "string \<Rightarrow> string" where
  "nl t = t @ [CHR 0x0A]"

subsection \<open>System calls\<close>

abbreviation SYS_READ :: u32 where "SYS_READ \<equiv> 3"
abbreviation SYS_WRITE :: u32 where "SYS_WRITE \<equiv> 4"
abbreviation SYS_OPEN :: u32 where "SYS_OPEN \<equiv> 5"
abbreviation SYS_CLOSE :: u32 where "SYS_CLOSE \<equiv> 6"
abbreviation SYS_GETARGS :: u32 where "SYS_GETARGS \<equiv> 7"
abbreviation SYS_VIDMAP :: u32 where "SYS_VIDMAP \<equiv> 8"

text \<open>
  A call that comes back to its caller; \<open>halt\<close> and \<open>execute\<close> are not made this way.
  Of the calls made only \<open>read\<close> waits.
\<close>

definition user_call :: "read_env \<Rightarrow> u32 \<Rightarrow> u32 \<Rightarrow> u32 \<Rightarrow> u32 \<Rightarrow> 'a keyboard_scheme \<Rightarrow> ('a keyboard_scheme \<times> int) option" where
  "user_call env number a b c s =
     Option.bind (irqh_syscall env \<lparr>cmd_at = 0, header_at = 0, entry_at = 0, frame_esp = 0, frame_ebp = 0, shell_at = 0\<rparr>
         number a b c s)
       (\<lambda>r. case r of Return s v \<Rightarrow> Some (s, v) | _ \<Rightarrow> None)"

definition idle_env :: read_env where
  "idle_env = \<lparr>scancodes = [], clock_ticks = 0, stale_dentry = []\<rparr>"

definition ece391_read :: "read_env \<Rightarrow> int \<Rightarrow> u32 \<Rightarrow> int \<Rightarrow> 'a keyboard_scheme \<Rightarrow> ('a keyboard_scheme \<times> int) option" where
  "ece391_read env fd buf n = user_call env SYS_READ (of_int fd) buf (of_int n)"

definition ece391_write :: "int \<Rightarrow> u32 \<Rightarrow> int \<Rightarrow> 'a keyboard_scheme \<Rightarrow> ('a keyboard_scheme \<times> int) option" where
  "ece391_write fd buf n = user_call idle_env SYS_WRITE (of_int fd) buf (of_int n)"

definition ece391_open :: "u32 \<Rightarrow> 'a keyboard_scheme \<Rightarrow> ('a keyboard_scheme \<times> int) option" where
  "ece391_open name = user_call idle_env SYS_OPEN name 0 0"

definition ece391_close :: "int \<Rightarrow> 'a keyboard_scheme \<Rightarrow> ('a keyboard_scheme \<times> int) option" where
  "ece391_close fd = user_call idle_env SYS_CLOSE (of_int fd) 0 0"

definition ece391_getargs :: "u32 \<Rightarrow> int \<Rightarrow> 'a keyboard_scheme \<Rightarrow> ('a keyboard_scheme \<times> int) option" where
  "ece391_getargs buf n = user_call idle_env SYS_GETARGS buf (of_int n) 0"

definition ece391_vidmap :: "u32 \<Rightarrow> 'a keyboard_scheme \<Rightarrow> ('a keyboard_scheme \<times> int) option" where
  "ece391_vidmap p = user_call idle_env SYS_VIDMAP p 0 0"

definition ece391_fdputs :: "int \<Rightarrow> u32 \<Rightarrow> 'a keyboard_scheme \<Rightarrow> 'a keyboard_scheme option" where
  "ece391_fdputs fd t s =
     Option.bind (ece391_strlen (vmem s) t) (\<lambda>l. map_option fst (ece391_write fd t (sint l) s))"

text \<open>Printing a message and returning from \<^verbatim>\<open>main\<close> or a function of the program.\<close>

definition fail_with :: "u32 \<Rightarrow> int \<Rightarrow> 'a keyboard_scheme \<Rightarrow> ('a keyboard_scheme \<times> int) option" where
  "fail_with t r s = map_option (\<lambda>s. (s, r)) (ece391_fdputs 1 t s)"

subsection \<open>\<^verbatim>\<open>cat\<close>, \<^verbatim>\<open>hello\<close>, \<^verbatim>\<open>testprint\<close> and \<^verbatim>\<open>ls\<close>\<close>

partial_function (option) cat_loop ::
  "literals \<Rightarrow> user_env \<Rightarrow> int \<Rightarrow> u32 \<Rightarrow> 'a keyboard_scheme \<Rightarrow> ('a keyboard_scheme \<times> int) option"
where
  "cat_loop lit env fd buf s =
     Option.bind (ece391_read (env 0) fd buf 1024 s) (\<lambda>(s, cnt).
       if cnt = 0 then Some (s, 0)
       else if cnt = - 1 then fail_with (lit (nl ''file read failed'')) 3 s
       else Option.bind (ece391_write 1 buf cnt s) (\<lambda>(s, r).
         if r = - 1 then Some (s, 3) else cat_loop lit (later env) fd buf s))"

definition cat_main :: "literals \<Rightarrow> user_env \<Rightarrow> u32 \<Rightarrow> 'a keyboard_scheme \<Rightarrow> ('a keyboard_scheme \<times> int) option" where
  "cat_main lit env buf s =
     Option.bind (ece391_getargs buf 1024 s) (\<lambda>(s, r).
       if r \<noteq> 0 then fail_with (lit (nl ''could not read arguments'')) 3 s
       else Option.bind (ece391_open buf s) (\<lambda>(s, fd).
         if fd = - 1 then fail_with (lit (nl ''file not found'')) 2 s
         else cat_loop lit env fd buf s))"

definition hello_main :: "literals \<Rightarrow> user_env \<Rightarrow> u32 \<Rightarrow> 'a keyboard_scheme \<Rightarrow> ('a keyboard_scheme \<times> int) option" where
  "hello_main lit env buf s =
     Option.bind (ece391_fdputs 1 (lit ''Hi, what's your name? '') s) (\<lambda>s.
     Option.bind (ece391_read (env 0) 0 buf 1023 s) (\<lambda>(s, cnt).
       if cnt = - 1 then fail_with (lit (nl ''Can't read name from keyboard.'')) 3 s
       else Option.bind (put_byte (buf + of_int cnt) 0 s) (\<lambda>s.
         Option.bind (ece391_fdputs 1 (lit ''Hello, '') s) (\<lambda>s.
         map_option (\<lambda>s. (s, 0)) (ece391_fdputs 1 buf s)))))"

definition testprint_main :: "literals \<Rightarrow> 'a keyboard_scheme \<Rightarrow> ('a keyboard_scheme \<times> int) option" where
  "testprint_main lit s = fail_with (lit (nl ''Hello, if this ran, the program was correct. Yay!'')) 0 s"

text \<open>The first statement of \<^verbatim>\<open>ls\<close> returns; the rest of it is never reached.\<close>

definition ls_main :: "'a keyboard_scheme \<Rightarrow> 'a keyboard_scheme \<times> int" where
  "ls_main s = (s, - 1)"

subsection \<open>\<^verbatim>\<open>shell\<close>\<close>

text \<open>The line as read: its newline is cut off and it is terminated.\<close>

definition shell_line :: "u32 \<Rightarrow> int \<Rightarrow> 'a keyboard_scheme \<Rightarrow> 'a keyboard_scheme option" where
  "shell_line buf cnt s =
     Option.bind (if cnt > 0 then map_option (\<lambda>c. if c = 0x0A then cnt - 1 else cnt) (fetch (buf + of_int (cnt - 1)) s)
        else Some cnt)
       (\<lambda>cnt. put_byte (buf + of_int cnt) 0 s)"

definition shell_report :: "literals \<Rightarrow> int \<Rightarrow> 'a keyboard_scheme \<Rightarrow> 'a keyboard_scheme option" where
  "shell_report lit rval s =
     (if rval = - 1 then ece391_fdputs 1 (lit (nl ''no such command'')) s
      else if rval = 256 then ece391_fdputs 1 (lit (nl ''program terminated by exception'')) s
      else if rval \<noteq> 0 then ece391_fdputs 1 (lit (nl ''program terminated abnormally'')) s
      else Some s)"

text \<open>
  What \<^verbatim>\<open>execute\<close> does is, seen from here, what the command does until it halts:
  the argument \<open>run\<close>, given the command line's address.
\<close>

partial_function (option) shell_loop ::
  "literals \<Rightarrow> (u32 \<Rightarrow> 'a keyboard_scheme \<Rightarrow> ('a keyboard_scheme \<times> int) option) \<Rightarrow> user_env \<Rightarrow> u32 \<Rightarrow>
    'a keyboard_scheme \<Rightarrow> ('a keyboard_scheme \<times> int) option"
where
  "shell_loop lit run env buf s =
     Option.bind (ece391_fdputs 1 (lit ''391OS> '') s) (\<lambda>s.
     Option.bind (ece391_read (env 0) 0 buf 1023 s) (\<lambda>(s, cnt).
       if cnt = - 1 then fail_with (lit (nl ''read from keyboard failed'')) 3 s
       else Option.bind (shell_line buf cnt s) (\<lambda>s.
         Option.bind (ece391_strcmp (vmem s) buf (lit ''exit'')) (\<lambda>d.
           if d = 0 then Some (s, 0)
           else Option.bind (fetch buf s) (\<lambda>c.
             if c = 0 then shell_loop lit run (later env) buf s
             else Option.bind (run buf s) (\<lambda>(s, rval).
               Option.bind (shell_report lit rval s) (shell_loop lit run (later env) buf)))))))"

definition shell_main ::
  "literals \<Rightarrow> (u32 \<Rightarrow> 'a keyboard_scheme \<Rightarrow> ('a keyboard_scheme \<times> int) option) \<Rightarrow> user_env \<Rightarrow> u32 \<Rightarrow>
    'a keyboard_scheme \<Rightarrow> ('a keyboard_scheme \<times> int) option"
where
  "shell_main lit run env buf s =
     Option.bind (ece391_fdputs 1 (lit (nl ''Starting 391 Shell'')) s) (shell_loop lit run env buf)"

subsection \<open>\<^verbatim>\<open>counter\<close>\<close>

definition store_user_number :: "u32 \<Rightarrow> u32 \<Rightarrow> u32 \<Rightarrow> 'a paging_scheme \<Rightarrow> 'a paging_scheme option" where
  "store_user_number v buf radix s =
     Option.bind (ece391_itoa (vmem s) v buf radix) (\<lambda>m.
     Option.bind (ece391_strlen m buf) (\<lambda>l. put_bytes buf (bytes_at m buf (unat l + 1)) s))"

text \<open>The numbers from \<open>i + 1\<close> on, \<open>n\<close> of them.\<close>

primrec counter_loop :: "literals \<Rightarrow> u32 \<Rightarrow> u32 \<Rightarrow> nat \<Rightarrow> 'a keyboard_scheme \<Rightarrow> 'a keyboard_scheme option" where
  "counter_loop lit buf i 0 s = Some s"
| "counter_loop lit buf i (Suc n) s =
     Option.bind (store_user_number (i + 1) buf 10 s) (\<lambda>s.
     Option.bind (ece391_fdputs 1 buf s) (\<lambda>s.
     Option.bind (ece391_fdputs 1 (lit [CHR 0x0A]) s) (counter_loop lit buf (i + 1) n)))"

definition counter_choice :: "u8 \<Rightarrow> nat" where
  "counter_choice c = (if c = 0x30 then 100 else if c = 0x31 then 10000 else if c = 0x32 then 100000 else 0)"

definition counter_main :: "literals \<Rightarrow> user_env \<Rightarrow> u32 \<Rightarrow> 'a keyboard_scheme \<Rightarrow> ('a keyboard_scheme \<times> int) option" where
  "counter_main lit env buf s =
     Option.bind (ece391_fdputs 1 (lit (nl ''Enter the Test Number: (0): 100, (1): 10000, (2): 100000'')) s) (\<lambda>s.
     Option.bind (ece391_read (env 0) 0 buf 1023 s) (\<lambda>(s, cnt).
       if cnt = - 1 then fail_with (lit (nl ''Can't read the number from keyboard.'')) 3 s
       else Option.bind (put_byte (buf + of_int cnt) 0 s) (\<lambda>s.
         Option.bind (ece391_strlen (vmem s) buf) (\<lambda>l.
         Option.bind (fetch buf s) (\<lambda>c.
           if l > 2 \<or> l = 2 \<and> (c < 0x30 \<or> c > 0x32) then fail_with (lit (nl ''Wrong Choice!'')) 0 s
           else map_option (\<lambda>s. (s, 0)) (counter_loop lit buf 0 (counter_choice c) s))))))"

subsection \<open>\<^verbatim>\<open>grep\<close>\<close>

text \<open>The end of the line that starts at \<open>i\<close>: the next newline, or \<open>used\<close>.\<close>

function line_end :: "mem \<Rightarrow> u32 \<Rightarrow> int \<Rightarrow> int \<Rightarrow> int" where
  "line_end m data used i = (if i < used \<and> m (data + of_int i) \<noteq> 0x0A then line_end m data used (i + 1) else i)"
  by pat_completeness auto
termination
  by (relation "measure (\<lambda>(m, data, used, i). nat (used - i))") auto

text \<open>Whether the search string occurs in the line from \<open>check\<close> to \<open>e\<close>.\<close>

function search_line :: "mem \<Rightarrow> u32 \<Rightarrow> u32 \<Rightarrow> u32 \<Rightarrow> int \<Rightarrow> int \<Rightarrow> bool" where
  "search_line m t t_len data check e =
     (if check < e
      then if m t = m (data + of_int check) \<and> ece391_strncmp m (data + of_int check) t t_len = 0 then True
           else search_line m t t_len data (check + 1) e
      else False)"
  by pat_completeness auto
termination
  by (relation "measure (\<lambda>(m, t, t_len, data, check, e). nat (e - check))") auto

declare line_end.simps [simp del] search_line.simps [simp del]

definition print_match :: "literals \<Rightarrow> u32 \<Rightarrow> u32 \<Rightarrow> 'a keyboard_scheme \<Rightarrow> 'a keyboard_scheme option" where
  "print_match lit fname line s =
     Option.bind (ece391_fdputs 1 fname s) (\<lambda>s.
     Option.bind (ece391_fdputs 1 (lit '':'') s) (\<lambda>s.
     Option.bind (ece391_fdputs 1 line s) (\<lambda>s.
       ece391_fdputs 1 (lit [CHR 0x0A]) s)))"

text \<open>A copy inside the array; the string and its NUL are written back to the machine.\<close>

definition copy_user_string :: "u32 \<Rightarrow> u32 \<Rightarrow> 'a paging_scheme \<Rightarrow> 'a paging_scheme option" where
  "copy_user_string dst src s =
     Option.bind (ece391_strcpy (vmem s) dst src) (\<lambda>m.
     Option.bind (ece391_strlen m dst) (\<lambda>l. put_bytes dst (bytes_at m dst (unat l + 1)) s))"

text \<open>The lines of the buffer from \<open>line_start\<close> on; the result is the new \<open>used\<close>.\<close>

partial_function (option) grep_lines ::
  "literals \<Rightarrow> u32 \<Rightarrow> u32 \<Rightarrow> u32 \<Rightarrow> u32 \<Rightarrow> int \<Rightarrow> int \<Rightarrow> int \<Rightarrow> 'a keyboard_scheme \<Rightarrow> ('a keyboard_scheme \<times> int) option"
where
  "grep_lines lit t t_len fname data cnt used line_start s =
     (let e = line_end (vmem s) data used line_start in
      Option.bind (fetch (data + of_int e) s) (\<lambda>c.
      Option.bind (put_byte (data + of_int e) 0 s) (\<lambda>s.
        if c \<noteq> 0x0A \<and> cnt \<noteq> 0 \<and> line_start \<noteq> 0
        then map_option (\<lambda>s. (s, used - line_start)) (copy_user_string data (data + of_int line_start) s)
        else Option.bind (if search_line (vmem s) t t_len data line_start e
               then print_match lit fname (data + of_int line_start) s else Some s) (\<lambda>s.
          if e + 1 \<ge> used then Some (s, 0)
          else grep_lines lit t t_len fname data cnt used (e + 1) s))))"

text \<open>The reading loop of \<^verbatim>\<open>do_one_file\<close>.\<close>

partial_function (option) grep_loop ::
  "literals \<Rightarrow> user_env \<Rightarrow> u32 \<Rightarrow> u32 \<Rightarrow> u32 \<Rightarrow> u32 \<Rightarrow> int \<Rightarrow> int \<Rightarrow> 'a keyboard_scheme \<Rightarrow>
    ('a keyboard_scheme \<times> int) option"
where
  "grep_loop lit env t t_len fname data fd used s =
     Option.bind (ece391_read (env 0) fd (data + of_int used) (1024 - used) s) (\<lambda>(s, cnt).
       if cnt = - 1 then fail_with (lit (nl ''file read failed'')) (- 1) s
       else Option.bind (grep_lines lit t t_len fname data cnt (used + cnt) 0 s) (\<lambda>(s, used).
         if cnt = 0 then Some (s, 0) else grep_loop lit (later env) t t_len fname data fd used s))"

definition do_one_file ::
  "literals \<Rightarrow> user_env \<Rightarrow> u32 \<Rightarrow> u32 \<Rightarrow> u32 \<Rightarrow> 'a keyboard_scheme \<Rightarrow> ('a keyboard_scheme \<times> int) option"
where
  "do_one_file lit env data t fname s =
     Option.bind (ece391_strlen (vmem s) t) (\<lambda>t_len.
     Option.bind (ece391_open fname s) (\<lambda>(s, fd).
       if fd = - 1 then fail_with (lit (nl ''file open failed'')) (- 1) s
       else Option.bind (grep_loop lit env t t_len fname data fd 0 s) (\<lambda>(s, r).
         if r = - 1 then Some (s, - 1)
         else Option.bind (ece391_close fd s) (\<lambda>(s, c).
           if c = - 1 then fail_with (lit (nl ''file close failed'')) (- 1) s else Some (s, 0)))))"

text \<open>The files of the directory; \<open>file_env i\<close> is what the reads of the \<open>i\<close>-th entry's file meet.\<close>

partial_function (option) grep_dir ::
  "literals \<Rightarrow> user_env \<Rightarrow> (nat \<Rightarrow> user_env) \<Rightarrow> u32 \<Rightarrow> u32 \<Rightarrow> u32 \<Rightarrow> int \<Rightarrow> 'a keyboard_scheme \<Rightarrow>
    ('a keyboard_scheme \<times> int) option"
where
  "grep_dir lit env file_env data t buf fd s =
     Option.bind (ece391_read (env 0) fd buf 32 s) (\<lambda>(s, cnt).
       if cnt = 0 then Some (s, 0)
       else if cnt = - 1 then fail_with (lit (nl ''directory entry read failed'')) 3 s
       else Option.bind (fetch buf s) (\<lambda>c.
         if c = 0x2E then grep_dir lit (later env) (\<lambda>i. file_env (Suc i)) data t buf fd s
         else Option.bind (put_byte (buf + of_int cnt) 0 s) (\<lambda>s.
           Option.bind (do_one_file lit (file_env 0) data t buf s) (\<lambda>(s, r).
             if r \<noteq> 0 then Some (s, 3)
             else grep_dir lit (later env) (\<lambda>i. file_env (Suc i)) data t buf fd s))))"

definition grep_main ::
  "literals \<Rightarrow> user_env \<Rightarrow> (nat \<Rightarrow> user_env) \<Rightarrow> u32 \<Rightarrow> u32 \<Rightarrow> u32 \<Rightarrow> 'a keyboard_scheme \<Rightarrow>
    ('a keyboard_scheme \<times> int) option"
where
  "grep_main lit env file_env data t buf s =
     Option.bind (ece391_getargs t 1024 s) (\<lambda>(s, r).
       if r \<noteq> 0 then fail_with (lit (nl ''could not read argument'')) 3 s
       else Option.bind (ece391_open (lit ''.'') s) (\<lambda>(s, fd).
         if fd = - 1 then fail_with (lit (nl ''directory open failed'')) 2 s
         else grep_dir lit env file_env data t buf fd s))"

subsection \<open>\<^verbatim>\<open>pingpong\<close>\<close>

text \<open>The 81 bytes of the buffer with the character at place \<open>j\<close>: a space, the walls, a newline and the NUL.\<close>

definition pingpong_line :: "nat \<Rightarrow> u8 \<Rightarrow> u8 list" where
  "pingpong_line j c = ([0x20, 0x7C] @ replicate 76 0x20 @ [0x7C, 0x0A, 0])[j := c]"

definition pingpong_frame :: "literals \<Rightarrow> read_env \<Rightarrow> u32 \<Rightarrow> u32 \<Rightarrow> int \<Rightarrow> u8 \<Rightarrow> nat \<Rightarrow> 'a keyboard_scheme \<Rightarrow> 'a keyboard_scheme option" where
  "pingpong_frame lit env garbage buf rtc_fd c j s =
     Option.bind (put_bytes buf (pingpong_line j c) s) (\<lambda>s.
     Option.bind (ece391_fdputs 1 buf s) (\<lambda>s.
       map_option fst (ece391_read env rtc_fd garbage 4 s)))"

text \<open>The places of one round: out from 2 to 77, and back.\<close>

definition pingpong_places :: "nat list" where
  "pingpong_places = [2..<78] @ rev [2..<78]"

fun pingpong_frames ::
  "literals \<Rightarrow> user_env \<Rightarrow> u32 \<Rightarrow> u32 \<Rightarrow> int \<Rightarrow> u8 \<Rightarrow> nat list \<Rightarrow> 'a keyboard_scheme \<Rightarrow> 'a keyboard_scheme option"
where
  "pingpong_frames lit env garbage buf rtc_fd c [] s = Some s"
| "pingpong_frames lit env garbage buf rtc_fd c (j # js) s =
     Option.bind (pingpong_frame lit (env 0) garbage buf rtc_fd c j s)
       (pingpong_frames lit (later env) garbage buf rtc_fd c js)"

definition pingpong_next :: "u8 \<Rightarrow> u8" where
  "pingpong_next c = (if c = 0x5A then 0x41 else c + 1)"

text \<open>The program never returns; the state after \<open>n\<close> rounds is what it has done by then.\<close>

primrec pingpong_rounds ::
  "literals \<Rightarrow> user_env \<Rightarrow> u32 \<Rightarrow> u32 \<Rightarrow> int \<Rightarrow> u8 \<Rightarrow> nat \<Rightarrow> 'a keyboard_scheme \<Rightarrow> 'a keyboard_scheme option"
where
  "pingpong_rounds lit env garbage buf rtc_fd c 0 s = Some s"
| "pingpong_rounds lit env garbage buf rtc_fd c (Suc n) s =
     Option.bind (pingpong_frames lit env garbage buf rtc_fd c pingpong_places s)
       (pingpong_rounds lit (\<lambda>i. env (i + 152)) garbage buf rtc_fd (pingpong_next c) n)"

text \<open>The set-up: the clock is opened and asked for 32 interrupts a second.\<close>

definition pingpong_main ::
  "literals \<Rightarrow> user_env \<Rightarrow> u32 \<Rightarrow> u32 \<Rightarrow> u32 \<Rightarrow> nat \<Rightarrow> 'a keyboard_scheme \<Rightarrow> 'a keyboard_scheme option"
where
  "pingpong_main lit env ret_val garbage buf n s =
     Option.bind (put_bytes buf (pingpong_line 0 0x20) s) (\<lambda>s.
     Option.bind (ece391_open (lit ''rtc'') s) (\<lambda>(s, rtc_fd).
     Option.bind (put_bytes ret_val (word_bytes 32) s) (\<lambda>s.
     Option.bind (ece391_write rtc_fd ret_val 4 s) (\<lambda>(s, r).
     Option.bind (put_bytes ret_val (word_bytes (of_int r)) s)
       (pingpong_rounds lit env garbage buf rtc_fd 0x41 n)))))"

subsection \<open>System calls from a program\<close>

lemma sint_of_int32: "- 2147483648 \<le> n \<Longrightarrow> n < 2147483648 \<Longrightarrow> sint (of_int n :: u32) = n"
  by (subst sint_sbintrunc') (simp add: signed_take_bit_int_eq_self)

lemma returned_bind: "Option.bind (returned r) (\<lambda>r. case r of Return s v \<Rightarrow> Some (s, v) | _ \<Rightarrow> None) = r"
  by (cases r) (auto simp: returned_def)

lemmas user_call_defs = ece391_read_def ece391_write_def ece391_open_def ece391_close_def ece391_getargs_def
  ece391_vidmap_def user_call_def  irqh_syscall_def returned_bind

lemma user_calls:
  assumes "- 2147483648 \<le> fd" "fd < 2147483648" "- 2147483648 \<le> n" "n < 2147483648"
  shows "ece391_read env fd buf n s = sys_read env fd buf n s" "ece391_write fd buf n s = sys_write fd buf n s"
  using assms by (simp_all add: user_call_defs sint_of_int32)

lemma user_open: "ece391_open name s = sys_open name s"
  by (simp add: user_call_defs)

lemma user_close: "- 2147483648 \<le> fd \<Longrightarrow> fd < 2147483648 \<Longrightarrow> ece391_close fd s = Some (sys_close fd s)"
  by (simp add: user_call_defs sint_of_int32)

lemma user_vidmap: "ece391_vidmap p s = vidmap p s"
  by (simp add: user_call_defs)

lemma user_getargs: "- 2147483648 \<le> n \<Longrightarrow> n < 2147483648 \<Longrightarrow> ece391_getargs buf n s = getargs buf n s"
  by (simp add: user_call_defs sint_of_int32)

subsection \<open>Searching a line\<close>

lemma match_here:
  assumes "cstr m t pat" "pat \<noteq> []"
  shows "(m t = m a \<and> ece391_strncmp m a t (of_nat (length pat)) = 0) = (bytes_at m a (length pat) = pat)"
proof -
  have "m a = m t" if "bytes_at m a (length pat) = pat"
    using that assms(2) cstr_nth [OF assms(1), of 0] nth_bytes_at [of 0 "length pat" m a] by simp
  then show ?thesis using ece391_strncmp_prefix [OF assms, of a] by metis
qed

lemma prefix_of_line:
  assumes "0 \<notin> set pat" "m (a + of_nat n) = 0"
  shows "bytes_at m a (length pat) = pat \<longleftrightarrow> prefix pat (bytes_at m a n)"
proof (cases "length pat \<le> n")
  case True
  then have "bytes_at m a (length pat) = take (length pat) (bytes_at m a n)" by (simp add: take_bytes_at)
  then show ?thesis by (metis prefix_def append_take_drop_id append_eq_conv_conj)
next
  case False
  then have "bytes_at m a (length pat) ! n = 0" using assms(2) by simp
  then have "bytes_at m a (length pat) \<noteq> pat" using assms(1) False by (metis not_le nth_mem)
  moreover have "\<not> prefix pat (bytes_at m a n)" using False prefix_length_le [of pat "bytes_at m a n"] by auto
  ultimately show ?thesis by simp
qed

lemma search_line_sublist:
  assumes "cstr m t pat" "pat \<noteq> []" "m (data + of_int e) = 0" "check \<le> e"
  shows "search_line m t (of_nat (length pat)) data check e \<longleftrightarrow> sublist pat (bytes_at m (data + of_int check) (nat (e - check)))"
  using assms(4)
proof (induction "nat (e - check)" arbitrary: check)
  case 0
  then show ?case using assms(2) by (subst search_line.simps) simp
next
  case (Suc n)
  let ?a = "data + of_int check"
  have lt: "check < e" "nat (e - check) = Suc n" "nat (e - (check + 1)) = n" using Suc by auto
  have line: "bytes_at m ?a (nat (e - check)) = m ?a # bytes_at m (data + of_int (check + 1)) n"
    by (simp add: lt bytes_at_Suc add.assoc)
  have addr: "?a + of_nat (nat (e - check)) = data + of_int e" using lt(1) by (simp del: of_nat_Suc)
  then have "prefix pat (bytes_at m ?a (nat (e - check))) \<longleftrightarrow> bytes_at m ?a (length pat) = pat"
    using prefix_of_line [of pat m ?a "nat (e - check)", unfolded addr] assms(1,3) by (simp add: cstr_def)
  then show ?case
    using Suc.hyps(1) [of "check + 1"] lt match_here [OF assms(1,2), of ?a] line
    by (subst search_line.simps) (auto simp: sublist_Cons_right)
qed

lemma line_end_bounds:
  "i \<le> used \<Longrightarrow> i \<le> line_end m data used i \<and> line_end m data used i \<le> used \<and>
    (\<forall>j. i \<le> j \<and> j < line_end m data used i \<longrightarrow> m (data + of_int j) \<noteq> 0x0A) \<and>
    (line_end m data used i < used \<longrightarrow> m (data + of_int (line_end m data used i)) = 0x0A)"
proof (induction m data used i rule: line_end.induct)
  case (1 m data used i)
  show ?case
  proof (cases "i < used \<and> m (data + of_int i) \<noteq> 0x0A")
    case True
    then have step: "line_end m data used i = line_end m data used (i + 1)" by (subst line_end.simps) simp
    have *: "i + 1 \<le> line_end m data used (i + 1)" "line_end m data used (i + 1) \<le> used"
      "\<forall>j. i + 1 \<le> j \<and> j < line_end m data used (i + 1) \<longrightarrow> m (data + of_int j) \<noteq> 0x0A"
      "line_end m data used (i + 1) < used \<longrightarrow> m (data + of_int (line_end m data used (i + 1))) = 0x0A"
      using 1 True by auto
    have "m (data + of_int j) \<noteq> 0x0A" if "i \<le> j" "j < line_end m data used (i + 1)" for j
      using that *(3) True by (cases "j = i") auto
    then show ?thesis unfolding step using * by auto
  next
    case False
    then have "line_end m data used i = i" by (subst line_end.simps) (simp only: if_False)
    with False 1(2) show ?thesis by auto
  qed
qed

subsection \<open>Properties\<close>

text \<open>
  C35: \<^verbatim>\<open>grep\<close> takes as a line the bytes up to the next newline or, when no newline is left, to the
  end of what it has read, and it finds the search string in a line it has terminated exactly when the string
  occurs there as a block.
\<close>

theorem grep_finds_occurrence:
  assumes "cstr m t pat" "pat \<noteq> []" "start \<le> used" "e = line_end m data used start"
  shows "start \<le> e \<and> (e = used \<or> e < used \<and> m (data + of_int e) = 0x0A) \<and>
    0x0A \<notin> set (bytes_at m (data + of_int start) (nat (e - start))) \<and>
    (m (data + of_int e) = 0 \<longrightarrow> search_line m t (of_nat (length pat)) data start e =
      (\<exists>us vs. bytes_at m (data + of_int start) (nat (e - start)) = us @ pat @ vs))"
proof -
  note b = line_end_bounds [OF assms(3), of m data, folded assms(4)]
  have "m (data + of_int start + of_nat k) \<noteq> 0x0A" if "k < nat (e - start)" for k
    using b that spec [of _ "start + int k"] by (auto simp: add.assoc dest!: spec [of _ "start + int k"])
  then have "0x0A \<notin> set (bytes_at m (data + of_int start) (nat (e - start)))" by (auto simp: bytes_at_def)
  moreover have "e = used \<or> e < used \<and> m (data + of_int e) = 0x0A" using b by auto
  ultimately show ?thesis using b search_line_sublist [OF assms(1,2), of data e start] by (simp add: sublist_def)
qed

definition demo_grep :: mem where
  "demo_grep = (\<lambda>a. if a = 0 \<or> a = 17 then 0x61 else if a = 16 then 0x62 else 0)"

lemma grep_finds_occurrence_witness: "line_end demo_grep 16 2 0 = 2 \<and> search_line demo_grep 0 1 16 0 2"
proof -
  have pat: "cstr demo_grep 0 [0x61]" by (simp add: cstr_def bytes_at_Suc demo_grep_def)
  have e: "2 = line_end demo_grep 16 2 0" by (simp add: line_end.simps demo_grep_def)
  have "bytes_at demo_grep 16 (Suc (Suc 0)) = [0x62] @ [0x61] @ []" by (simp add: bytes_at_Suc demo_grep_def)
  then have "bytes_at demo_grep 16 2 = [0x62] @ [0x61] @ []" by (simp only: numeral_2_eq_2)
  moreover have "demo_grep 18 = 0" by (simp add: demo_grep_def)
  moreover have "\<exists>us vs. [0x62] @ [0x61] @ [] = us @ [0x61 :: u8] @ vs" by blast
  ultimately show ?thesis using grep_finds_occurrence [OF pat _ _ e] e by simp
qed

end
