(* ===== verification/Shell.thy ===== *)
theory Shell
  imports Programs
begin

text \<open>
  The user program \<^verbatim>\<open>shell\<close>: what one round of its loop does with the line that
  was typed, from the terminal's line buffer to the call of \<^verbatim>\<open>execute\<close>.
\<close>

definition exit_text :: "u8 list" where
  "exit_text = [0x65, 0x78, 0x69, 0x74]"

text \<open>The state after the line \<open>xs\<close> was read into the buffer and its newline cut off.\<close>

definition line_taken :: "nat \<Rightarrow> u8 list \<Rightarrow> u32 \<Rightarrow> 'a keyboard_scheme \<Rightarrow> 'a keyboard_scheme" where
  "line_taken t xs pb s = (update_terminal t (\<lambda>x. x\<lparr>line_buf := replicate 128 0, line_buf_index := 0, read_flag := 0\<rparr>)
     (sti s))\<lparr>memory := (write_bytes (memory s) pb (xs @ [0x0A]))(pb + 128 := 0x0A, pb + of_nat (length xs) := 0)\<rparr>"

lemma line_taken_translate [simp]: "translate (line_taken t xs pb s) = translate s"
  by (rule translate_cong) (simp add: line_taken_def same_tables_def update_terminal_def sti_def)

lemma line_taken_memory: "memory (line_taken t xs pb s) =
    (write_bytes (memory s) pb (xs @ [0x0A]))(pb + 128 := 0x0A, pb + of_nat (length xs) := 0)"
  by (simp add: line_taken_def)

lemma typed_line:
  assumes "line_ok t s" "line_of t s = xs @ [0x0A]" "0x0A \<notin> set xs"
  shows "length xs < 128" "line_buf (terminal_at t s) ! length xs = 0x0A"
    "\<forall>j<length xs. line_buf (terminal_at t s) ! j \<noteq> 0x0A" "take (length xs + 1) (line_buf (terminal_at t s)) = xs @ [0x0A]"
proof -
  let ?l = "line_buf (terminal_at t s)" and ?i = "unat (line_buf_index (terminal_at t s))"
  have take: "take ?i ?l = xs @ [0x0A]" and i: "?i \<le> 128" "length ?l = 128" using assms by (simp_all add: line_of_def line_ok_def)
  have "length (take ?i ?l) = length xs + 1" unfolding take by simp
  then have n: "?i = length xs + 1" using i unfolding length_take by simp
  show "length xs < 128" "take (length xs + 1) ?l = xs @ [0x0A]" using i take n by simp_all
  have at: "?l ! j = (xs @ [0x0A]) ! j" if "j \<le> length xs" for j 
  proof -
    have "take ?i ?l ! j = ?l ! j" by (rule nth_take) (use that n in simp)
    then show ?thesis unfolding take by (rule sym)
  qed
  then show "?l ! length xs = 0x0A" by simp
  show "\<forall>j<length xs. ?l ! j \<noteq> 0x0A"
  proof (intro allI impI)
    fix j assume "j < length xs"
    then have "?l ! j = xs ! j" "xs ! j \<in> set xs" using at [of j] by (simp_all add: nth_append)
    with assms(3) show "?l ! j \<noteq> 0x0A" by metis
  qed
qed

lemma shell_reads:
  assumes stdin: "fd_usable 0 s" "jumptable (fd_at 0 s) = Some Std_in_fops"
    and run: "get_running_terminal s = Some (Some t)" and line: "line_ok t s" "line_of t s = xs @ [0x0A]" "0x0A \<notin> set xs"
    and buf: "mapped_at s buf 1024 pb" "buf \<noteq> 0"
  shows "Option.bind (ece391_read env 0 buf 1023 s) (\<lambda>(s, cnt).
      if cnt = - 1 then None else shell_line buf cnt s) = Some (line_taken t xs pb s) \<and>
    (\<exists>s2. ece391_read env 0 buf 1023 s = Some (s2, int (length xs + 1)))"
proof -
  let ?t = "sti s"
  note l = typed_line [OF line]
  have run': "get_running_terminal ?t = Some (Some t)" using run get_running_terminal_cong [of ?t s] by (simp add: sti_def)
  have same: "terminal_at t ?t = terminal_at t s" "line_ok t ?t" using line(1) by (simp_all add: terminal_at_def sti_def line_ok_def)
  have tr: "translate ?t = translate s" by (rule translate_cong) (simp add: same_tables_def sti_def)
  have map: "mapped_at ?t buf (min 1023 128 + 1) pb" using mapped_at_mono [OF buf(1), of 129] by (simp add: mapped_at_def tr)
  have k: "min (length xs + 1) 1023 = length xs + 1" using l(1) by simp
  let ?s2 = "update_terminal t (\<lambda>x. x\<lparr>line_buf := replicate 128 0, line_buf_index := 0, read_flag := 0\<rparr>)
      (?t\<lparr>memory := (write_bytes (memory ?t) pb (xs @ [0x0A]))(pb + 128 := 0x0A)\<rparr>)"
  have "get_line_buf (scancodes env) buf (int 1023) ?t = Some (?s2, int (length xs + 1))"
    using get_line_buf_ready [OF run' same(2) _ _ _ _ _ buf(2) map, of "length xs" "scancodes env", unfolded k same(1) l(4)] l by simp
  then have read: "ece391_read env 0 buf 1023 s = Some (?s2, int (length xs + 1))"
    using stdin buf(2) by (subst user_calls) (simp_all add: sys_read_def terminal_read_def)
  have at: "translate ?s2 (buf + of_nat (length xs)) = Some (pb + of_nat (length xs))"
    using mapped_at_nth [OF buf(1), of "length xs"] l(1) tr by simp
  have "pb + of_nat (length xs) \<noteq> pb + (128 :: u32)"
    using l(1) add_of_nat_eq_iff [of "length xs" 128 pb] by simp
  then have "memory ?s2 (pb + of_nat (length xs)) = 0x0A" using l(1) by (simp add: write_bytes_def nth_append)
  then have "shell_line buf (int (length xs + 1)) ?s2 = Some (line_taken t xs pb s)"
    using at by (simp add: shell_line_def fetch_def put_byte_def) (simp add: line_taken_def update_terminal_def sti_def)
  with read show ?thesis by auto
qed

lemma line_taken_string:
  assumes "mapped_at s buf 1024 pb" "length xs < 128" "0 \<notin> set xs"
  shows "cstr (vmem (line_taken t xs pb s)) buf xs"
proof -
  have at: "vmem (line_taken t xs pb s) (buf + of_nat j) = (xs @ [0]) ! j" if "j \<le> length xs" for j
  proof -
    have "translate (line_taken t xs pb s) (buf + of_nat j) = Some (pb + of_nat j)"
      using mapped_at_nth [OF assms(1), of j] that assms(2) by simp
    moreover have "pb + of_nat j \<noteq> pb + (128 :: u32)" "(pb + of_nat j = pb + (of_nat (length xs) :: u32)) = (j = length xs)"
      using that assms(2) add_of_nat_eq_iff [of j 128 pb] add_of_nat_eq_iff [of j "length xs" pb] by simp_all
    ultimately show ?thesis using that assms(2) by (simp add: vmem_mapped line_taken_memory write_bytes_def nth_append)
  qed
  show ?thesis unfolding cstr_def
  proof (intro conjI)
    show "bytes_at (vmem (line_taken t xs pb s)) buf (length xs) = xs"
      by (rule nth_equalityI) (simp_all add: at nth_append)
  qed (use assms at [of "length xs"] in auto)
qed

lemma line_taken_elsewhere:
  assumes "length xs < 128" "\<And>q. translate s a = Some q \<Longrightarrow> 1024 \<le> unat (q - pb)"
  shows "vmem (line_taken t xs pb s) a = vmem s a"
proof (cases "translate s a")
  case (Some q)
  have "q \<noteq> pb + of_nat k" if "k < 1024" for k using assms(2) [OF Some] that by auto
  from this [of "length xs"] this [of 128] assms(1) assms(2) [OF Some] Some show ?thesis
    by (simp add: vmem_def line_taken_memory write_bytes_def)
qed (simp add: vmem_def)

subsection \<open>Properties\<close>

text \<open>
  C34: A line typed at the terminal that the shell runs on reaches \<^verbatim>\<open>execute\<close> as typed:
  the buffer holds exactly the line without its newline when the command is run. The line
  \<^verbatim>\<open>exit\<close> ends the shell instead and an empty line is skipped.
\<close>

theorem shell_runs_typed_line:
  assumes "ece391_fdputs 1 (lit ''391OS> '') s = Some s1"
    and stdin: "fd_usable 0 s1" "jumptable (fd_at 0 s1) = Some Std_in_fops" "get_running_terminal s1 = Some (Some t)"
    and line: "line_ok t s1" "line_of t s1 = xs @ [0x0A]" "0x0A \<notin> set xs" "0 \<notin> set xs"
    and buf: "mapped_at s1 buf 1024 pb" "buf \<noteq> 0"
    and lit: "cstr (vmem s1) (lit ''exit'') exit_text"
      "\<And>i q. i \<le> 4 \<Longrightarrow> translate s1 (lit ''exit'' + of_nat i) = Some q \<Longrightarrow> 1024 \<le> unat (q - pb)"
  shows "\<exists>s2. cstr (vmem s2) buf xs \<and> shell_loop lit run env buf s =
    (if xs = exit_text then Some (s2, 0)
     else if xs = [] then shell_loop lit run (later env) buf s2
     else Option.bind (run buf s2) (\<lambda>(s, rval).
       Option.bind (shell_report lit rval s) (shell_loop lit run (later env) buf)))"
proof -
  let ?s2 = "line_taken t xs pb s1"
  note l = typed_line [OF line(1-3)]
  have str: "cstr (vmem ?s2) buf xs" by (rule line_taken_string [OF buf(1) l(1) line(4)])
  have "cstr (vmem ?s2) (lit ''exit'') exit_text = cstr (vmem s1) (lit ''exit'') exit_text"
    by (rule cstr_cong, rule line_taken_elsewhere [OF l(1)], rule lit(2)) (simp_all add: exit_text_def)
  then obtain c where cmp: "ece391_strcmp (vmem ?s2) buf (lit ''exit'') = Some c" "c = 0 \<longleftrightarrow> xs = exit_text"
    using ece391_strcmp_cstr [OF str] lit(1) by blast
  have "translate ?s2 buf = Some pb" using mapped_at_nth [OF buf(1), of 0] by simp
  moreover have "vmem ?s2 buf = (if xs = [] then 0 else hd xs)"
    using cstr_head [of "vmem ?s2" buf] cstr_empty [of "vmem ?s2" buf] str by (cases xs) auto
  ultimately have first: "fetch buf ?s2 = Some (if xs = [] then 0 else hd xs)"
    using vmem_mapped [of ?s2 buf pb] by (simp add: fetch_def)
  have "xs \<noteq> [] \<Longrightarrow> hd xs \<noteq> 0" using line(4) list.set_sel(1) [of xs] by metis
  note first = first this
  obtain s' where read: "ece391_read (env 0) 0 buf 1023 s1 = Some (s', int (length xs + 1))"
    "shell_line buf (int (length xs + 1)) s' = Some ?s2"
    using shell_reads [OF stdin line(1-3) buf, of "env 0"] by (auto split: if_splits)
  have "shell_loop lit run env buf s =
    (if xs = exit_text then Some (?s2, 0)
     else if xs = [] then shell_loop lit run (later env) buf ?s2
     else Option.bind (run buf ?s2) (\<lambda>(s, rval).
       Option.bind (shell_report lit rval s) (shell_loop lit run (later env) buf)))"
    using assms(1) read cmp first by (subst shell_loop.simps) (simp add: split_beta)
  with str show ?thesis by blast
qed

subsection \<open>A line to run\<close>

text \<open>
  A machine on which \<^verbatim>\<open>ls\<close> was typed: the literal \<^verbatim>\<open>exit\<close> is at 0x600000 and
  the prompt, empty here, at 0x600100.
\<close>

definition demo_shell :: keyboard where
  "demo_shell = (demo_keyboard [0x6C, 0x73, 0x0A])\<lparr>memory := write_bytes demo_image 0x600000 exit_text\<rparr>"

definition demo_literals :: literals where
  "demo_literals t = (if t = ''exit'' then 0x600000 else 0x600100)"

lemma demo_shell_fields [simp]:
  "running_pid demo_shell = 2" "memory demo_shell = write_bytes demo_image 0x600000 exit_text"
  "pcbs demo_shell = pcbs demo_terms" "terminals demo_shell = terminals (demo_keyboard [0x6C, 0x73, 0x0A])"
  by (simp_all add: demo_shell_def)

lemma demo_shell_translate: "translate demo_shell = translate demo_terms"
  using demo_keyboard_translate by (simp add: demo_shell_def)

lemma demo_shell_vmem: "4096 \<le> unat a \<Longrightarrow> unat a < 0x800000 \<Longrightarrow> vmem demo_shell a = write_bytes demo_image 0x600000 exit_text a"
  by (simp add: vmem_def demo_shell_translate demo_terms_translate)

lemma demo_shell_runs: "get_running_terminal demo_shell = Some (Some 0)"
  using demo_keyboard_runs get_running_terminal_cong [of demo_shell "demo_keyboard [0x6C, 0x73, 0x0A]"] by simp

lemma demo_prompt: "ece391_fdputs 1 (demo_literals ''391OS> '') demo_shell = Some (sti (cli demo_shell))"
proof -
  have "cstr (vmem demo_shell) 0x600100 []"
    by (simp add: cstr_def demo_shell_vmem write_bytes_def exit_text_def demo_image_def)
  then have len: "ece391_strlen (vmem demo_shell) 0x600100 = Some 0" using ece391_strlen_cstr by fastforce
  have "get_running_terminal (cli demo_shell) = Some (Some 0)"
    using demo_shell_runs get_running_terminal_cong [of "cli demo_shell" demo_shell] by (simp add: cli_def)
  then have "sys_write 1 0x600100 0 demo_shell = Some (sti (cli demo_shell), - 1)"
    by (simp add: sys_write_def fd_usable_def fd_at_def get_current_pcb_def blank_pcb_def demo_fds_def terminal_write_def)
  then show ?thesis
    using user_calls(2) [of 1 0 "0x600100" demo_shell] by (simp add: ece391_fdputs_def demo_literals_def len)
qed

lemma shell_runs_typed_line_witness:
  "\<forall>run. \<exists>s2. cstr (vmem s2) 0x500000 [0x6C, 0x73] \<and>
    shell_loop demo_literals run (\<lambda>_. idle_env) 0x500000 demo_shell = Option.bind (run 0x500000 s2) (\<lambda>(s, rval).
      Option.bind (shell_report demo_literals rval s) (shell_loop demo_literals run (later (\<lambda>_. idle_env)) 0x500000))"
proof
  fix run :: "u32 \<Rightarrow> keyboard \<Rightarrow> (keyboard \<times> int) option"
  let ?s = "sti (cli demo_shell)"
  have view: "translate ?s = translate demo_terms" "vmem ?s = vmem demo_shell"
    using demo_shell_translate translate_cong [of ?s demo_shell] vmem_cong [of ?s demo_shell] by (simp_all add: same_tables_def sti_def cli_def)
  have fields: "running_pid ?s = 2" "pcbs ?s = pcbs demo_terms" "terminals ?s = terminals (demo_keyboard [0x6C, 0x73, 0x0A])"
    by (simp_all add: sti_def cli_def)
  have terminal: "get_running_terminal ?s = Some (Some 0)"
    using demo_shell_runs get_running_terminal_cong [of ?s demo_shell] fields by simp
  have line: "line_ok 0 ?s" "line_of 0 ?s = [0x6C, 0x73] @ [0x0A]"
    using demo_keyboard_line [of "[0x6C, 0x73, 0x0A]"] fields(3) by (simp_all add: line_ok_def line_of_def terminal_at_def)
  have stdin: "fd_usable 0 ?s" "jumptable (fd_at 0 ?s) = Some Std_in_fops"
    by (simp_all add: fd_usable_def fd_at_def get_current_pcb_def fields blank_pcb_def demo_fds_def)
  have map: "mapped_at ?s 0x500000 1024 0x500000"
    using demo_buffer(1) [of 1024] translate_cong [OF demo_terms_tables] by (simp add: mapped_at_def view)
  have addr: "unat (0x600000 + of_nat i :: u32) = 0x600000 + i" if "i \<le> 4" for i :: nat
    using unat_of_nat32 [of "0x600000 + i"] that by simp
  have lit: "cstr (vmem ?s) (demo_literals ''exit'') exit_text"
    by (simp add: view demo_literals_def cstr_def exit_text_def bytes_at_Suc demo_shell_vmem write_bytes_def demo_image_def)
  have far: "1024 \<le> unat (q - 0x500000)" if "i \<le> 4" "translate ?s (demo_literals ''exit'' + of_nat i) = Some q" for i q
    using that addr [of i] by (simp add: view demo_literals_def demo_terms_translate) (auto simp: unat_sub_if')
  from shell_runs_typed_line [where run = run and env = "\<lambda>_. idle_env", OF demo_prompt stdin terminal line _ _ map _ lit far]
  show "\<exists>s2. cstr (vmem s2) 0x500000 [0x6C, 0x73] \<and>
    shell_loop demo_literals run (\<lambda>_. idle_env) 0x500000 demo_shell = Option.bind (run 0x500000 s2) (\<lambda>(s, rval).
      Option.bind (shell_report demo_literals rval s) (shell_loop demo_literals run (later (\<lambda>_. idle_env)) 0x500000))"
    by (simp add: exit_text_def)
qed

end
