(* ===== verification/Stdout.thy ===== *)
theory Stdout
  imports Programs
begin

text \<open>
  What a program's writes to standard output show, when its terminal is the one on display:
  a buffer or a string literal appears on the abstract screen, and nothing outside the screen's
  4000 bytes changes.
\<close>

subsection \<open>Standard output on the screen\<close>

text \<open>Standard output is open and the running process is on the terminal on display.\<close>

definition stdout_shown :: "nat \<Rightarrow> u32 \<Rightarrow> 'a terms_scheme \<Rightarrow> bool" where
  "stdout_shown t pa s \<longleftrightarrow> fd_usable 1 s \<and> jumptable (fd_at 1 s) = Some Std_out_fops \<and>
     runs_on s (running_pid s) t \<and> shown_ok (term_id (terminal_at t s)) pa s"

lemma stdout_shown_frame:
  assumes "stdout_shown t pa s" "prints_only s s'" "shown_ok (term_id (terminal_at t s)) pa s'"
  shows "stdout_shown t pa s'"
proof -
  have same: "pcbs s' = pcbs s" "running_pid s' = running_pid s" "terminals s' = terminals s"
    using assms(2) by (simp_all add: prints_only_def)
  then have "runs_on s' (running_pid s') t"
    using runs_on_links [of s "running_pid s" t s'] assms(1) by (simp add: stdout_shown_def same_links_def)
  moreover have "fd_at 1 s' = fd_at 1 s" by (rule fd_at_cong [OF same(1,2)])
  ultimately show ?thesis using assms(1,3) same by (simp add: stdout_shown_def fd_usable_def terminal_at_def)
qed

lemma stdout_shown_cong:
  assumes "stdout_shown t pa s" "same_links s s'" "terminals s' = terminals s" "translate s' = translate s"
    and "current_terminal s' = current_terminal s" "screen_x s' = screen_x s" "screen_y s' = screen_y s"
    and "running_pid s' = running_pid s" "fd_at 1 s' = fd_at 1 s"
  shows "stdout_shown t pa s'"
  using assms runs_on_links [OF _ assms(2,3)]
  by (simp add: stdout_shown_def shown_ok_def screen_ok_def mapped_at_def terminal_at_def fd_usable_def)

lemma write_prints:
  assumes out: "stdout_shown t pa s" and buf: "mapped_at s buf n base" "0 < n" "n < 2147483648" "buf \<noteq> 0"
    and far: "\<And>i. i < n \<Longrightarrow> 4000 \<le> unat (base + of_nat i - pa)"
  shows "\<exists>s'. ece391_write 1 buf (int n) s = Some (s', int n) \<and> prints_only s s' \<and> within pa s s' \<and>
    stdout_shown t pa s' \<and> screen_of pa s' = fold screen_put (bytes_at (memory s) base n) (screen_of pa s)"
proof -
  have "get_running_terminal s = Some (Some t)"
    using get_running_terminal_runs_on [of s t] out by (simp add: stdout_shown_def)
  from terminal_write_shown [OF this _ buf(1,2) _ buf(4) far] out buf(3)
  obtain s' where s': "terminal_write buf (int n) s = Some (s', int n)" "prints_only s s'" "within pa s s'"
    "shown_ok (term_id (terminal_at t s)) pa s'"
    "screen_of pa s' = fold screen_put (bytes_at (memory s) base n) (screen_of pa s)"
    by (auto simp: stdout_shown_def)
  have "ece391_write 1 buf (int n) s = terminal_write buf (int n) s"
    using out buf(3,4) by (subst user_calls) (simp_all add: sys_write_def stdout_shown_def)
  with s' stdout_shown_frame [OF out s'(2,4)] show ?thesis by auto
qed

subsection \<open>String literals\<close>

definition text_of :: "string \<Rightarrow> u8 list" where
  "text_of x = map of_char x"

text \<open>The literal is in mapped memory with its NUL, apart from the screen.\<close>

definition literal_ok :: "literals \<Rightarrow> u32 \<Rightarrow> string \<Rightarrow> 'a paging_scheme \<Rightarrow> bool" where
  "literal_ok lit pa x s \<longleftrightarrow> lit x \<noteq> 0 \<and> 0 \<notin> set (text_of x) \<and> length x < 2147483648 \<and>
     (\<exists>base. mapped_at s (lit x) (length x + 1) base \<and> bytes_at (memory s) base (length x + 1) = text_of x @ [0] \<and>
       (\<forall>i\<le>length x. 4000 \<le> unat (base + of_nat i - pa)))"

lemma literal_ok_frame:
  assumes "literal_ok lit pa x s" "translate s' = translate s" "within pa s s'"
  shows "literal_ok lit pa x s'"
proof -
  obtain base where base: "mapped_at s (lit x) (length x + 1) base" "bytes_at (memory s) base (length x + 1) = text_of x @ [0]"
    "\<forall>i\<le>length x. 4000 \<le> unat (base + of_nat i - pa)" using assms(1) by (auto simp: literal_ok_def)
  have "bytes_at (memory s') base (length x + 1) = bytes_at (memory s) base (length x + 1)"
    by (rule bytes_at_cong) (use base(3) assms(3) in \<open>simp add: within_def\<close>)
  then show ?thesis using assms(1,2) base by (auto simp: literal_ok_def mapped_at_def)
qed

lemma literal_string:
  assumes "literal_ok lit pa x s"
  shows "cstr (vmem s) (lit x) (text_of x)" "accessible s (lit x) (length (text_of x) + 1)"
proof -
  obtain base where base: "mapped_at s (lit x) (length x + 1) base" "bytes_at (memory s) base (length x + 1) = text_of x @ [0]"
    using assms by (auto simp: literal_ok_def)
  have at: "vmem s (lit x + of_nat i) = (text_of x @ [0]) ! i" if "i \<le> length x" for i
    
    using vmem_mapped [OF mapped_at_nth [OF base(1), of i]] that nth_bytes_at [of i "length x + 1" "memory s" base, unfolded base(2)]
    by simp
  have len: "length (text_of x) = length x" by (simp add: text_of_def)
  show "cstr (vmem s) (lit x) (text_of x)" unfolding cstr_def
  proof (intro conjI)
    show "bytes_at (vmem s) (lit x) (length (text_of x)) = text_of x"
      by (rule nth_equalityI) (simp_all add: at len nth_append)
  qed (use assms at [of "length x"] len in \<open>auto simp: literal_ok_def nth_append\<close>)
  show "accessible s (lit x) (length (text_of x) + 1)" using accessible_mapped [OF base(1)] len by simp
qed

lemma puts_literal:
  assumes out: "stdout_shown t pa s" and lit: "literal_ok lit pa x s" and "x \<noteq> []"
  shows "\<exists>s'. ece391_fdputs 1 (lit x) s = Some s' \<and> prints_only s s' \<and> within pa s s' \<and> stdout_shown t pa s' \<and>
    screen_of pa s' = fold screen_put (text_of x) (screen_of pa s)"
proof -
  let ?n = "length x"
  obtain base where base: "mapped_at s (lit x) (?n + 1) base" "bytes_at (memory s) base (?n + 1) = text_of x @ [0]"
    "\<forall>i\<le>?n. 4000 \<le> unat (base + of_nat i - pa)" using lit by (auto simp: literal_ok_def)
  have n: "0 < ?n" "?n < 2147483648" "lit x \<noteq> 0" using lit assms(3) by (simp_all add: literal_ok_def)
  have "bytes_at (memory s) base ?n = take ?n (text_of x @ [0])"
    using take_bytes_at [of ?n "?n + 1" "memory s" base] base(2) by simp
  then have bytes: "bytes_at (memory s) base ?n = text_of x" by (simp add: text_of_def)
  have "ece391_strlen (vmem s) (lit x) = Some (of_nat ?n)"
    using ece391_strlen_cstr [OF literal_string(1) [OF lit]] by (simp add: text_of_def)
  moreover have "sint (of_nat ?n :: u32) = int ?n" using n(2) by (subst sint32) simp
  moreover obtain s' where "ece391_write 1 (lit x) (int ?n) s = Some (s', int ?n)" "prints_only s s'" "within pa s s'"
    "stdout_shown t pa s'" "screen_of pa s' = fold screen_put (text_of x) (screen_of pa s)"
    using write_prints [OF out mapped_at_mono [OF base(1)] n] base(3) bytes by auto
  ultimately show ?thesis by (simp add: ece391_fdputs_def)
qed

end
