(* ===== verification/Syserr.thy ===== *)
theory Syserr
  imports Stdout
begin

text \<open>
  The user program \<^verbatim>\<open>syserr\<close>, which tests how the system calls refuse bad arguments. Registers that a call does not set
  hold what the program left there: an argument of \<open>call_sys\<close>.
\<close>

definition NEG_FD :: int where "NEG_FD = - 1073741823"
definition BIG_FD :: int where "BIG_FD = 1073741823"
definition BIG_NUM :: int where "BIG_NUM = 1073741823"
definition NEG_NUM :: int where "NEG_NUM = - 1073741823"

definition call_sys :: "u32 \<times> u32 \<times> u32 \<Rightarrow> int \<Rightarrow> 'a keyboard_scheme \<Rightarrow> ('a keyboard_scheme \<times> int) option" where
  "call_sys regs num = (case regs of (b, c, d) \<Rightarrow> user_call idle_env (of_int num) b c d)"

text \<open>A result other than -1 is reported and remembered.\<close>

definition expect_refusal :: "literals \<Rightarrow> string \<Rightarrow> int \<Rightarrow> 'a keyboard_scheme \<times> int \<Rightarrow> ('a keyboard_scheme \<times> int) option" where
  "expect_refusal lit msg fail r =
     (if snd r \<noteq> - 1 then map_option (\<lambda>s. (s, 2)) (ece391_fdputs 1 (lit (nl msg)) (fst r)) else Some (fst r, fail))"

definition verdict :: "literals \<Rightarrow> string \<Rightarrow> int \<Rightarrow> 'a keyboard_scheme \<Rightarrow> ('a keyboard_scheme \<times> int) option" where
  "verdict lit name fail s =
     map_option (\<lambda>s. (s, fail)) (ece391_fdputs 1 (lit (nl (name @ (if fail \<noteq> 0 then '': FAIL'' else '': PASS'')))) s)"

definition err_fd :: "literals \<Rightarrow> user_env \<Rightarrow> u32 \<Rightarrow> string \<Rightarrow> int \<Rightarrow> 'a keyboard_scheme \<Rightarrow> ('a keyboard_scheme \<times> int) option" where
  "err_fd lit env buf name fd s =
     Option.bind (ece391_read (env 0) fd buf 31 s) (\<lambda>r.
     Option.bind (expect_refusal lit ''read fail'' 0 r) (\<lambda>(s, fail).
     Option.bind (ece391_write fd buf 31 s) (\<lambda>r.
     Option.bind (expect_refusal lit ''write fail'' fail r) (\<lambda>(s, fail).
     Option.bind (ece391_close fd s) (\<lambda>r.
     Option.bind (expect_refusal lit ''close fail'' fail r) (\<lambda>(s, fail).
       verdict lit name fail s))))))"

definition err_neg_fd :: "literals \<Rightarrow> user_env \<Rightarrow> u32 \<Rightarrow> 'a keyboard_scheme \<Rightarrow> ('a keyboard_scheme \<times> int) option" where
  "err_neg_fd lit env buf = err_fd lit env buf ''err_neg_fd'' NEG_FD"

definition err_big_fd :: "literals \<Rightarrow> user_env \<Rightarrow> u32 \<Rightarrow> 'a keyboard_scheme \<Rightarrow> ('a keyboard_scheme \<times> int) option" where
  "err_big_fd lit env buf = err_fd lit env buf ''err_big_fd'' BIG_FD"

text \<open>Opening \<open>n\<close> times and counting the refusals; closing the descriptors of a list.\<close>

primrec open_lots :: "literals \<Rightarrow> nat \<Rightarrow> int \<Rightarrow> 'a keyboard_scheme \<Rightarrow> ('a keyboard_scheme \<times> int) option" where
  "open_lots lit 0 cnt s = Some (s, cnt)"
| "open_lots lit (Suc n) cnt s =
     Option.bind (ece391_open (lit ''.'') s) (\<lambda>(s, r). open_lots lit n (if r = - 1 then cnt + 1 else cnt) s)"

fun close_fds :: "int list \<Rightarrow> 'a keyboard_scheme \<Rightarrow> 'a keyboard_scheme option" where
  "close_fds [] s = Some s"
| "close_fds (i # is) s = Option.bind (ece391_close i s) (\<lambda>(s, r). close_fds is s)"

definition err_open_lots :: "literals \<Rightarrow> 'a keyboard_scheme \<Rightarrow> ('a keyboard_scheme \<times> int) option" where
  "err_open_lots lit s =
     Option.bind (open_lots lit 7 0 s) (\<lambda>(s, cnt).
     Option.bind (close_fds [2..7] s) (\<lambda>s.
       verdict lit ''err_open_lots'' (if cnt = 1 then 0 else 2) s))"

definition err_open :: "literals \<Rightarrow> 'a keyboard_scheme \<Rightarrow> ('a keyboard_scheme \<times> int) option" where
  "err_open lit s =
     Option.bind (ece391_open (lit ''helloo'') s) (\<lambda>r.
     Option.bind (expect_refusal lit (CHR 0x27 # ''helloo' fail'') 0 r) (\<lambda>(s, fail).
     Option.bind (ece391_open (lit ''shel'') s) (\<lambda>r.
     Option.bind (expect_refusal lit (CHR 0x27 # ''shel' fail'') fail r) (\<lambda>(s, fail).
     Option.bind (ece391_open (lit []) s) (\<lambda>r.
     Option.bind (expect_refusal lit ''empty string fail'' fail r) (\<lambda>(s, fail).
       verdict lit ''err_open'' fail s))))))"

fun expect_all ::
  "literals \<Rightarrow> string \<Rightarrow> (int \<Rightarrow> 'a keyboard_scheme \<Rightarrow> ('a keyboard_scheme \<times> int) option) \<Rightarrow> int list \<Rightarrow> int \<Rightarrow>
    'a keyboard_scheme \<Rightarrow> ('a keyboard_scheme \<times> int) option"
where
  "expect_all lit msg call [] fail s = Some (s, fail)"
| "expect_all lit msg call (i # is) fail s =
     Option.bind (call i s) (\<lambda>r.
     Option.bind (expect_refusal lit msg fail r) (\<lambda>(s, fail). expect_all lit msg call is fail s))"

definition err_unopened :: "literals \<Rightarrow> user_env \<Rightarrow> u32 \<Rightarrow> 'a keyboard_scheme \<Rightarrow> ('a keyboard_scheme \<times> int) option" where
  "err_unopened lit env buf s =
     Option.bind (expect_all lit ''close unopened or invalid fd fail'' ece391_close [0..7] 0 s) (\<lambda>(s, fail).
     Option.bind (expect_all lit ''read from unopened fd fail'' (\<lambda>i. ece391_read (env (nat i)) i buf 31) [2..7] fail s) (\<lambda>(s, fail).
     Option.bind (expect_all lit ''write to unopened fd fail'' (\<lambda>i. ece391_write i buf 31) [2..7] fail s) (\<lambda>(s, fail).
       verdict lit ''err_unopened'' fail s)))"

definition err_vidmap :: "literals \<Rightarrow> 'a keyboard_scheme \<Rightarrow> ('a keyboard_scheme \<times> int) option" where
  "err_vidmap lit s =
     Option.bind (ece391_vidmap 0 s) (\<lambda>r.
     Option.bind (expect_refusal lit ''Null pointer fail'' 0 r) (\<lambda>(s, fail).
     Option.bind (ece391_vidmap 0x400000 s) (\<lambda>r.
     Option.bind (expect_refusal lit ''Kernel pointer fail fail'' fail r) (\<lambda>(s, fail).
       verdict lit ''err_vidmap'' fail s))))"

definition err_stdin_out :: "literals \<Rightarrow> user_env \<Rightarrow> u32 \<Rightarrow> 'a keyboard_scheme \<Rightarrow> ('a keyboard_scheme \<times> int) option" where
  "err_stdin_out lit env buf s =
     Option.bind (ece391_write 0 buf 31 s) (\<lambda>r.
     Option.bind (expect_refusal lit ''write to stdin fail'' 0 r) (\<lambda>(s, fail).
     Option.bind (ece391_read (env 0) 1 buf 31 s) (\<lambda>r.
     Option.bind (expect_refusal lit ''read from stdout fail'' fail r) (\<lambda>(s, fail).
       verdict lit ''err_stdin_out'' fail s))))"

definition err_syscall_num :: "literals \<Rightarrow> u32 \<times> u32 \<times> u32 \<Rightarrow> 'a keyboard_scheme \<Rightarrow> ('a keyboard_scheme \<times> int) option" where
  "err_syscall_num lit regs s =
     Option.bind (call_sys regs BIG_NUM s) (\<lambda>r.
     Option.bind (expect_refusal lit ''syscall 0 fail'' 0 r) (\<lambda>(s, fail).
     Option.bind (call_sys regs NEG_NUM s) (\<lambda>r.
     Option.bind (expect_refusal lit ''big num syscall fail'' fail r) (\<lambda>(s, fail).
     Option.bind (call_sys regs 0 s) (\<lambda>r.
     Option.bind (expect_refusal lit ''neg num syscall fail'' fail r) (\<lambda>(s, fail).
       verdict lit ''err_syscall_num'' fail s))))))"

text \<open>The eight tests by number; \<open>envs\<close> is what the reads of each meet.\<close>

definition syserr_test ::
  "literals \<Rightarrow> (nat \<Rightarrow> user_env) \<Rightarrow> u32 \<Rightarrow> u32 \<times> u32 \<times> u32 \<Rightarrow> nat \<Rightarrow> 'a keyboard_scheme \<Rightarrow> ('a keyboard_scheme \<times> int) option"
where
  "syserr_test lit envs buf regs n =
     (if n = 1 then err_neg_fd lit (envs 1) buf else if n = 2 then err_big_fd lit (envs 2) buf
      else if n = 3 then err_open_lots lit else if n = 4 then err_open lit
      else if n = 5 then err_unopened lit (envs 5) buf else if n = 6 then err_vidmap lit
      else if n = 7 then err_stdin_out lit (envs 7) buf else err_syscall_num lit regs)"

fun syserr_tests ::
  "literals \<Rightarrow> (nat \<Rightarrow> user_env) \<Rightarrow> u32 \<Rightarrow> u32 \<times> u32 \<times> u32 \<Rightarrow> nat list \<Rightarrow> int \<Rightarrow> 'a keyboard_scheme \<Rightarrow>
    ('a keyboard_scheme \<times> int) option"
where
  "syserr_tests lit envs buf regs [] fail s = Some (s, fail)"
| "syserr_tests lit envs buf regs (n # ns) fail s =
     Option.bind (syserr_test lit envs buf regs n s) (\<lambda>(s, r). syserr_tests lit envs buf regs ns (fail + r) s)"

definition overall :: "int \<Rightarrow> string" where
  "overall fail = CHR 0x0A # nl (if fail \<noteq> 0 then ''Overall Tests: FAIL'' else ''Overall Tests: PASS'')"

text \<open>The switch of \<^verbatim>\<open>main\<close> on the digit that was typed.\<close>

definition syserr_select ::
  "literals \<Rightarrow> (nat \<Rightarrow> user_env) \<Rightarrow> u32 \<Rightarrow> u32 \<times> u32 \<times> u32 \<Rightarrow> int \<Rightarrow> 'a keyboard_scheme \<Rightarrow> ('a keyboard_scheme \<times> int) option"
where
  "syserr_select lit envs buf regs select s =
     (if select = 0 then
        Option.bind (syserr_tests lit envs buf regs [1, 2, 3, 4, 5, 6, 7, 8] 0 s) (\<lambda>(s, fail).
          map_option (\<lambda>s. (s, fail)) (ece391_fdputs 1 (lit (overall fail)) s))
      else if 1 \<le> select \<and> select \<le> 8 then syserr_test lit envs buf regs (nat select) s
      else fail_with (lit ''Invalid test number. Choose from tests 1-8 or 0'') 0 s)"

definition syserr_main ::
  "literals \<Rightarrow> read_env \<Rightarrow> (nat \<Rightarrow> user_env) \<Rightarrow> u32 \<Rightarrow> u32 \<Rightarrow> u32 \<times> u32 \<times> u32 \<Rightarrow> 'a keyboard_scheme \<Rightarrow>
    ('a keyboard_scheme \<times> int) option"
where
  "syserr_main lit env envs buf tbuf regs s =
     Option.bind (ece391_fdputs 1 (lit ''Choose from tests 1-8. 0 to run all: '') s) (\<lambda>s.
     Option.bind (ece391_read env 0 buf 127 s) (\<lambda>(s, cnt).
       if cnt = - 1 then fail_with (lit (nl ''Can't read test #'')) 2 s
       else Option.bind (fetch buf s) (\<lambda>c. syserr_select lit envs tbuf regs (uint c - 0x30) s)))"

end
