(* ===== verification/Cat.thy ===== *)
theory Cat
  imports Stdout
begin

text \<open>
  The user program \<^verbatim>\<open>cat\<close> from its argument to the screen: a theorem that runs
  through \<^verbatim>\<open>getargs\<close>, \<^verbatim>\<open>open\<close>, the file system's reads and the
  terminal's output. The invariant of its loop is \<open>cat_ready\<close>; the frame facts say that
  printing leaves the file's image alone and reading leaves the screen alone.
\<close>

subsection \<open>\<^verbatim>\<open>cat\<close> shows a file\<close>

definition clear_of_screen :: "u32 \<Rightarrow> u32 \<Rightarrow> 'a fs_scheme \<Rightarrow> bool" where
  "clear_of_screen i pa s \<longleftrightarrow>
     (\<forall>a\<in>image_part (vmem s) (bootblk s) i. \<forall>q. translate s a = Some q \<longrightarrow> 4000 \<le> unat (q - pa))"

lemma printing_keeps_image:
  assumes "clear_of_screen i pa s" "prints_only s s'" "within pa s s'"
  shows "agree (vmem s) (vmem s') (bootblk s) i"
  unfolding agree_def
proof
  fix a assume "a \<in> image_part (vmem s) (bootblk s) i"
  then show "vmem s' a = vmem s a"
    using assms prints_only_translate [OF assms(2)]
    by (auto simp: vmem_def clear_of_screen_def within_def split: option.splits)
qed

lemma file_ready_frame:
  assumes ready: "file_ready fd buf limit pb s" and agree: "agree (vmem s) (vmem s') (bootblk s) (fd_inode fd s)"
    and same: "translate s' = translate s" "bootblk s' = bootblk s" "get_current_pcb s' = get_current_pcb s"
  shows "file_ready fd buf limit pb s'" "fd_content fd s' = fd_content fd s" "fd_pos fd s' = fd_pos fd s"
    "image_part (vmem s') (bootblk s') (fd_inode fd s') = image_part (vmem s) (bootblk s) (fd_inode fd s)"
proof -
  have valid: "blocks_valid (vmem s) (bootblk s) (fd_inode fd s) (unat (inode_size (vmem s) (bootblk s) (fd_inode fd s)))"
    using ready by (simp add: file_ready_def Let_def)
  note facts = agree_counts [OF agree] agree_image [OF agree valid]
  have inode: "fd_inode fd s' = fd_inode fd s" "fd_pos fd s' = fd_pos fd s" by (simp_all add: fd_inode_def fd_pos_def same)
  then show "fd_content fd s' = fd_content fd s" "fd_pos fd s' = fd_pos fd s"
    "image_part (vmem s') (bootblk s') (fd_inode fd s') = image_part (vmem s) (bootblk s) (fd_inode fd s)"
    by (simp_all add: fd_content_def same facts)
  show "file_ready fd buf limit pb s'"
    using ready facts(7) [of "unat (inode_size (vmem s) (bootblk s) (fd_inode fd s))"] facts(5) inode
    by (simp add: file_ready_def Let_def same facts mapped_at_def clear_of_image_def)
qed


text \<open>
  What the loop of \<^verbatim>\<open>cat\<close> relies on: an open file, its buffer, and the screen, all
  apart from each other.
\<close>

definition cat_ready :: "nat \<Rightarrow> nat \<Rightarrow> u32 \<Rightarrow> u32 \<Rightarrow> u32 \<Rightarrow> 'a keyboard_scheme \<Rightarrow> bool" where
  "cat_ready t fd buf pb pa s \<longleftrightarrow>
     file_ready fd buf 1024 pb s \<and> 2 \<le> fd \<and> fd < 8 \<and> jumptable (fd_at fd s) = Some Fs_fops \<and>
     stdout_shown t pa s \<and> clear_of_screen (fd_inode fd s) pa s \<and>
     (\<forall>i<1024. 4000 \<le> unat (pb + of_nat i - pa)) \<and> (\<forall>i<4000. 1024 \<le> unat (pa + of_nat i - pb))"

lemma screen_of_write:
  assumes "\<forall>i<4000. 1024 \<le> unat (pa + of_nat i - pb)" "length bs \<le> 1024" "memory s' = write_bytes (memory s) pb bs"
    and "screen_x s' = screen_x s" "screen_y s' = screen_y s"
  shows "screen_of pa s' = screen_of pa s"
proof -
  have "memory s' (pa + of_nat i) = memory s (pa + of_nat i)" if "i < 4000" for i
    unfolding assms(3) by (rule write_bytes_out) (use assms(1,2) that in \<open>auto intro: order_trans\<close>)
  then have "cells_of (memory s') pa = cells_of (memory s) pa"
    unfolding cells_of_def by (intro map_cong) (auto simp del: of_nat_mult of_nat_add of_nat_Suc)
  then show ?thesis by (simp add: screen_of_def assms)
qed

text \<open>One call of \<^verbatim>\<open>read\<close> in the loop.\<close>

lemma cat_read:
  assumes ready: "cat_ready t fd buf pb pa s" and bs: "bs = take 1024 (drop (fd_pos fd s) (fd_content fd s))"
  shows "\<exists>s'. ece391_read env (int fd) buf 1024 s = Some (s', int (length bs)) \<and> cat_ready t fd buf pb pa s' \<and>
    fd_content fd s' = fd_content fd s \<and> fd_pos fd s' = fd_pos fd s + length bs \<and>
    bytes_at (memory s') pb (length bs) = bs \<and> screen_of pa s' = screen_of pa s"
proof -
  note r = ready [unfolded cat_ready_def]
  let ?t = "sti s"
  have same: "translate ?t = translate s" "vmem ?t = vmem s"
    by (rule translate_cong vmem_cong; simp add: same_tables_def sti_def)+
  have fields: "bootblk ?t = bootblk s" "get_current_pcb ?t = get_current_pcb s" "memory ?t = memory s"
    by (simp_all add: sti_def get_current_pcb_def)
  have self: "agree (vmem s) (vmem ?t) (bootblk s) (fd_inode fd s)" by (simp add: agree_def same)
  have ready_t: "file_ready fd buf 1024 pb ?t" using file_ready_frame(1) [OF _ self same(1) fields(1,2)] r by blast
  have bs_t: "bs = take 1024 (drop (fd_pos fd ?t) (fd_content fd ?t))"
    using file_ready_frame(2,3) [OF _ self same(1) fields(1,2)] r bs by metis
  define s' where "s' = update_fd fd (\<lambda>f. f\<lparr>file_position := file_position f + of_nat (length bs)\<rparr>)
      (?t\<lparr>memory := write_bytes (memory ?t) pb bs\<rparr>)"
  note step = file_ready_step [OF ready_t bs_t order_refl s'_def]
  have usable: "fd_usable (int fd) s" using r by (simp add: fd_usable_at file_ready_def Let_def fd_at_def)
  have "file_read fd buf (of_nat 1024) ?t = Some (s', int (length bs))"
    using file_read_step [OF ready_t, of 1024] bs_t by (simp add: s'_def)
  then have "sys_read env (int fd) buf 1024 s = Some (s', int (length bs))"
    using r usable by (simp add: sys_read_def file_ready_def Let_def)
  then have read: "ece391_read env (int fd) buf 1024 s = Some (s', int (length bs))" using r by (subst user_calls) simp_all
  have "length bs \<le> 1024" by (simp add: bs)
  then have screen: "screen_of pa s' = screen_of pa s"
    using r by (intro screen_of_write [of pa pb bs]) (simp_all add: s'_def update_fd_def update_pcb_def sti_def)
  have tr: "translate s' = translate s" using same(1) by (simp add: s'_def)
  have view: "translate s' = translate s" "bootblk s' = bootblk s" "terminals s' = terminals s"
    "current_terminal s' = current_terminal s" "screen_x s' = screen_x s" "screen_y s' = screen_y s"
    "running_pid s' = running_pid s"
    by (rule tr) (simp_all add: s'_def update_fd_def update_pcb_def sti_def)
  have at: "fd_at i s' = (if i = fd then (fd_at fd s)\<lparr>file_position := file_position (fd_at fd s) + of_nat (length bs)\<rparr> else fd_at i s)"
    for i
  proof -
    let ?x = "?t\<lparr>memory := write_bytes (memory ?t) pb bs\<rparr>"
    have x: "fd_at j ?x = fd_at j s" for j by (rule fd_at_cong) (simp_all add: sti_def)
    have "fd < length (fds (get_current_pcb ?x))" using r by (simp add: file_ready_def Let_def get_current_pcb_def sti_def)
    then show ?thesis by (simp only: s'_def fd_at_update x)
  qed
  have inode: "fd_inode fd s' = fd_inode fd s" using at [of fd] by (simp add: fd_inode_def fd_at_def)
  have "same_links s s'" by (simp add: s'_def same_links_def update_fd_def update_pcb_def sti_def)
  then have "stdout_shown t pa s'" using r view at [of 1] by (intro stdout_shown_cong [of t pa s s']) simp_all
  moreover have "image_part (vmem s') (bootblk s') (fd_inode fd s') = image_part (vmem s) (bootblk s) (fd_inode fd s)"
  proof -
    have "clear_of_image ?t (fd_inode fd s) 1024 pb"
      using ready_t by (simp add: file_ready_def Let_def fd_inode_def fields)
    from clear_agree [OF this \<open>length bs \<le> 1024\<close>]
    have "agree (vmem s) (vmem s') (bootblk s) (fd_inode fd s)" by (simp add: same fields s'_def)
    from agree_image(1) [OF this] r show ?thesis by (simp add: inode view file_ready_def Let_def)
  qed
  then have "clear_of_screen (fd_inode fd s') pa s'" using r by (simp add: clear_of_screen_def view)
  ultimately have "cat_ready t fd buf pb pa s'" using r step(1) at [of fd] by (simp add: cat_ready_def)
  moreover have "bytes_at (memory s') pb (length bs) = bs"
    using \<open>length bs \<le> 1024\<close> by (simp add: s'_def bytes_at_write_bytes)
  moreover have "fd_content fd s' = fd_content fd s" "fd_pos fd s' = fd_pos fd s + length bs"
    using step(2,3) file_ready_frame(2,3) [OF _ self same(1) fields(1,2)] r by (metis, metis)
  ultimately show ?thesis using read screen by blast
qed

text \<open>One call of \<^verbatim>\<open>write\<close> in the loop.\<close>

lemma cat_write:
  assumes ready: "cat_ready t fd buf pb pa s" and n: "0 < n" "n \<le> 1024"
  shows "\<exists>s'. ece391_write 1 buf (int n) s = Some (s', int n) \<and> cat_ready t fd buf pb pa s' \<and>
    fd_content fd s' = fd_content fd s \<and> fd_pos fd s' = fd_pos fd s \<and>
    screen_of pa s' = fold screen_put (bytes_at (memory s) pb n) (screen_of pa s)"
proof -
  note r = ready [unfolded cat_ready_def]
  have "mapped_at s buf n pb" "buf \<noteq> 0" using r n mapped_at_mono [of s buf 1024 pb n] by (simp_all add: file_ready_def Let_def)
  with r n obtain s' where s': "ece391_write 1 buf (int n) s = Some (s', int n)" "prints_only s s'" "within pa s s'"
    "stdout_shown t pa s'" "screen_of pa s' = fold screen_put (bytes_at (memory s) pb n) (screen_of pa s)"
    using write_prints [of t pa s buf n pb] by auto
  have same: "translate s' = translate s" "bootblk s' = bootblk s" "pcbs s' = pcbs s" "running_pid s' = running_pid s"
    using prints_only_translate [OF s'(2)] s'(2) by (simp_all add: prints_only_def)
  then have pcb: "get_current_pcb s' = get_current_pcb s" "fd_at fd s' = fd_at fd s" "fd_inode fd s' = fd_inode fd s"
    by (simp_all add: get_current_pcb_def fd_at_def fd_inode_def)
  have "agree (vmem s) (vmem s') (bootblk s) (fd_inode fd s)" using printing_keeps_image [OF _ s'(2,3)] r by blast
  note frame = file_ready_frame [OF _ this same(1,2) pcb(1)]
  have "clear_of_screen (fd_inode fd s') pa s'"
    using r frame(4) [of buf 1024 pb] by (simp add: clear_of_screen_def same pcb)
  then have "cat_ready t fd buf pb pa s'"
    using r frame(1) [of buf 1024 pb] s'(4) by (simp add: cat_ready_def pcb)
  with s' frame(2,3) r show ?thesis by blast
qed

lemma take_drop_length: "take n xs @ drop (length (take n xs)) xs = xs"
  by (cases "n \<le> length xs") simp_all

lemma cat_loop_shows:
  assumes "cat_ready t fd buf pb pa s"
  shows "\<exists>s'. cat_loop lit env (int fd) buf s = Some (s', 0) \<and> cat_ready t fd buf pb pa s' \<and>
    screen_of pa s' = fold screen_put (drop (fd_pos fd s) (fd_content fd s)) (screen_of pa s)"
  using assms
proof (induction "length (fd_content fd s) - fd_pos fd s" arbitrary: s env rule: less_induct)
  case less
  let ?bs = "take 1024 (drop (fd_pos fd s) (fd_content fd s))"
  obtain s1 where s1: "ece391_read (env 0) (int fd) buf 1024 s = Some (s1, int (length ?bs))" "cat_ready t fd buf pb pa s1"
    "fd_content fd s1 = fd_content fd s" "fd_pos fd s1 = fd_pos fd s + length ?bs"
    "bytes_at (memory s1) pb (length ?bs) = ?bs" "screen_of pa s1 = screen_of pa s"
    using cat_read [OF less.prems refl] by blast
  show ?case
  proof (cases "?bs = []")
    case True
    then have "drop (fd_pos fd s) (fd_content fd s) = []" by simp
    with True s1 show ?thesis by (subst cat_loop.simps) simp
  next
    case False
    then have n: "0 < length ?bs" "length ?bs \<le> 1024" by auto
    obtain s2 where s2: "ece391_write 1 buf (int (length ?bs)) s1 = Some (s2, int (length ?bs))" "cat_ready t fd buf pb pa s2"
      "fd_content fd s2 = fd_content fd s1" "fd_pos fd s2 = fd_pos fd s1"
      "screen_of pa s2 = fold screen_put ?bs (screen_of pa s)"
      using cat_write [OF s1(2) n] s1(5,6) by auto
    have "length (fd_content fd s2) - fd_pos fd s2 < length (fd_content fd s) - fd_pos fd s"
      using n s1 s2 by auto
    from less.hyps [OF this s2(2), of "later env"] obtain s' where
      s': "cat_loop lit (later env) (int fd) buf s2 = Some (s', 0)" "cat_ready t fd buf pb pa s'"
      "screen_of pa s' = fold screen_put (drop (fd_pos fd s2) (fd_content fd s2)) (screen_of pa s2)" by blast
    have "?bs @ drop (fd_pos fd s2) (fd_content fd s2) = drop (fd_pos fd s) (fd_content fd s)"
      using take_drop_length [of 1024 "drop (fd_pos fd s) (fd_content fd s)"] by (simp add: s1(3,4) s2(3,4) add.commute)
    moreover have "screen_of pa s' = fold screen_put (?bs @ drop (fd_pos fd s2) (fd_content fd s2)) (screen_of pa s)"
      unfolding s'(3) s2(5) fold_append comp_apply ..
    moreover have "cat_loop lit env (int fd) buf s = cat_loop lit (later env) (int fd) buf s2"
      using s1(1) s2(1) n by (subst cat_loop.simps) (auto simp: min_def split: if_splits)
    ultimately show ?thesis using s'(1,2) by metis
  qed
qed

text \<open>
  The machine that \<^verbatim>\<open>execute\<close> leaves for \<^verbatim>\<open>cat\<close> with the name of a
  regular file as its argument: the file's blocks exist, the buffer of \<^verbatim>\<open>main\<close> is mapped away
  from the boot block, the file and the screen, and the file is small enough for the check that
  \<^verbatim>\<open>read_data\<close> makes.
\<close>

definition cat_start :: "nat \<Rightarrow> u8 list \<Rightarrow> dentry \<Rightarrow> u32 \<Rightarrow> u32 \<Rightarrow> u32 \<Rightarrow> 'a keyboard_scheme \<Rightarrow> bool" where
  "cat_start t name d buf pb pa s \<longleftrightarrow>
     (\<exists>prog. raw_argv (get_current_pcb s) = command_buffer prog name \<and>
       argv1 (get_current_pcb s) = Some (length prog + 1) \<and> length prog + length name \<le> 126) \<and>
     0 \<notin> set name \<and> name \<noteq> [] \<and> length name \<le> 32 \<and>
     List.find (\<lambda>d. entry_name d = name) (dentries s) = Some d \<and> filetype d = FT_REG \<and>
     (let m = vmem s; bb = bootblk s; i = inode_idx d; sz = unat (inode_size m bb i) in
      i < inode_cnt m bb \<and> unat (direntry_cnt m bb) < 63 \<and> sz + 1024 < unat (direntry_cnt m bb) * 4096 \<and>
      blocks_valid m bb i sz \<and> clear_of_image s i 1024 pb \<and> clear_of_screen i pa s) \<and>
     (\<forall>a q. unat (a - bootblk s) < 4096 \<longrightarrow> translate s a = Some q \<longrightarrow> 1024 \<le> unat (q - pb)) \<and>
     buf \<noteq> 0 \<and> mapped_at s buf 1024 pb \<and>
     (\<forall>i<1024. 4000 \<le> unat (pb + of_nat i - pa)) \<and> (\<forall>i<4000. 1024 \<le> unat (pa + of_nat i - pb)) \<and>
     length (fds (get_current_pcb s)) = 8 \<and> stdout_shown t pa s"

lemma opened_state_simps [simp]:
  "memory (opened_state fd d s) = memory s" "translate (opened_state fd d s) = translate s"
  "vmem (opened_state fd d s) = vmem s" "running_pid (opened_state fd d s) = running_pid s"
  by (simp_all add: opened_state_def)

lemma opened_state_frame:
  "bootblk (opened_state fd d s) = bootblk s" "terminals (opened_state fd d s) = terminals s"
  "current_terminal (opened_state fd d s) = current_terminal s" "screen_x (opened_state fd d s) = screen_x s"
  "screen_y (opened_state fd d s) = screen_y s" "same_links s (opened_state fd d s)"
  by (simp_all add: opened_state_def update_fd_def update_pcb_def same_links_def)

lemma fd_at_opened:
  "fd < length (fds (get_current_pcb s)) \<Longrightarrow> fd_at i (opened_state fd d s) =
    (if i = fd then \<lparr>jumptable = Some Fs_fops, inode = inode_idx d, file_position = 0, flags = FD_IN_USE\<rparr> else fd_at i s)"
  by (simp add: opened_state_def fd_at_update)


text \<open>The argument is handed out and the file is opened.\<close>

lemma cat_opens:
  assumes start: "cat_start t name d buf pb pa s" and free: "next_fd s = Some fd"
  shows "\<exists>s1 s2. ece391_getargs buf 1024 s = Some (s1, 0) \<and>
    ece391_open buf s1 = Some (s2, int fd) \<and> cat_ready t fd buf pb pa s2 \<and>
    fd_pos fd s2 = 0 \<and> fd_content fd s2 = file_content (vmem s) (bootblk s) (inode_idx d) \<and>
    screen_of pa s2 = screen_of pa s"
proof -
  note c = start [unfolded cat_start_def Let_def]
  let ?i = "inode_idx d" and ?s1 = "s\<lparr>memory := write_bytes (memory s) pb (name @ [0])\<rparr>"
  obtain prog where prog: "raw_argv (get_current_pcb s) = command_buffer prog name"
    "argv1 (get_current_pcb s) = Some (length prog + 1)" "length prog + length name \<le> 126" using c by blast
  have len: "length (name @ [0]) \<le> 1024" "length name + 1 < 1024" using c by simp_all
  have map: "mapped_at s buf (length name + 1) pb" using c len mapped_at_mono [of s buf 1024 pb "length name + 1"] by simp
  have take: "take 1024 (name @ [0]) = name @ [0]" using len(1) by (rule take_all)
  have min: "min (length name + 1) 1024 = length name + 1" using len(2) by simp
  have args: "ece391_getargs buf 1024 s = Some (?s1, 0)"
    using getargs_command [OF prog(1,2) _ prog(3), of buf 1024 pb] c map unfolding take min
    by (subst user_getargs) simp_all
  have pcb: "get_current_pcb ?s1 = get_current_pcb s" "next_fd ?s1 = next_fd s" "fd_at i ?s1 = fd_at i s" for i
    by (simp_all add: get_current_pcb_def next_fd_def fd_at_def)
  have agree: "agree (vmem s) (vmem ?s1) (bootblk s) ?i" by (rule clear_agree [of s ?i 1024]) (use c len in auto)
  have boot: "vmem ?s1 a = vmem s a" if "unat (a - bootblk s) < 4096" for a
    by (rule vmem_write_outside) (use c len(2) that in fastforce)
  have entries: "dentries ?s1 = dentries s" by (rule dentries_frame) (simp_all add: boot)
  have "bytes_at (vmem ?s1) buf (length (name @ [0])) = name @ [0]"
    using map len by (intro bytes_at_vmem_write) simp_all
  then have bytes: "vmem ?s1 (buf + of_nat j) = (name @ [0]) ! j" if "j \<le> length name" for j
    using nth_bytes_at [of j "length (name @ [0])" "vmem ?s1" buf] that by simp
  have name: "cstr (vmem ?s1) buf name"
    unfolding cstr_def
  proof (intro conjI)
    show "bytes_at (vmem ?s1) buf (length name) = name"
      by (rule nth_equalityI) (simp_all add: bytes nth_append)
  qed (use c bytes [of "length name"] in auto)
  have acc: "accessible ?s1 buf (length name + 1)" using map by (intro accessible_mapped [of _ _ _ pb]) simp
  let ?s2 = "opened_state fd d ?s1"
  have fd: "2 \<le> fd" "fd < 8" using next_fd_Some [OF free] by simp_all
  have "sys_open buf ?s1 = Some (?s2, int fd)"
    by (rule sys_open_regular_state [OF name acc]) (use c free pcb(2) entries in auto)
  then have "open": "ece391_open buf ?s1 = Some (?s2, int fd)" by (simp add: user_open)
  have at: "fd_at j ?s2 = (if j = fd then \<lparr>jumptable = Some Fs_fops, inode = ?i, file_position = 0, flags = FD_IN_USE\<rparr>
      else fd_at j s)" for j
    using fd_at_opened [of fd ?s1 j d] c fd pcb by simp
  have inode: "fd_inode fd ?s2 = ?i" and pos: "fd_pos fd ?s2 = 0" using at [of fd] by (simp_all add: fd_inode_def fd_pos_def fd_at_def)
  have len2: "length (fds (get_current_pcb ?s2)) = 8" using c pcb(1) by (simp add: opened_state_def)
  have valid: "blocks_valid (vmem s) (bootblk s) ?i (unat (inode_size (vmem s) (bootblk s) ?i))" using c by blast
  note same = agree_counts [OF agree] agree_image(1,2) [OF agree valid]
    agree_image(3) [OF agree valid, of "unat (inode_size (vmem s) (bootblk s) ?i)"]
  have bb: "bootblk ?s2 = bootblk s" by (simp add: opened_state_frame)
  have "file_ready fd buf 1024 pb ?s2"
    using c fd same len2 at [of fd]
    by (simp add: file_ready_def Let_def inode pos bb mapped_at_def clear_of_image_def) (simp add: fd_at_def)
  moreover have "stdout_shown t pa ?s2"
    by (rule stdout_shown_cong [of t pa s])
      (use c fd at [of 1] opened_state_frame [where fd = fd and d = d and s = ?s1] in \<open>simp_all add: same_links_def\<close>)
  moreover have "clear_of_screen (fd_inode fd ?s2) pa ?s2"
    using c same by (simp add: clear_of_screen_def inode bb)
  ultimately have "cat_ready t fd buf pb pa ?s2" using c fd at [of fd] by (simp add: cat_ready_def)
  moreover have "fd_content fd ?s2 = file_content (vmem s) (bootblk s) ?i" using same by (simp add: fd_content_def inode bb)
  moreover have "screen_of pa ?s2 = screen_of pa s"
    by (rule screen_of_write [of pa pb "name @ [0]"]) (use c len in \<open>auto simp: opened_state_frame\<close>)
  ultimately show ?thesis using args "open" pos by blast
qed

subsection \<open>Properties\<close>

text \<open>
  C4: \<^verbatim>\<open>cat\<close> with the name of a file puts the whole file, byte by byte and in order,
  on the screen and returns 0: the argument that \<^verbatim>\<open>execute\<close> parsed, the directory
  search, the reads of the file system and the writes of the terminal compose. It needs a free
  descriptor.
\<close>

theorem cat_shows_file:
  assumes "cat_start t name d buf pb pa s" "next_fd s = Some fd"
  shows "\<exists>s'. cat_main lit env buf s = Some (s', 0) \<and>
    screen_of pa s' = fold screen_put (file_content (vmem s) (bootblk s) (inode_idx d)) (screen_of pa s)"
proof -
  obtain s1 s2 where opened: "ece391_getargs buf 1024 s = Some (s1, 0)" "ece391_open buf s1 = Some (s2, int fd)"
    "cat_ready t fd buf pb pa s2" "fd_pos fd s2 = 0"
    "fd_content fd s2 = file_content (vmem s) (bootblk s) (inode_idx d)" "screen_of pa s2 = screen_of pa s"
    using cat_opens [OF assms] by auto
  obtain s' where "cat_loop lit env (int fd) buf s2 = Some (s', 0)"
    "screen_of pa s' = fold screen_put (drop (fd_pos fd s2) (fd_content fd s2)) (screen_of pa s2)"
    using cat_loop_shows [OF opened(3)] by blast
  with opened show ?thesis by (simp add: cat_main_def)
qed

subsection \<open>A program to run\<close>

text \<open>The running process was started as \<^verbatim>\<open>c f\<close>; its buffer is at 0x500000.\<close>

definition demo_cat :: keyboard where
  "demo_cat = (demo_keyboard [])\<lparr>pcbs := (pcbs demo_proc)
     (2 := (pcbs demo_proc 2)\<lparr>raw_argv := command_buffer [0x63] [0x66], argv1 := Some 2\<rparr>)\<rparr>"

lemma demo_cat_fields [simp]:
  "running_pid demo_cat = 2" "memory demo_cat = demo_image" "bootblk demo_cat = 0x440000"
  "raw_argv (get_current_pcb demo_cat) = command_buffer [0x63] [0x66]" "argv1 (get_current_pcb demo_cat) = Some 2"
  "length (fds (get_current_pcb demo_cat)) = 8"
  by (simp_all add: demo_cat_def get_current_pcb_def demo_proc_def) (simp add: demo_keyboard_def terms.extend_def)

lemma demo_cat_tables: "same_tables demo_cat demo"
  using demo_terms_tables by (simp add: same_tables_def demo_cat_def demo_keyboard_def terms.extend_def)

lemma demo_cat_view: "translate demo_cat = translate demo" "vmem demo_cat = vmem demo"
  by (rule translate_cong vmem_cong; simp add: demo_cat_tables)+

lemma demo_cat_fd: "fd_at i demo_cat = fd_at i demo_proc"
  by (simp add: fd_at_def get_current_pcb_def demo_cat_def demo_proc_def)

lemma demo_cat_stdout: "stdout_shown 0 VIDEO demo_cat"
proof -
  have "same_links (demo_keyboard []) demo_cat" by (simp add: same_links_def demo_cat_def demo_proc_def)
  moreover have "terminals demo_cat = terminals (demo_keyboard [])" by (simp add: demo_cat_def)
  ultimately have "runs_on demo_cat 2 0" using demo_keyboard_runs_on runs_on_links by blast
  moreover have "fd_usable 1 demo_cat \<and> jumptable (fd_at 1 demo_cat) = Some Std_out_fops"
    by (simp add: fd_usable_def demo_cat_fd) (simp add: fd_at_def get_current_pcb_def demo_proc_def)
  moreover have "mapped_at demo_cat VIDEO 4000 VIDEO"
    using demo_screen translate_cong [OF demo_terms_tables] by (simp add: mapped_at_def demo_cat_view)
  ultimately show ?thesis
    by (simp add: stdout_shown_def shown_ok_def screen_ok_def terminal_at_def) (simp add: demo_cat_def demo_line_def demo_terminal_def)
qed

lemma demo_cat_start:
  obtains d where "cat_start 0 [0x66] d 0x500000 0x500000 VIDEO demo_cat" "next_fd demo_cat = Some 2" "inode_idx d = 1"
proof -
  obtain d where d: "List.find (\<lambda>d. entry_name d = [0x66]) (dentries demo_proc) = Some d" "filetype d = FT_REG" "inode_idx d = 1"
    by (rule demo_entry)
  have "dentries demo_cat = dentries demo_proc" by (rule dentries_frame) (simp_all add: demo_cat_view demo_proc_vmem)
  moreover have "next_fd demo_cat = next_fd demo_proc" by (simp add: next_fd_def demo_cat_fd)
  moreover have "clear_of_image demo_cat 1 1024 0x500000"
    using demo_buffer(2) [of 1024] by (simp add: clear_of_image_def demo_cat_view)
  moreover have "mapped_at demo_cat 0x500000 1024 0x500000" using demo_buffer(1) [of 1024] by (simp add: mapped_at_def demo_cat_view)
  moreover have "clear_of_screen 1 VIDEO demo_cat"
    unfolding clear_of_screen_def
  proof (intro ballI allI impI)
    fix a q assume a: "a \<in> image_part (vmem demo_cat) (bootblk demo_cat) 1" "translate demo_cat a = Some q"
    then have "0x440000 \<le> unat a \<and> unat a < 0x450000" using demo_image_part by (simp add: demo_cat_view)
    moreover have "q = a" using a(2) calculation by (simp add: demo_cat_view demo_walk split: if_splits)
    ultimately show "4000 \<le> unat (q - VIDEO)" by (auto simp: unat_sub_if')
  qed
  moreover have "1024 \<le> unat (q - 0x500000)" if "unat (a - bootblk demo_cat) < 4096" "translate demo_cat a = Some q" for a q
  proof -
    have "unat a = 0x440000 + unat (a - 0x440000)" using that(1) unat_offset_eq [of a "0x440000" 4096] by simp
    then have "0x440000 \<le> unat a \<and> unat a < 0x450000" using that(1) by simp
    moreover have "q = a" using that(2) calculation by (simp add: demo_cat_view demo_walk split: if_splits)
    ultimately show ?thesis by (auto simp: unat_sub_if')
  qed
  moreover have "4000 \<le> unat (0x500000 + of_nat i - VIDEO)" if "i < 1024" for i
  proof -
    have "(0x500000 + of_nat i - VIDEO :: u32) = of_nat (0x448000 + i)" by simp
    moreover have "unat (of_nat (0x448000 + i) :: u32) = 0x448000 + i" by (rule unat_of_nat32) (use that in simp)
    ultimately show ?thesis by simp
  qed
  moreover have "1024 \<le> unat (VIDEO + of_nat i - 0x500000)" if "i < 4000" for i
  proof -
    have "unat (VIDEO + of_nat i :: u32) = 0xB8000 + i"
      using unat_of_nat32 [of "0xB8000 + i"] that by simp
    then show ?thesis using that by (simp add: unat_sub_if')
  qed
  ultimately have "cat_start 0 [0x66] d 0x500000 0x500000 VIDEO demo_cat"
    using d demo_cat_stdout demo_valid
    unfolding cat_start_def Let_def by (intro conjI exI [of _ "[0x63]"]) (simp_all add: demo_cat_view)
  then show thesis using that d demo_proc_next \<open>next_fd demo_cat = next_fd demo_proc\<close> by simp
qed

lemma cat_shows_file_witness:
  "\<exists>s'. cat_main (\<lambda>_. 0x600000) (\<lambda>_. idle_env) 0x500000 demo_cat = Some (s', 0) \<and>
    screen_of VIDEO s' = fold screen_put [0x68, 0x65, 0x6C, 0x6C, 0x6F] (screen_of VIDEO demo_cat)"
proof -
  obtain d where d: "cat_start 0 [0x66] d 0x500000 0x500000 VIDEO demo_cat" "next_fd demo_cat = Some 2" "inode_idx d = 1"
    by (rule demo_cat_start)
  show ?thesis using cat_shows_file [OF d(1,2), of "\<lambda>_. 0x600000" "\<lambda>_. idle_env"] d(3) demo_content by (simp add: demo_cat_view)
qed

end
