(* ===== verification/Suite.thy ===== *)
theory Suite
  imports Syserr Cat
begin

text \<open>
  The kernel passes the tests of \<^verbatim>\<open>syserr\<close>. The state the tests run in
  (\<open>suite_ready\<close>) is kept by printing and by opening and closing descriptors; each test
  is shown to print its line and restore that state (\<open>passes\<close>), and the property runs all of
  them.
\<close>

subsection \<open>The state the tests run in\<close>

definition pass_line :: "string \<Rightarrow> string" where
  "pass_line name = nl (name @ '': PASS'')"

definition test_names :: "string list" where
  "test_names = [''err_neg_fd'', ''err_big_fd'', ''err_open_lots'', ''err_open'', ''err_unopened'', ''err_vidmap'',
     ''err_stdin_out'', ''err_syscall_num'']"

definition suite_literals :: "string list" where
  "suite_literals = map pass_line test_names @ [overall 0, ''.'', ''helloo'', ''shel'', []]"

text \<open>
  Standard input and output are open and nothing else is; the directory names itself and has
  no file with one of the two wrong names; the screen lies apart from the literals and the
  directory.
\<close>

definition suite_ready :: "literals \<Rightarrow> nat \<Rightarrow> u32 \<Rightarrow> 'a keyboard_scheme \<Rightarrow> bool" where
  "suite_ready lit t pa s \<longleftrightarrow>
     stdout_shown t pa s \<and> length (fds (get_current_pcb s)) = 8 \<and> fd_usable 0 s \<and>
     jumptable (fd_at 0 s) = Some Std_in_fops \<and> (\<forall>i. 2 \<le> i \<and> i < 8 \<longrightarrow> flags (fd_at i s) AND FD_IN_USE = 0) \<and>
     (\<forall>x\<in>set suite_literals. literal_ok lit pa x s) \<and>
     (\<forall>a q. unat (a - bootblk s) < 4096 \<longrightarrow> translate s a = Some q \<longrightarrow> 4000 \<le> unat (q - pa)) \<and>
     (\<exists>d. List.find (\<lambda>d. entry_name d = text_of ''.'') (dentries s) = Some d \<and> filetype d = FT_DIR) \<and>
     (\<forall>x\<in>{''helloo'', ''shel''}. List.find (\<lambda>d. entry_name d = text_of x) (dentries s) = None)"

text \<open>The directory as the call sees it after memory outside it changed.\<close>

lemma dentries_printed:
  assumes "\<forall>a q. unat (a - bootblk s) < 4096 \<longrightarrow> translate s a = Some q \<longrightarrow> 4000 \<le> unat (q - pa)"
    and "translate s' = translate s" "bootblk s' = bootblk s" "within pa s s'"
  shows "dentries s' = dentries s"
proof (rule dentries_frame)
  fix a assume "unat (a - bootblk s) < 4096"
  with assms show "vmem s' a = vmem s a" by (auto simp: vmem_def within_def split: option.splits)
qed (rule assms(3))

lemma suite_ready_frame:
  assumes ready: "suite_ready lit t pa s" and out: "stdout_shown t pa s'"
    and same: "translate s' = translate s" "bootblk s' = bootblk s" "within pa s s'" "length (fds (get_current_pcb s')) = 8"
      "fd_at 0 s' = fd_at 0 s" "\<forall>i. 2 \<le> i \<and> i < 8 \<longrightarrow> flags (fd_at i s') AND FD_IN_USE = 0"
  shows "suite_ready lit t pa s'"
proof -
  note r = ready [unfolded suite_ready_def]
  have entries: "dentries s' = dentries s" by (rule dentries_printed [OF _ same(1-3)]) (use r in blast)
  have lit: "literal_ok lit pa x s'" if "x \<in> set suite_literals" for x
    by (rule literal_ok_frame [OF _ same(1,3)]) (use r that in blast)
  show ?thesis unfolding suite_ready_def entries same(1,2)
    using r out lit same(4-6) by (simp add: fd_usable_def)
qed

lemma suite_ready_prints:
  assumes "suite_ready lit t pa s" "prints_only s s'" "within pa s s'" "stdout_shown t pa s'"
  shows "suite_ready lit t pa s'"
proof (rule suite_ready_frame [OF assms(1,4) _ _ assms(3)])
  have same: "pcbs s' = pcbs s" "running_pid s' = running_pid s" "bootblk s' = bootblk s"
    using assms(2) by (simp_all add: prints_only_def)
  show "bootblk s' = bootblk s" by (rule same(3))
  have at: "fd_at i s' = fd_at i s" for i by (rule fd_at_cong [OF same(1,2)])
  show "fd_at 0 s' = fd_at 0 s" by (rule at)
  show "length (fds (get_current_pcb s')) = 8" using assms(1) fds_cong [OF same(1,2)] by (simp add: suite_ready_def)
  show "\<forall>i. 2 \<le> i \<and> i < 8 \<longrightarrow> flags (fd_at i s') AND FD_IN_USE = 0" using assms(1) by (simp add: suite_ready_def at)
qed (rule prints_only_translate [OF assms(2)])

text \<open>Printing one of the suite's lines.\<close>

lemma suite_puts:
  assumes "suite_ready lit t pa s" "x \<in> set suite_literals" "x \<noteq> []"
  shows "\<exists>s'. ece391_fdputs 1 (lit x) s = Some s' \<and> suite_ready lit t pa s' \<and>
    screen_of pa s' = fold screen_put (text_of x) (screen_of pa s)"
proof -
  have "stdout_shown t pa s" "literal_ok lit pa x s" using assms(1,2) by (simp_all add: suite_ready_def)
  from puts_literal [OF this assms(3)] suite_ready_prints [OF assms(1)] show ?thesis by blast
qed

text \<open>What it is for a test to pass: it returns 0, prints its line and restores the state.\<close>

definition passes ::
  "literals \<Rightarrow> nat \<Rightarrow> u32 \<Rightarrow> string \<Rightarrow> ('a keyboard_scheme \<Rightarrow> ('a keyboard_scheme \<times> int) option) \<Rightarrow> bool"
where
  "passes lit t pa name test \<longleftrightarrow> (\<forall>s. suite_ready lit t pa s \<longrightarrow>
     (\<exists>s'. test s = Some (s', 0) \<and> suite_ready lit t pa s' \<and>
       screen_of pa s' = fold screen_put (text_of (pass_line name)) (screen_of pa s)))"

lemma verdict_passes:
  assumes "name \<in> set test_names"
  shows "passes lit t pa name (verdict lit name 0)"
proof -
  have "pass_line name \<in> set suite_literals" "pass_line name \<noteq> []" using assms by (auto simp: suite_literals_def pass_line_def nl_def)
  with suite_puts show ?thesis by (fastforce simp: passes_def verdict_def pass_line_def)
qed

lemma passes_via:
  fixes f test :: "'a keyboard_scheme \<Rightarrow> ('a keyboard_scheme \<times> int) option"
  assumes "passes lit t pa name f"
    and "\<And>s. suite_ready lit t pa s \<Longrightarrow> \<exists>s1. test s = f s1 \<and> suite_ready lit t pa s1 \<and> screen_of pa s1 = screen_of pa s"
  shows "passes lit t pa name test"
  unfolding passes_def
proof (intro allI impI)
  fix s :: "'a keyboard_scheme" assume "suite_ready lit t pa s"
  then obtain s1 where "test s = f s1" "suite_ready lit t pa s1" "screen_of pa s1 = screen_of pa s" using assms(2) by blast
  with assms(1) show "\<exists>s'. test s = Some (s', 0) \<and> suite_ready lit t pa s' \<and>
       screen_of pa s' = fold screen_put (text_of (pass_line name)) (screen_of pa s)" by (auto simp: passes_def)
qed

lemma err_fd_passes:
  assumes "name \<in> set test_names" "- 2147483648 \<le> fd" "fd < 2147483648" "fd < 0 \<or> 8 \<le> fd"
  shows "passes lit t pa name (err_fd lit env buf name fd)"
proof (rule passes_via [OF verdict_passes [OF assms(1)]])
  fix s :: "'a keyboard_scheme" assume ready: "suite_ready lit t pa s"
  have "ece391_read (env 0) fd buf 31 s = Some (s, - 1)" "ece391_write fd buf 31 s = Some (s, - 1)"
    "ece391_close fd s = Some (s, - 1)"
    using assms(2-4) by (auto simp: user_calls user_close sys_read_def sys_write_def sys_close_def)
  then have "err_fd lit env buf name fd s = verdict lit name 0 s" by (simp add: err_fd_def expect_refusal_def)
  with ready show "\<exists>s1. err_fd lit env buf name fd s = verdict lit name 0 s1 \<and> suite_ready lit t pa s1 \<and>
    screen_of pa s1 = screen_of pa s" by blast
qed

lemma err_vidmap_passes: "passes lit t pa ''err_vidmap'' (err_vidmap lit)"
proof (rule passes_via [OF verdict_passes])
  fix s :: "'a keyboard_scheme" assume "suite_ready lit t pa s"
  moreover have "err_vidmap lit s = verdict lit ''err_vidmap'' 0 s"
    by (simp add: err_vidmap_def user_vidmap vidmap_def expect_refusal_def)
  ultimately show "\<exists>s1. err_vidmap lit s = verdict lit ''err_vidmap'' 0 s1 \<and> suite_ready lit t pa s1 \<and>
    screen_of pa s1 = screen_of pa s" by blast
qed (simp add: test_names_def)

lemma err_syscall_num_passes: "passes lit t pa ''err_syscall_num'' (err_syscall_num lit regs)"
proof (rule passes_via [OF verdict_passes])
  fix s :: "'a keyboard_scheme" assume "suite_ready lit t pa s"
  moreover have "call_sys regs n s = Some (s, - 1)" if "n \<in> {BIG_NUM, NEG_NUM, 0}" for n
    using that by (auto simp: call_sys_def user_call_def irqh_syscall_def BIG_NUM_def NEG_NUM_def split: prod.split)
  then have "err_syscall_num lit regs s = verdict lit ''err_syscall_num'' 0 s"
    by (simp add: err_syscall_num_def expect_refusal_def)
  ultimately show "\<exists>s1. err_syscall_num lit regs s = verdict lit ''err_syscall_num'' 0 s1 \<and> suite_ready lit t pa s1 \<and>
    screen_of pa s1 = screen_of pa s" by blast
qed (simp add: test_names_def)

lemma expect_all_refused:
  "\<forall>i\<in>set is. call i s = Some (s, - 1) \<Longrightarrow> expect_all lit msg call is fail s = Some (s, fail)"
  by (induction "is") (simp_all add: expect_refusal_def)

lemma err_unopened_passes: "passes lit t pa ''err_unopened'' (err_unopened lit env buf)"
proof (rule passes_via [OF verdict_passes])
  fix s :: "'a keyboard_scheme" assume ready: "suite_ready lit t pa s"
  have closed: "\<not> fd_usable i s" if "2 \<le> i" "i < 8" for i
  proof -
    have "2 \<le> nat i \<and> nat i < 8" using that by auto
    with ready have "flags (fd_at (nat i) s) AND FD_IN_USE = 0" by (simp add: suite_ready_def)
    with that show ?thesis by (simp add: fd_usable_def)
  qed
  let ?all = "\<lambda>msg call is. expect_all lit msg call is 0 s = Some (s, 0)"
  have "?all ''close unopened or invalid fd fail'' ece391_close [0..7]"
    by (rule expect_all_refused) (use closed in \<open>auto simp: user_close sys_close_def\<close>)
  moreover have "?all ''read from unopened fd fail'' (\<lambda>i. ece391_read (env (nat i)) i buf 31) [2..7]"
    by (rule expect_all_refused) (use closed in \<open>auto simp: user_calls sys_read_def\<close>)
  moreover have "?all ''write to unopened fd fail'' (\<lambda>i. ece391_write i buf 31) [2..7]"
    by (rule expect_all_refused) (use closed in \<open>auto simp: user_calls sys_write_def\<close>)
  ultimately have "err_unopened lit env buf s = verdict lit ''err_unopened'' 0 s"
    unfolding err_unopened_def by (simp only: Option.bind.simps prod.case)
  with ready show "\<exists>s1. err_unopened lit env buf s = verdict lit ''err_unopened'' 0 s1 \<and> suite_ready lit t pa s1 \<and>
    screen_of pa s1 = screen_of pa s" by blast
qed (simp add: test_names_def)

lemma suite_ready_sti: "suite_ready lit t pa s \<Longrightarrow> suite_ready lit t pa (sti s) \<and> screen_of pa (sti s) = screen_of pa s"
proof -
  assume ready: "suite_ready lit t pa s"
  have prints: "prints_only s (sti s)" "within pa s (sti s)" by (simp_all add: prints_only_def same_tables_def within_def sti_def)
  have "stdout_shown t pa s" using ready by (simp add: suite_ready_def)
  then have "stdout_shown t pa (sti s)"
    by (rule stdout_shown_cong)
      (use prints_only_translate [OF prints(1)] in \<open>simp_all add: sti_def same_links_def fd_at_def get_current_pcb_def\<close>)
  then show ?thesis using suite_ready_prints [OF ready prints] by (simp add: screen_of_def sti_def)
qed

lemma err_stdin_out_passes: "passes lit t pa ''err_stdin_out'' (err_stdin_out lit env buf)"
proof (rule passes_via [OF verdict_passes])
  fix s :: "'a keyboard_scheme" assume ready: "suite_ready lit t pa s"
  have "stdout_shown t pa s" using ready by (simp add: suite_ready_def)
  then have fds: "fd_usable 0 s" "jumptable (fd_at 0 s) = Some Std_in_fops" "fd_usable 1 s" "jumptable (fd_at 1 s) = Some Std_out_fops"
    using ready by (simp_all add: suite_ready_def stdout_shown_def)
  have "ece391_write 0 buf 31 s = Some (s, - 1)"
    using fds by (subst user_calls) (simp_all add: sys_write_def write_failure_def)
  moreover have "ece391_read (env 0) 1 buf 31 s = Some (if buf = 0 then s else sti s, - 1)"
    using fds by (subst user_calls) (simp_all add: sys_read_def read_failure_def)
  ultimately have "err_stdin_out lit env buf s = verdict lit ''err_stdin_out'' 0 (if buf = 0 then s else sti s)"
    by (simp add: err_stdin_out_def expect_refusal_def)
  with ready suite_ready_sti [OF ready]
  show "\<exists>s1. err_stdin_out lit env buf s = verdict lit ''err_stdin_out'' 0 s1 \<and> suite_ready lit t pa s1 \<and>
    screen_of pa s1 = screen_of pa s" by (cases "buf = 0") auto
qed (simp add: test_names_def)

lemma suite_open:
  assumes "suite_ready lit t pa s" "x \<in> set suite_literals" "length x \<le> 32"
    and "x = [] \<or> List.find (\<lambda>d. entry_name d = text_of x) (dentries s) = None"
  shows "ece391_open (lit x) s = Some (s, - 1)"
proof -
  have lit: "literal_ok lit pa x s" using assms(1,2) by (simp add: suite_ready_def)
  then have "lit x \<noteq> 0" by (simp add: literal_ok_def)
  from sys_open_by_name [OF literal_string [OF lit] this] assms(3,4) show ?thesis
    by (auto simp: user_open text_of_def)
qed

lemma err_open_passes: "passes lit t pa ''err_open'' (err_open lit)"
proof (rule passes_via [OF verdict_passes])
  fix s :: "'a keyboard_scheme" assume ready: "suite_ready lit t pa s"
  have "ece391_open (lit x) s = Some (s, - 1)" if "x \<in> {''helloo'', ''shel'', []}" for x
    by (rule suite_open [OF ready]) (use that ready in \<open>auto simp: suite_literals_def suite_ready_def\<close>)
  then have "err_open lit s = verdict lit ''err_open'' 0 s" by (simp add: err_open_def expect_refusal_def)
  with ready show "\<exists>s1. err_open lit s = verdict lit ''err_open'' 0 s1 \<and> suite_ready lit t pa s1 \<and>
    screen_of pa s1 = screen_of pa s" by blast
qed (simp add: test_names_def)

subsection \<open>Filling the descriptor table\<close>

text \<open>What opening and closing the descriptors from 2 on leaves alone.\<close>

definition fd_only :: "'a keyboard_scheme \<Rightarrow> 'a keyboard_scheme \<Rightarrow> bool" where
  "fd_only s s' \<longleftrightarrow> memory s' = memory s \<and> translate s' = translate s \<and> bootblk s' = bootblk s \<and>
     terminals s' = terminals s \<and> current_terminal s' = current_terminal s \<and>
     screen_x s' = screen_x s \<and> screen_y s' = screen_y s \<and> running_pid s' = running_pid s \<and> same_links s s' \<and>
     length (fds (get_current_pcb s')) = length (fds (get_current_pcb s)) \<and> fd_at 0 s' = fd_at 0 s \<and> fd_at 1 s' = fd_at 1 s"

lemma fd_only_refl [simp]: "fd_only s s"
  by (simp add: fd_only_def same_links_def)

lemma fd_only_trans: "fd_only s s' \<Longrightarrow> fd_only s' s'' \<Longrightarrow> fd_only s s''"
  by (simp add: fd_only_def same_links_def)

lemma fd_only_update: "2 \<le> fd \<Longrightarrow> fd < length (fds (get_current_pcb s)) \<Longrightarrow> fd_only s (update_fd fd f s)"
  by (simp add: fd_only_def same_links_def fd_at_update) (simp add: update_fd_def update_pcb_def get_current_pcb_def)

lemma fd_only_count: "fd_only s (s\<lparr>dir_read_count := n\<rparr>)"
proof -
  have "translate (s\<lparr>dir_read_count := n\<rparr>) = translate s" by (rule translate_cong) (simp add: same_tables_def)
  then show ?thesis by (simp add: fd_only_def same_links_def get_current_pcb_def fd_at_def)
qed

definition in_use :: "nat set \<Rightarrow> 'a process_scheme \<Rightarrow> bool" where
  "in_use K s \<longleftrightarrow> length (fds (get_current_pcb s)) = 8 \<and>
     (\<forall>i. 2 \<le> i \<and> i < 8 \<longrightarrow> (flags (fd_at i s) AND FD_IN_USE = 0) = (i \<notin> K) \<and> (i \<in> K \<longrightarrow> jumptable (fd_at i s) \<noteq> None))"

lemma in_use_update:
  assumes "in_use K s" "2 \<le> fd" "fd < 8" "K' = (if flags (f (fd_at fd s)) AND FD_IN_USE = 0 then K - {fd} else insert fd K)"
    "flags (f (fd_at fd s)) AND FD_IN_USE = 0 \<or> jumptable (f (fd_at fd s)) \<noteq> None"
  shows "in_use K' (update_fd fd f s)"
  using assms by (auto simp: in_use_def fd_at_update)

lemma next_fd_in_use:
  assumes "in_use {2..<2 + k} s"
  shows "next_fd s = (if k < 6 then Some (2 + k) else None)"
proof (cases "next_fd s")
  case None
  then show ?thesis using assms by (auto simp: next_fd_None in_use_def dest: spec [of _ "2 + k"])
next
  case (Some fd)
  note free = next_fd_Some [OF Some]
  have "\<not> fd < 2 + k" using free(1-3) assms by (auto simp: in_use_def)
  moreover have "\<not> 2 + k < fd" using free(2) free(4) [of "2 + k"] assms by (auto simp: in_use_def)
  ultimately have "fd = 2 + k" by simp
  with Some free(2) show ?thesis by simp
qed

text \<open>The directory's name is opened on the next descriptor as long as there is one.\<close>

lemma open_next:
  assumes ready: "suite_ready lit t pa s0" and same: "fd_only s0 s" and used: "in_use {2..<2 + k} s"
  shows "\<exists>s' r. ece391_open (lit ''.'') s = Some (s', r) \<and> (r = - 1) = (6 \<le> k) \<and> fd_only s0 s' \<and>
    in_use {2..<2 + (if k < 6 then Suc k else k)} s'"
proof -
  note r = ready [unfolded suite_ready_def] and m = same [unfolded fd_only_def]
  have vmem: "vmem s = vmem s0" by (rule ext) (use m in \<open>simp add: vmem_def split: option.split\<close>)
  have "literal_ok lit pa ''.'' s0" using ready by (simp add: suite_ready_def suite_literals_def)
  then have "literal_ok lit pa ''.'' s" by (rule literal_ok_frame) (use m in \<open>simp_all add: within_def\<close>)
  note name = literal_string [OF this] and nz = this [unfolded literal_ok_def]
  obtain d where d: "List.find (\<lambda>d. entry_name d = text_of ''.'') (dentries s) = Some d" "filetype d = FT_DIR"
    using r dentries_frame [of s0 s] vmem m by auto
  have "open": "ece391_open (lit ''.'') s = (case next_fd s of None \<Rightarrow> Some (s, - 1) | Some fd \<Rightarrow> open_fd (lit ''.'') d fd Dir_fops s)"
    using sys_open_by_name [OF name] nz d by (simp add: user_open text_of_def fops_of_type_def split: option.split)
  show ?thesis
  proof (cases "k < 6")
    case False
    then show ?thesis using "open" same used next_fd_in_use [OF used] by auto
  next
    case True
    let ?j = "update_fd (2 + k) (\<lambda>f. f\<lparr>jumptable := Some Dir_fops\<rparr>) s"
    let ?g = "\<lambda>f. f\<lparr>flags := FD_IN_USE, inode := 0, file_position := 0\<rparr>"
    let ?s' = "update_fd (2 + k) ?g (?j\<lparr>dir_read_count := 0\<rparr>)"
    have len: "length (fds (get_current_pcb s)) = 8" using used by (simp add: in_use_def)
    have "ece391_open (lit ''.'') s = Some (?s', int (2 + k))"
      using "open" next_fd_in_use [OF used] True d(2) by (simp add: open_fd_def dir_open_def)
    moreover have "fd_only s ?s'"
      by (intro fd_only_trans [OF fd_only_update fd_only_trans [OF fd_only_count fd_only_update]])
        (use True len in \<open>simp_all add: get_current_pcb_def update_fd_def update_pcb_def\<close>)
    then have "fd_only s0 ?s'" by (rule fd_only_trans [OF same])
    moreover have "in_use {2..<2 + Suc k} ?s'"
    proof -
      let ?c = "?j\<lparr>dir_read_count := 0\<rparr>"
      have same: "fds (get_current_pcb ?c) = fds (get_current_pcb ?j)" by (simp add: get_current_pcb_def)
      then have len_c: "length (fds (get_current_pcb ?c)) = 8" using len by simp
      have "fd_at i ?c = (if i = 2 + k then (fd_at i s)\<lparr>jumptable := Some Dir_fops\<rparr> else fd_at i s)" for i
        unfolding fd_at_def same using len True by simp
      then have at: "fd_at i ?s' = (if i = 2 + k then ?g ((fd_at i s)\<lparr>jumptable := Some Dir_fops\<rparr>) else fd_at i s)" for i
        using fd_at_update [of "2 + k" ?c i ?g] len_c True by simp
      have "length (fds (get_current_pcb ?s')) = 8" using len_c by simp
      with used show ?thesis unfolding in_use_def at by (auto simp: less_Suc_eq)
    qed
    ultimately show ?thesis using True by auto
  qed
qed

lemma open_lots_fills:
  assumes "suite_ready lit t pa s0" "fd_only s0 s" "in_use {2..<2 + k} s" "k \<le> 6"
  shows "\<exists>s' K. open_lots lit n cnt s = Some (s', cnt + int (n - (6 - k))) \<and> fd_only s0 s' \<and> in_use K s' \<and> K \<subseteq> {2..<8}"
  using assms(2-4)
proof (induction n arbitrary: k cnt s)
  case 0
  then show ?case by (intro exI [of _ s] exI [of _ "{2..<2 + k}"]) simp
next
  case (Suc n)
  obtain s' r where s': "ece391_open (lit ''.'') s = Some (s', r)" "(r = - 1) = (6 \<le> k)" "fd_only s0 s'"
    "in_use {2..<2 + (if k < 6 then Suc k else k)} s'" using open_next [OF assms(1) Suc.prems(1,2)] by blast
  let ?k = "if k < 6 then Suc k else k"
  have "?k \<le> 6" using Suc.prems(3) by simp
  from Suc.IH [OF s'(3,4) this, of "if r = - 1 then cnt + 1 else cnt"] s'(1,2) Suc.prems(3) show ?case
    by (auto simp: Suc_diff_le split: if_splits)
qed

lemma close_fds_frees:
  assumes "in_use K s" "\<forall>i\<in>set is. 2 \<le> i \<and> i < 8"
  shows "\<exists>s'. close_fds is s = Some s' \<and> fd_only s s' \<and> in_use (K - nat ` set is) s'"
  using assms
proof (induction "is" arbitrary: K s)
  case Nil
  then show ?case by simp
next
  case (Cons i "is")
  have i: "2 \<le> i" "i < 8" using Cons.prems(2) by simp_all
  then have ni: "2 \<le> nat i" "nat i < 8" by linarith+
  obtain s1 r where s1: "sys_close i s = (s1, r)" "fd_only s s1" "in_use (K - {nat i}) s1"
  proof (cases "fd_usable i s")
    case True
    let ?f = "\<lambda>f. f\<lparr>flags := 0, file_position := 0, inode := 0, jumptable := None\<rparr>"
    have "in_use (K - {nat i}) (update_fd (nat i) ?f s)" by (rule in_use_update [OF Cons.prems(1)]) (use ni in simp_all)
    moreover have "fd_only s (update_fd (nat i) ?f s)" by (rule fd_only_update) (use ni Cons.prems(1) in \<open>simp_all add: in_use_def\<close>)
    moreover have "sys_close i s = (update_fd (nat i) ?f s, 0)" using True i by (simp add: sys_close_def)
    ultimately show thesis using that by blast
  next
    case False
    have "nat i \<notin> K" using False Cons.prems(1) ni by (auto simp: in_use_def fd_usable_def)
    then have "K - {nat i} = K" by blast
    moreover have "sys_close i s = (s, - 1)" using False by (simp add: sys_close_def)
    ultimately show thesis using that Cons.prems(1) by simp
  qed
  have "ece391_close i s = Some (s1, r)" using s1(1) i by (simp add: user_close)
  moreover obtain s' where "close_fds is s1 = Some s'" "fd_only s1 s'" "in_use (K - {nat i} - nat ` set is) s'"
    using Cons.IH [OF s1(3)] Cons.prems(2) by auto
  moreover have "K - {nat i} - nat ` set is = K - nat ` set (i # is)" by auto
  ultimately show ?case using fd_only_trans [OF s1(2)] by auto
qed

lemma suite_ready_fd_only:
  assumes "suite_ready lit t pa s" "fd_only s s'" "in_use {} s'"
  shows "suite_ready lit t pa s' \<and> screen_of pa s' = screen_of pa s"
proof
  note m = assms(2) [unfolded fd_only_def]
  have out: "stdout_shown t pa s" using assms(1) by (simp add: suite_ready_def)
  show "suite_ready lit t pa s'"
  proof (rule suite_ready_frame [OF assms(1)])
    show "stdout_shown t pa s'" by (rule stdout_shown_cong [OF out]) (use m in simp_all)
    show "within pa s s'" using m by (simp add: within_def)
  qed (use m assms(3) in \<open>simp_all add: in_use_def\<close>)
  show "screen_of pa s' = screen_of pa s" using m by (simp add: screen_of_def)
qed

lemma err_open_lots_passes: "passes lit t pa ''err_open_lots'' (err_open_lots lit)"
proof (rule passes_via [OF verdict_passes])
  fix s :: "'a keyboard_scheme" assume ready: "suite_ready lit t pa s"
  have "in_use {2..<2 + 0} s" using ready by (simp add: suite_ready_def in_use_def)
  from open_lots_fills [OF ready fd_only_refl this, of 7 0]
  obtain s1 K where s1: "open_lots lit 7 0 s = Some (s1, 1)" "fd_only s s1" "in_use K s1" "K \<subseteq> {2..<8}" by auto
  obtain s2 where s2: "close_fds [2..7] s1 = Some s2" "fd_only s1 s2" "in_use (K - nat ` set [2..7]) s2"
    using close_fds_frees [OF s1(3), of "[2..7]"] by auto
  have "K - nat ` set [2..7] = {}"
  proof -
    have "i \<in> nat ` {2..7}" if "2 \<le> i" "i < 8" for i :: nat using that by (intro image_eqI [of _ _ "int i"]) auto
    then show ?thesis using s1(4) by auto
  qed
  then have "suite_ready lit t pa s2 \<and> screen_of pa s2 = screen_of pa s"
    using suite_ready_fd_only [OF ready fd_only_trans [OF s1(2) s2(2)]] s2(3) by (simp only:)
  moreover have "err_open_lots lit s = verdict lit ''err_open_lots'' 0 s2"
    unfolding err_open_lots_def s1(1) by (simp add: s2(1) del: close_fds.simps upto_rec1 upto_rec_numeral)
  ultimately show "\<exists>s1. err_open_lots lit s = verdict lit ''err_open_lots'' 0 s1 \<and> suite_ready lit t pa s1 \<and>
    screen_of pa s1 = screen_of pa s" by blast
qed (simp add: test_names_def)

text \<open>Every test by its number, then all of them.\<close>

lemma syserr_test_passes:
  assumes "1 \<le> n" "n \<le> 8"
  shows "passes lit t pa (test_names ! (n - 1)) (syserr_test lit envs buf regs n)"
proof -
  have "passes lit t pa ''err_neg_fd'' (err_neg_fd lit (envs 1) buf)" "passes lit t pa ''err_big_fd'' (err_big_fd lit (envs 2) buf)"
    unfolding err_neg_fd_def err_big_fd_def by (rule err_fd_passes; simp add: NEG_FD_def BIG_FD_def test_names_def)+
  moreover have "n \<in> {1, 2, 3, 4, 5, 6, 7, 8}" using assms by auto
  ultimately show ?thesis
    using err_open_lots_passes err_open_passes err_unopened_passes err_vidmap_passes err_stdin_out_passes err_syscall_num_passes [of lit t pa regs]
    by (elim insertE emptyE) (simp_all add: syserr_test_def test_names_def)
qed

lemma syserr_tests_pass:
  assumes "suite_ready lit t pa s" "\<forall>n\<in>set ns. 1 \<le> n \<and> n \<le> 8"
  shows "\<exists>s'. syserr_tests lit envs buf regs ns fail s = Some (s', fail) \<and> suite_ready lit t pa s' \<and>
    screen_of pa s' = fold screen_put (concat (map (\<lambda>n. text_of (pass_line (test_names ! (n - 1)))) ns)) (screen_of pa s)"
  using assms
proof (induction ns arbitrary: s)
  case Nil
  then show ?case by simp
next
  case (Cons n ns)
  then have "1 \<le> n" "n \<le> 8" by simp_all
  from syserr_test_passes [OF this, of lit t pa envs buf regs] Cons.prems(1)
  obtain s1 where s1: "syserr_test lit envs buf regs n s = Some (s1, 0)" "suite_ready lit t pa s1"
    "screen_of pa s1 = fold screen_put (text_of (pass_line (test_names ! (n - 1)))) (screen_of pa s)"
    unfolding passes_def by blast
  from Cons.IH [OF s1(2)] Cons.prems(2) s1(1,3) show ?case by auto
qed

subsection \<open>Property\<close>

text \<open>
  C5: The kernel passes the program's own tests of its error handling. With test 0, every
  call the eight tests make with a bad descriptor, name, pointer or number is refused, the
  descriptor table takes six more files and no seventh and is empty again after the closes, the screen
  shows the eight lines and the overall verdict, and the result is 0, whatever the
  registers hold and whatever the keyboard does.
\<close>

theorem syserr_suite_passes:
  assumes "suite_ready lit t pa s"
  shows "\<exists>s'. syserr_select lit envs buf regs 0 s = Some (s', 0) \<and> suite_ready lit t pa s' \<and>
    screen_of pa s' = fold screen_put (text_of (concat (map pass_line test_names) @ overall 0)) (screen_of pa s)"
proof -
  define ns :: "nat list" where "ns = [1, 2, 3, 4, 5, 6, 7, 8]"
  have "\<forall>n\<in>set ns. 1 \<le> n \<and> n \<le> 8" by (simp add: ns_def)
  from syserr_tests_pass [OF assms this, of envs buf regs 0] obtain s1 where
    s1: "syserr_tests lit envs buf regs ns 0 s = Some (s1, 0)" "suite_ready lit t pa s1"
    "screen_of pa s1 = fold screen_put (concat (map (\<lambda>n. text_of (pass_line (test_names ! (n - 1)))) ns)) (screen_of pa s)"
    by blast
  have "overall 0 \<in> set suite_literals" "overall 0 \<noteq> []" by (simp_all add: suite_literals_def overall_def)
  from suite_puts [OF s1(2) this] obtain s2 where s2: "ece391_fdputs 1 (lit (overall 0)) s1 = Some s2"
    "suite_ready lit t pa s2" "screen_of pa s2 = fold screen_put (text_of (overall 0)) (screen_of pa s1)" by blast
  have "concat (map (\<lambda>n. text_of (pass_line (test_names ! (n - 1)))) ns) = text_of (concat (map pass_line test_names))"
    by (simp add: ns_def text_of_def test_names_def)
  with s1(3) s2(3) have "screen_of pa s2 = fold screen_put (text_of (concat (map pass_line test_names) @ overall 0)) (screen_of pa s)"
    by (simp add: text_of_def)
  moreover have "syserr_select lit envs buf regs 0 s = Some (s2, 0)"
    unfolding syserr_select_def ns_def [symmetric] by (simp add: s1(1) s2(1))
  ultimately show ?thesis using s2(2) by blast
qed

subsection \<open>A machine to test\<close>

text \<open>The literals lie 64 bytes apart from 0x500000 on; the directory holds only itself.\<close>

definition suite_lit :: literals where
  "suite_lit x = 0x500000 + of_nat (64 * length (takeWhile (\<lambda>y. y \<noteq> x) suite_literals))"

definition suite_memory :: mem where
  "suite_memory a =
     (let n = unat (a - 0x500000) in
      if n < 1024 then
        let x = suite_literals ! (n div 64) in
        if n mod 64 < length x then of_char (x ! (n mod 64)) else 0
      else if a = 0x440040 then 0x2E else if a = 0x440060 then 1 else 0)"

definition demo_suite :: keyboard where
  "demo_suite = demo_cat\<lparr>memory := suite_memory\<rparr>"

lemma demo_suite_fields [simp]:
  "memory demo_suite = suite_memory" "bootblk demo_suite = 0x440000" "running_pid demo_suite = 2"
  "length (fds (get_current_pcb demo_suite)) = 8" "translate demo_suite = translate demo"
proof -
  have "same_tables demo_suite demo_cat" by (simp add: same_tables_def demo_suite_def)
  then show "translate demo_suite = translate demo" using translate_cong demo_cat_view(1) by metis
qed (simp_all add: demo_suite_def get_current_pcb_def del: demo_cat_fields(6), simp add: demo_cat_def demo_proc_def)

lemma demo_suite_fd: "fd_at i demo_suite = fd_at i demo_proc"
  using demo_cat_fd by (simp add: demo_suite_def fd_at_def get_current_pcb_def)

lemma demo_suite_stdout: "stdout_shown 0 VIDEO demo_suite"
  by (rule stdout_shown_cong [OF demo_cat_stdout])
    (simp_all add: demo_suite_fd demo_cat_fd demo_cat_view same_links_def, simp_all add: demo_suite_def)

lemma suite_literals_short: "x \<in> set suite_literals \<Longrightarrow> length x < 64 \<and> 0 \<notin> set (text_of x)"
  by (auto simp: suite_literals_def test_names_def pass_line_def overall_def nl_def text_of_def of_char_def)

lemma demo_suite_literal:
  assumes "x \<in> set suite_literals"
  shows "literal_ok suite_lit VIDEO x demo_suite"
proof -
  define k where "k = length (takeWhile (\<lambda>y. y \<noteq> x) suite_literals)"
  have k: "k < length suite_literals" 
  proof -
    have "dropWhile (\<lambda>y. y \<noteq> x) suite_literals \<noteq> []" using assms by (simp add: dropWhile_eq_Nil_conv)
    moreover have "k + length (dropWhile (\<lambda>y. y \<noteq> x) suite_literals) = length suite_literals"
      unfolding k_def length_append [symmetric] takeWhile_dropWhile_id ..
    ultimately show ?thesis by (metis add_cancel_left_right le_add1 length_0_conv nat_less_le)
  qed
  have x: "suite_literals ! k = x" using nth_length_takeWhile [of "\<lambda>y. y \<noteq> x" suite_literals] k by (simp add: k_def)
  have small: "k < 13" using k by (simp add: suite_literals_def test_names_def)
  have lit: "suite_lit x = 0x500000 + of_nat (64 * k)" by (simp add: suite_lit_def k_def)
  have off: "suite_lit x + of_nat i = 0x500000 + of_nat (64 * k + i)" for i by (simp add: lit)
  have addr: "unat (suite_lit x + of_nat i) = 0x500000 + (64 * k + i)" if "i < 64" for i
  proof -
    have "suite_lit x + of_nat i = of_nat (0x500000 + (64 * k + i))" by (simp add: lit)
    moreover have "unat (of_nat (0x500000 + (64 * k + i)) :: u32) = 0x500000 + (64 * k + i)"
      by (rule unat_of_nat32) (use small that in simp)
    ultimately show ?thesis by (simp only:)
  qed
  have short: "length x < 64" "0 \<notin> set (text_of x)" using suite_literals_short [OF assms] by simp_all
  have at: "suite_memory (suite_lit x + of_nat i) = (text_of x @ [0]) ! i" if "i \<le> length x" for i
  proof -
    have i: "i < 64" using that short(1) by simp
    have "suite_lit x + of_nat i - 0x500000 = of_nat (64 * k + i)" by (simp add: lit)
    then have "unat (suite_lit x + of_nat i - 0x500000) = 64 * k + i" using small i by (simp only: unat_of_nat32)
    then show ?thesis using small i x that by (simp add: suite_memory_def text_of_def nth_append)
  qed
  have "bytes_at suite_memory (suite_lit x) (length x + 1) = text_of x @ [0]"
    by (rule nth_equalityI) (use at in \<open>simp_all add: text_of_def\<close>)
  moreover have "mapped_at demo_suite (suite_lit x) (length x + 1) (suite_lit x)"
    using addr short(1) small by (simp add: mapped_at_def demo_translate)
  moreover have "4000 \<le> unat (suite_lit x + of_nat i - VIDEO)" if "i \<le> length x" for i
    using addr [of i] that short(1) by (simp add: unat_sub_if')
  moreover have "suite_lit x \<noteq> 0" using addr [of 0] by auto
  ultimately show ?thesis using short by (auto simp: literal_ok_def)
qed

lemma demo_suite_vmem: "4096 \<le> unat a \<Longrightarrow> unat a < 0x800000 \<Longrightarrow> vmem demo_suite a = suite_memory a"
  using vmem_mapped [of demo_suite a a] demo_translate [of a] by simp

lemma demo_suite_entry:
  assumes "1 \<le> i" "i < 63"
  shows "entry_name (bytes_at (vmem demo_suite) (direntry_addr 0x440000 (of_nat i)) 64) = []"
proof -
  let ?a = "direntry_addr 0x440000 (of_nat i)"
  have "?a = of_nat (0x440040 + 64 * i)" by (simp add: direntry_addr_def)
  moreover have "unat (of_nat (0x440040 + 64 * i) :: u32) = 0x440040 + 64 * i" by (rule unat_of_nat32) (use assms in simp)
  ultimately have a: "unat ?a = 0x440040 + 64 * i" by (simp only:)
  have "?a \<noteq> 0x440040" "?a \<noteq> 0x440060" using a assms by (auto dest: arg_cong [of _ _ unat])
  moreover have "\<not> unat (?a - 0x500000) < 1024" using a assms by (simp add: unat_sub_if')
  moreover have "vmem demo_suite ?a = suite_memory ?a" using a assms by (intro demo_suite_vmem) simp_all
  ultimately have "vmem demo_suite ?a = 0" by (simp add: suite_memory_def Let_def)
  then show ?thesis by (simp add: entry_name_def filename_def bytes_at_def upt_conv_Cons del: upt_rec_numeral)
qed

lemma demo_suite_entries:
  obtains d ds where "dentries demo_suite = d # ds" "entry_name d = [0x2E]" "filetype d = FT_DIR"
    "\<forall>d\<in>set ds. entry_name d = []"
proof
  let ?e = "\<lambda>i. bytes_at (vmem demo_suite) (direntry_addr 0x440000 (of_nat i)) 64"
  show "dentries demo_suite = ?e 0 # map ?e [1..<63]"
    by (simp add: dentries_def upt_conv_Cons del: upt_rec_numeral)
  show "entry_name (?e 0) = [0x2E]" "filetype (?e 0) = FT_DIR"
    by (simp_all add: direntry_addr_def entry_name_def filename_def bytes_at_def upt_conv_Cons demo_suite_vmem
        suite_memory_def filetype_def le32_def load32_def)
  show "\<forall>d\<in>set (map ?e [1..<63]). entry_name d = []" using demo_suite_entry by (simp del: upt_rec_numeral)
qed

lemma demo_suite_ready: "suite_ready suite_lit 0 VIDEO demo_suite"
proof -
  obtain d ds where d: "dentries demo_suite = d # ds" "entry_name d = [0x2E]" "filetype d = FT_DIR"
    "\<forall>d\<in>set ds. entry_name d = []" by (rule demo_suite_entries)
  have "4000 \<le> unat (q - VIDEO)" if "unat (a - 0x440000) < 4096" "translate demo a = Some q" for a q
  proof -
    have "unat a = 0x440000 + unat (a - 0x440000)" using that(1) unat_offset_eq [of a "0x440000" 4096] by simp
    then have "0x440000 \<le> unat a \<and> unat a < 0x450000" using that(1) by simp
    moreover have "q = a" using that(2) calculation by (simp add: demo_walk split: if_splits)
    ultimately show ?thesis by (auto simp: unat_sub_if')
  qed
  moreover have "flags (fd_at i demo_suite) AND FD_IN_USE = 0" if "2 \<le> i" "i < 8" for i
  proof -
    have "i - 2 < 6" using that by simp
    then show ?thesis unfolding demo_suite_fd using that by (simp add: fd_at_def get_current_pcb_def demo_proc_def idle_fd_def nth_append)
  qed
  moreover have "fd_usable 0 demo_suite" "jumptable (fd_at 0 demo_suite) = Some Std_in_fops"
    by (simp_all add: fd_usable_def demo_suite_fd) (simp_all add: fd_at_def get_current_pcb_def demo_proc_def)
  ultimately show ?thesis
    unfolding suite_ready_def using d demo_suite_literal demo_suite_stdout
    by (intro conjI) (auto simp: text_of_def find_None_iff)
qed

lemma syserr_suite_passes_witness:
  "\<exists>s'. syserr_select suite_lit (\<lambda>_ _. idle_env) 0x600000 (0, 0, 0) 0 demo_suite = Some (s', 0) \<and>
    screen_of VIDEO s' = fold screen_put (text_of (concat (map pass_line test_names) @ overall 0)) (screen_of VIDEO demo_suite)"
  using syserr_suite_passes [OF demo_suite_ready, of "\<lambda>_ _. idle_env" "0x600000" "(0, 0, 0)"] by blast

end
