(* ===== verification/Kernel_Frame.thy ===== *)
theory Kernel_Frame
  imports Syscall_Exec Printf
begin

text \<open>
  What the kernel's operations leave alone, proved once for every relation between states that
  the basic effects respect: writes through the page tables, the scroll of the screen, ports,
  the interrupt flag, the fields of a terminal other than its buffer's address, the cursor, the
  remapping of video memory to a page of a terminal, the number of the terminal on display, the
  keyboard's variables and the directory position. Printing, the keyboard's and the clock's interrupt handlers and the calls on
  devices are made of these, so they respect the relation too. The relations of the
  theories that follow are instances.
\<close>

text \<open>The terminal that the search finds is one of the three.\<close>

lemma running_loop_bound:
  assumes "running_loop lookup blocks p = Some r" "\<And>q u. lookup q = Some u \<Longrightarrow> u < 3" "r = Some t"
  shows "t < 3"
proof -
  have "(\<forall>q u. lookup q = Some u \<longrightarrow> u < 3) \<longrightarrow> (\<forall>t. r = Some t \<longrightarrow> t < 3)"
  proof (rule running_loop.raw_induct
      [where P = "\<lambda>lookup b p r. (\<forall>q u. lookup q = Some u \<longrightarrow> u < 3) \<longrightarrow> (\<forall>t. r = Some t \<longrightarrow> t < 3)", OF _ assms(1)])
    fix f and lookup :: "u32 \<Rightarrow> nat option" and blocks :: "u8 \<Rightarrow> pcb" and p r
    assume ih: "\<And>lookup b p r. f lookup b p = Some r \<Longrightarrow> (\<forall>q u. lookup q = Some u \<longrightarrow> u < 3) \<longrightarrow> (\<forall>t. r = Some t \<longrightarrow> t < 3)"
      and step: "(case parent_pcb p of None \<Rightarrow> None
        | Some q \<Rightarrow> case lookup (of_int (parent_pid p)) of Some t \<Rightarrow> Some (Some t) | None \<Rightarrow> f lookup blocks (blocks q)) = Some r"
    show "(\<forall>q u. lookup q = Some u \<longrightarrow> u < 3) \<longrightarrow> (\<forall>t. r = Some t \<longrightarrow> t < 3)"
      using step ih [of lookup blocks _ r] by (auto split: option.splits)
  qed
  with assms(2,3) show ?thesis by blast
qed

lemma running_terminal_bound: "get_running_terminal s = Some (Some t) \<Longrightarrow> t < 3"
  by (auto simp: get_running_terminal_def Let_def dest: get_terminal_from_pid_Some running_loop_bound
      split: option.split_asm if_split_asm)

lemma hidden_terminal_bound: "get_running_terminal s = Some r \<Longrightarrow> hidden_terminal r s' = Some t \<Longrightarrow> t < 3"
  using running_terminal_bound [of s t] by (auto simp: hidden_terminal_def split: option.splits if_splits)

lemma remap_video_shown: "current_terminal (remap_video a s) = current_terminal s"
  by (simp add: remap_video_def map_vid_mem_def Let_def cli_def sti_def)

text \<open>The state in which a call leaves the kernel, however it does.\<close>

primrec outcome_state :: "'s outcome \<Rightarrow> 's" where
  "outcome_state (Return s r) = s"
| "outcome_state (Enter_user s e) = s"
| "outcome_state (Resume s a b c) = s"
| "outcome_state (Unimplemented s) = s"

subsection \<open>Memory\<close>

locale memory_frame =
  fixes keeps :: "'a keyboard_scheme \<Rightarrow> 'a keyboard_scheme \<Rightarrow> bool"
  assumes keeps_refl: "keeps s s"
    and keeps_trans: "keeps s s1 \<Longrightarrow> keeps s1 s2 \<Longrightarrow> keeps s s2"
    and write_law: "put_byte dst b s = Some s' \<Longrightarrow> keeps s s'"
begin

lemma keeps_put: "put_bytes a bs s = Some s' \<Longrightarrow> keeps s s'"
  by (induction bs arbitrary: a s) (auto simp: bind_eq_Some_conv keeps_refl intro: keeps_trans write_law)

lemma keeps_cell: "put_cell a c s = Some s' \<Longrightarrow> keeps s s'"
  by (auto simp: put_cell_def bind_eq_Some_conv intro: keeps_trans write_law)

lemma keeps_blank: "blank_cells a n s = Some s' \<Longrightarrow> keeps s s'"
  by (induction n arbitrary: a s) (auto simp: bind_eq_Some_conv keeps_refl intro: keeps_trans keeps_cell)

lemma keeps_copy: "copy_object d a n s = Some s' \<Longrightarrow> keeps s s'"
  by (auto simp: copy_object_def split: if_split_asm intro: keeps_put)

lemma keeps_read_loop: "read_data_loop datablks i offset buf len reads idx boff s = Some (s', r) \<Longrightarrow> keeps s s'"
proof (induction datablks i offset buf len reads idx boff s rule: read_data_loop.induct)
  case (1 datablks i offset buf len reads idx boff s)
  show ?case
  proof (cases "reads < len")
    case False
    then show ?thesis using "1.prems" by (subst (asm) read_data_loop.simps) (simp add: keeps_refl)
  next
    case True
    then obtain b where b: "inode_data (vmem s) (bootblk s) i idx = Some b"
      using "1.prems" by (subst (asm) read_data_loop.simps) (auto simp: bind_eq_Some_conv)
    show ?thesis
    proof (cases "inode_size (vmem s) (bootblk s) i \<le> of_int reads + offset")
      case True
      with \<open>reads < len\<close> b show ?thesis using "1.prems"
        by (subst (asm) read_data_loop.simps) (simp add: keeps_refl)
    next
      case False
      then obtain t where t: "put_byte (buf + of_int reads) (vmem s (datablks + b * FS_BLK_SIZE + boff)) s = Some t"
        using \<open>reads < len\<close> b "1.prems" by (subst (asm) read_data_loop.simps) (auto simp: bind_eq_Some_conv)
      note ih = "1.IH" [OF True b False t]
      have "keeps t s'"
        using "1.prems" \<open>reads < len\<close> b False t
        by (subst (asm) read_data_loop.simps)
          (auto simp: bind_eq_Some_conv keeps_refl split: if_split_asm dest: ih)
      with write_law [OF t] show ?thesis by (rule keeps_trans)
    qed
  qed
qed

lemma keeps_read_data: "read_data i offset buf n s = Some (s', r) \<Longrightarrow> keeps s s'"
  by (auto simp: read_data_def Let_def bind_eq_Some_conv keeps_refl split: if_split_asm dest: keeps_read_loop)

lemma keeps_read_name: "file_read_name name buf offset n s = Some (s', r) \<Longrightarrow> keeps s s'"
  by (auto simp: file_read_name_def Let_def bind_eq_Some_conv keeps_refl split: if_split_asm option.split_asm
      dest: keeps_read_data)

text \<open>What \<^verbatim>\<open>execute\<close> does before it takes a process number.\<close>

lemma keeps_load:
  assumes "execute frame ucmd s = Some out"
  obtains t where "keeps (cli s) t" "only_memory (cli s) t"
    "outcome_state out = sti t \<or> (\<exists>u p. alloc_pid (procs t) = Some (u, p) \<and>
       start_process frame (running_pid s) (t\<lparr>procs := u, running_pid := p\<rparr>) = Some out)"
proof (cases "ucmd = 0")
  case True
  then show thesis using assms that [of "cli s"] by (simp add: execute_def Let_def keeps_refl) force
next
  case False
  then obtain cmd s1 d where s1: "put_bytes (cmd_at frame) cmd (cli s) = Some s1" and d: "read_dentry_by_name (cmd_at frame) s1 = Some d"
    and rest: "(case d of None \<Rightarrow> Some (Return (sti s1) (- 1))
      | Some d \<Rightarrow>
          Option.bind (read_data (inode_idx d) 0 (header_at frame) ELF_HEADER_SIZE s1) (\<lambda>(t, n).
            if n \<noteq> 4 then Some (Return (sti t) (- 1))
            else if bytes_at (vmem t) (header_at frame) 4 \<noteq> elf_header then Some (Return (sti t) (- 1))
            else case alloc_pid (procs t) of
              None \<Rightarrow> Some (Return (sti t) (- 1))
            | Some (used, p) \<Rightarrow> start_process frame (running_pid (cli s)) (t\<lparr>procs := used, running_pid := p\<rparr>))) = Some out"
    using assms by (auto simp: execute_def Let_def bind_eq_Some_conv split: if_split_asm)
  have k1: "keeps (cli s) s1" "only_memory (cli s) s1" using keeps_put [OF s1] only_memory_put_bytes [OF s1] .
  show thesis
  proof (cases d)
    case None
    then show thesis using rest that [OF k1] by auto
  next
    case (Some e)
    then obtain t n where t: "read_data (inode_idx e) 0 (header_at frame) ELF_HEADER_SIZE s1 = Some (t, n)"
      using rest by (auto simp: bind_eq_Some_conv)
    have "outcome_state out = sti t \<or> (\<exists>u p. alloc_pid (procs t) = Some (u, p) \<and>
        start_process frame (running_pid s) (t\<lparr>procs := u, running_pid := p\<rparr>) = Some out)"
      using rest Some t by (auto simp: cli_def split: if_split_asm option.split_asm)
    then show thesis
      by (rule that [OF keeps_trans [OF k1(1) keeps_read_data [OF t]] only_memory_trans [OF k1(2) only_memory_read_data [OF t]]])
  qed
qed

end

subsection \<open>All basic effects\<close>

locale kernel_frame = memory_frame keeps
  for keeps :: "'a keyboard_scheme \<Rightarrow> 'a keyboard_scheme \<Rightarrow> bool" +
  assumes scroll_law: "translate s VIDEO = Some pa \<Longrightarrow> keeps s (s\<lparr>memory := memmove (memory s) pa (pa + 160) 3840\<rparr>)"
    and port_law: "keeps s (outb value port s)"
    and flag_law: "keeps s (s\<lparr>int_flag := enabled\<rparr>)"
    and terminal_law: "(\<And>x. vid_mem_buf (f x) = vid_mem_buf x) \<Longrightarrow> keeps s (update_terminal t f s)"
    and cursor_law: "keeps s (s\<lparr>screen_x := x, screen_y := y\<rparr>)"
    and video_law: "a = VIDEO \<or> (\<exists>t. (t < 3 \<or> t = unat (current_terminal s)) \<and> a = vid_mem_buf (terminal_at t s)) \<Longrightarrow>
      keeps s (fst (map_vid_mem (ucast (pid (get_current_pcb s))) va a s))"
    and keys_law: "keeps s (s\<lparr>key_state := k, caps_lock_repeat := c, multi_byte := m, terminal_to_switch_to := n\<rparr>)"
    and dir_law: "keeps s (s\<lparr>dir_read_count := count\<rparr>)"
    and shown_law: "num < TERMINAL_NUM \<Longrightarrow> keeps s (s\<lparr>current_terminal := num\<rparr>)"
begin

subsection \<open>Flags, ports and single fields\<close>

lemma keeps_flag: "keeps s (cli s)" "keeps s (sti s)"
  using flag_law [of s False] flag_law [of s True] by (simp_all add: cli_def sti_def)

lemma keeps_screen: "keeps s (s\<lparr>screen_x := x\<rparr>)" "keeps s (s\<lparr>screen_y := y\<rparr>)"
  using cursor_law [where s = s and x = x and y = "screen_y s"] cursor_law [where s = s and x = "screen_x s" and y = y] by simp_all

lemma keeps_keyboard:
  "keeps s (s\<lparr>key_state := k\<rparr>)" "keeps s (s\<lparr>caps_lock_repeat := c\<rparr>)" "keeps s (s\<lparr>multi_byte := m\<rparr>)"
  "keeps s (s\<lparr>terminal_to_switch_to := n\<rparr>)"
  using keys_law [where s = s and k = k and c = "caps_lock_repeat s" and m = "multi_byte s" and n = "terminal_to_switch_to s"]
    keys_law [where s = s and k = "key_state s" and c = c and m = "multi_byte s" and n = "terminal_to_switch_to s"]
    keys_law [where s = s and k = "key_state s" and c = "caps_lock_repeat s" and m = m and n = "terminal_to_switch_to s"]
    keys_law [where s = s and k = "key_state s" and c = "caps_lock_repeat s" and m = "multi_byte s" and n = n] by simp_all

lemma keeps_eoi: "keeps s (send_eoi i s)"
  unfolding send_eoi_def by (simp split: if_split) (blast intro: port_law keeps_trans)

lemma keeps_cursor: "keeps s (set_cursor_location x y s)"
  unfolding set_cursor_location_def Let_def by (blast intro: port_law keeps_trans)

lemma keeps_screen_xy: "keeps s (set_screen_xy x y s)" "keeps s (set_screen_x x s)"
proof -
  have "keeps s (set_cursor_location x y (s\<lparr>screen_y := y, screen_x := x\<rparr>))"
    by (rule keeps_trans [OF _ keeps_cursor]) (use keeps_screen keeps_trans in blast)
  then show "keeps s (set_screen_xy x y s)" by (simp add: set_screen_xy_def keeps_refl)
  show "keeps s (set_screen_x x s)" unfolding set_screen_x_def
    using keeps_trans [OF keeps_screen(1) keeps_cursor] by (simp add: keeps_refl)
qed

lemma keeps_terminal_xy: "keeps s (set_terminal_screen_xy n x y s)"
  by (simp add: set_terminal_screen_xy_def keeps_refl terminal_law)

lemma keeps_remap: "keeps s (remap_video VIDEO s)"
  "t < 3 \<or> t = unat (current_terminal s) \<Longrightarrow> keeps s (remap_video (vid_mem_buf (terminal_at t s)) s)"
  unfolding remap_video_def by (rule video_law, blast)+

lemma keeps_scroll: "scroll_up s = Some s' \<Longrightarrow> keeps s s'"
  by (auto simp: scroll_up_def bind_eq_Some_conv intro: keeps_trans scroll_law keeps_blank)

subsection \<open>The screen\<close>

lemma keeps_row:
  "next_row y s = Some (s', y') \<Longrightarrow> keeps s s'" "advance x y s = Some (s', x', y') \<Longrightarrow> keeps s s'"
  by (auto simp: next_row_def advance_def Let_def map_option_eq_Some keeps_refl split: if_splits intro: keeps_scroll)

lemma keeps_clear_xy: "clear_screen_xy s = Some s' \<Longrightarrow> keeps s s'" "clear_terminal_screen_xy n s = Some s' \<Longrightarrow> keeps s s'"
  by (auto simp: clear_screen_xy_def clear_terminal_screen_xy_def Let_def keeps_refl split: if_splits intro: keeps_cell)

lemma keeps_place: "keeps s (if shown then set_screen_xy x y s else set_terminal_screen_xy n x y s)"
  by (simp add: keeps_screen_xy keeps_terminal_xy)

lemma keeps_putc_terminal: "terminal_putc n c s = Some s' \<Longrightarrow> keeps s s'"
  by (auto simp: terminal_putc_def terminal_put_char_def Let_def map_option_eq_Some bind_eq_Some_conv keeps_refl
      split: if_splits dest!: keeps_row keeps_cell keeps_clear_xy
      intro: keeps_trans keeps_screen_xy keeps_terminal_xy)

lemma keeps_screen_char: "put_screen_char c s = Some s' \<Longrightarrow> keeps s s'"
proof -
  have both: "keeps s (t\<lparr>screen_x := x, screen_y := y\<rparr>)" if "keeps s t" for t x y
    using that cursor_law by (rule keeps_trans)
  show "put_screen_char c s = Some s' \<Longrightarrow> keeps s s'"
    by (auto simp: put_screen_char_def Let_def map_option_eq_Some bind_eq_Some_conv
        split: if_splits dest!: keeps_row keeps_cell keeps_clear_xy
        intro: both keeps_trans keeps_screen_xy)
qed

text \<open>Writing through the screen's page and back to the terminal's own.\<close>

lemma keeps_putc_char:
  assumes "putc_char c s = Some s'"
  shows "keeps s s'"
proof -
  obtain r where r: "get_running_terminal s = Some r" using assms by (auto simp: putc_char_def bind_eq_Some_conv)
  show ?thesis
  proof (cases "hidden_terminal r s")
    case None
    then show ?thesis using assms r by (auto simp: putc_char_def Let_def map_option_eq_Some keeps_refl split: if_splits
        intro: keeps_trans keeps_cursor dest: keeps_screen_char)
  next
    case (Some t)
    then have "t < 3" using hidden_terminal_bound [OF r] by blast
    then show ?thesis using assms r Some by (auto simp: putc_char_def Let_def map_option_eq_Some keeps_refl split: if_splits
        dest!: keeps_screen_char intro!: keeps_trans [OF _ keeps_cursor] keeps_trans [OF _ keeps_remap(2)]
        intro: keeps_trans [OF keeps_remap(1)])
  qed
qed

lemma keeps_putc: "putc c s = Some s' \<Longrightarrow> keeps s s'"
  by (auto simp: putc_def bind_eq_Some_conv split: if_splits
      dest: keeps_putc_char intro: keeps_trans keeps_remap)

lemma keeps_clear:
  assumes "clear s = Some s'"
  shows "keeps s s'"
proof -
  obtain r where r: "get_running_terminal s = Some r" using assms by (auto simp: clear_def bind_eq_Some_conv)
  show ?thesis
  proof (cases "hidden_terminal r s")
    case None
    then show ?thesis using assms r by (auto simp: clear_def Let_def map_option_eq_Some
        intro: keeps_trans keeps_screen_xy dest: keeps_blank)
  next
    case (Some t)
    then have "t < 3" using hidden_terminal_bound [OF r] by blast
    moreover have "keeps s (remap_video VIDEO (cli s))" using keeps_flag(1) keeps_remap(1) by (rule keeps_trans)
    ultimately show ?thesis using assms r Some by (auto simp: clear_def Let_def map_option_eq_Some
        dest!: keeps_blank intro!: keeps_trans [OF _ keeps_screen_xy(1)] keeps_trans [OF _ keeps_flag(2)]
          keeps_trans [OF _ keeps_terminal_xy] keeps_trans [OF _ keeps_remap(2)] intro: keeps_trans)
  qed
qed

subsection \<open>The keyboard\<close>

lemma keeps_keys: "keeps s (note_press c s)" "keeps s (release_key c s)"
  by (auto simp: note_press_def release_key_def set_key_def intro: keeps_trans keeps_keyboard)

lemma keeps_line_fields: "keeps s (update_terminal t (\<lambda>x. x\<lparr>line_buf := l x, line_buf_index := i\<rparr>) s)"
  "keeps s (update_terminal t (\<lambda>x. x\<lparr>read_flag := v\<rparr>) s)"
  by (rule terminal_law, simp)+

lemma keeps_chars: "push_char c t s = Some s' \<Longrightarrow> keeps s s'" "pop_char t s = Some s' \<Longrightarrow> keeps s s'"
  by (auto simp: push_char_def pop_char_def Let_def bind_eq_Some_conv split: if_splits dest!: keeps_putc
      intro: keeps_trans [OF _ keeps_line_fields(1)] keeps_trans [OF keeps_line_fields(1)])

lemma keeps_request: "keeps s ((send_eoi i (note_press c s))\<lparr>terminal_to_switch_to := n\<rparr>)"
  using keeps_trans [OF keeps_trans [OF keeps_keys(1) keeps_eoi] keeps_keyboard(4)] .

lemma keeps_press:
  assumes "press_key c s = Some s'"
  shows "keeps s s'"
proof -
  have "keeps (note_press c s) s' \<or> (\<exists>n. s' = (send_eoi KEYBOARD_IRQ (note_press c s))\<lparr>terminal_to_switch_to := n\<rparr>)"
    using assms by (auto simp: press_key_def Let_def keeps_refl split: if_split_asm dest: keeps_chars keeps_clear)
  then show ?thesis using keeps_trans [OF keeps_keys(1)] keeps_request by blast
qed

lemma keeps_keypress: "irqh_keyboard st c s = Some s' \<Longrightarrow> keeps s s'"
  by (auto simp: irqh_keyboard_def handle_keypress_def map_option_eq_Some split: if_splits dest!: keeps_press
      intro: keeps_trans keeps_keys keeps_eoi keeps_keyboard)

lemma keeps_wait: "wait_newline t codes s = Some (s', n) \<Longrightarrow> keeps s s'"
proof (induction codes arbitrary: s)
  case Nil
  then show ?case by (auto simp: wait_newline.simps Let_def keeps_refl split: if_splits)
next
  case (Cons c codes)
  then show ?case
    by (subst (asm) wait_newline.simps)
      (auto simp: Let_def bind_eq_Some_conv keeps_refl split: if_splits dest: keeps_keypress intro: keeps_trans)
qed

lemma keeps_clear_line: "clear_line_buf s = Some s' \<Longrightarrow> keeps s s'"
  by (auto simp: clear_line_buf_def map_option_eq_Some keeps_refl split: option.splits intro: keeps_line_fields)

lemma keeps_line:
  assumes "get_line_buf codes buf n s = Some (s', r)"
  shows "keeps s s'"
proof -
  have "\<exists>t. keeps (update_terminal t (\<lambda>x. x\<lparr>read_flag := 1\<rparr>) s) s'" if "\<not> s' = s"
    using assms that
    by (auto simp: get_line_buf_def Let_def map_option_eq_Some bind_eq_Some_conv split: if_split_asm option.split_asm
        dest!: keeps_wait keeps_put write_law keeps_clear_line)
      (blast intro: keeps_trans keeps_line_fields(2))
  then show ?thesis using keeps_trans [OF keeps_line_fields(2)] keeps_refl by blast
qed

subsection \<open>The terminal, the clock and the directory\<close>

lemma keeps_write_loop: "write_loop t buf n s = Some s' \<Longrightarrow> keeps s s'"
  by (induction n arbitrary: buf s) (auto simp: bind_eq_Some_conv keeps_refl intro: keeps_trans keeps_putc_terminal)

lemma keeps_write:
  assumes "terminal_write buf n s = Some (s', r)"
  shows "keeps s s'"
proof -
  obtain q where q: "get_running_terminal (cli s) = Some q"
    using assms by (auto simp: terminal_write_def bind_eq_Some_conv)
  have "s' = sti (cli s) \<or> (\<exists>t. keeps (cli s) t \<and> s' = sti t)"
    using assms q by (cases q) (auto simp: terminal_write_def split: if_split_asm dest: keeps_write_loop)
  then show ?thesis using keeps_flag keeps_trans by blast
qed

lemma keeps_rtc: "keeps s (update_rtc t f s)"
  unfolding update_rtc_def by (rule terminal_law) simp

lemma keeps_tick: "keeps s (irqh_rtc s)"
proof -
  have "keeps s (fold tick_pid xs s)" for xs and s :: "'a keyboard_scheme"
    by (induction xs arbitrary: s)
      (auto simp: keeps_refl tick_pid_def split: option.split intro: keeps_trans keeps_rtc)
  then show ?thesis unfolding irqh_rtc_def ack_rtc_int_def
    by (blast intro: keeps_trans keeps_eoi port_law)
qed

lemma keeps_rtc_wait: "rtc_wait t n s = Some s' \<Longrightarrow> keeps s s'"
proof (induction n arbitrary: s)
  case 0
  then show ?case by (subst (asm) rtc_wait.simps) (simp add: keeps_refl split: if_splits)
next
  case (Suc n)
  then show ?case
    by (subst (asm) rtc_wait.simps) (auto simp: keeps_refl split: if_splits intro: keeps_trans [OF keeps_tick])
qed

lemma keeps_frequency: "set_virtual_freq_rtc f s = Some (s', r) \<Longrightarrow> keeps s s'"
  by (auto simp: set_virtual_freq_rtc_def keeps_refl split: option.splits if_splits intro: keeps_rtc)

lemma keeps_clock:
  "rtc_read n s = Some (s', r) \<Longrightarrow> keeps s s'" "rtc_write buf k s = Some (s', r) \<Longrightarrow> keeps s s'"
  "rtc_open s = Some (s', r) \<Longrightarrow> keeps s s'"
  by (auto simp: rtc_read_def rtc_write_def rtc_open_def map_option_eq_Some bind_eq_Some_conv keeps_refl
      split: option.splits if_splits dest: keeps_frequency keeps_rtc_wait intro: keeps_trans [OF keeps_rtc])

lemma keeps_dir: "dir_read stale buf n s = Some (s', r) \<Longrightarrow> keeps s s'"
  by (auto simp: dir_read_def Let_def map_option_eq_Some split: if_splits dest!: keeps_put intro: keeps_trans dir_law)

lemma keeps_getargs: "getargs buf n s = Some (s', r) \<Longrightarrow> keeps s s'"
  by (auto simp: getargs_def Let_def map_option_eq_Some keeps_refl split: if_splits option.splits intro: keeps_put)

lemma keeps_vidmap:
  assumes "vidmap p s = Some (s', r)"
  shows "keeps s s'"
proof (cases "p = 0 \<or> p < PG_4M_START * 2")
  case True
  then show ?thesis using assms by (auto simp: vidmap_def keeps_refl)
next
  case False
  then obtain s1 where s1: "put_bytes p (word_bytes VIDMAP_ADDR) s = Some s1" using assms
    by (auto simp: vidmap_def bind_eq_Some_conv)
  obtain q where run: "get_running_terminal s1 = Some q" using assms False s1
    by (auto simp: vidmap_def bind_eq_Some_conv)
  show ?thesis
  proof (cases q)
    case None
    then show ?thesis using assms False s1 run keeps_put [OF s1] by (auto simp: vidmap_def)
  next
    case (Some t)
    let ?s = "update_terminal t (\<lambda>t. t\<lparr>vidmapped := 1\<rparr>) s1"
    let ?a = "if term_id (terminal_at t s1) = current_terminal s1 then VIDEO else vid_mem_buf (terminal_at t s1)"
    have "vid_mem_buf (terminal_at t ?s) = vid_mem_buf (terminal_at t s1)"
      by (cases "t < length (terminals s1)") (simp_all add: terminal_at_def update_terminal_def list_update_beyond)
    then have "keeps ?s (fst (map_vid_mem (ucast (pid (get_current_pcb ?s))) (load32 (vmem ?s) p) ?a ?s))"
      using running_terminal_bound [of s1 t] run Some by (intro video_law) auto
    moreover have "s' = fst (map_vid_mem (ucast (pid (get_current_pcb ?s))) (load32 (vmem ?s) p) ?a ?s)"
      using assms False s1 run Some by (auto simp: vidmap_def Let_def prod_eq_iff)
    moreover have "keeps s1 ?s" by (rule terminal_law) simp
    ultimately show ?thesis using keeps_put [OF s1] keeps_trans by blast
  qed
qed

subsection \<open>Formatted output\<close>

lemma keeps_puts_loop: "puts_loop a i s = Some r \<Longrightarrow> keeps s (fst r)"
proof (rule puts_loop.raw_induct [where P = "\<lambda>a i s r. keeps s (fst r)"])
  fix f a i s r
  assume ih: "\<And>a i s r. f a i s = Some r \<Longrightarrow> keeps s (fst r)"
    and step: "(case translate s (a + of_int i) of None \<Rightarrow> None
      | Some pa \<Rightarrow> if memory s pa \<noteq> 0 then Option.bind (putc (memory s pa) s) (f a (i + 1)) else Some (s, i)) = Some r"
  then show "keeps s (fst r)"
    by (cases r) (auto simp: bind_eq_Some_conv keeps_refl split: option.split_asm if_split_asm dest!: keeps_putc intro: keeps_trans)
qed

lemma keeps_puts: "puts a s = Some (s', n) \<Longrightarrow> keeps s s'"
  using keeps_puts_loop [of a 0 s] by (auto simp: puts_def)

lemma keeps_number: "store_number v a radix s = Some s' \<Longrightarrow> keeps s s'" "print_number a v radix s = Some s' \<Longrightarrow> keeps s s'"
proof -
  show store: "store_number v a radix s = Some s' \<Longrightarrow> keeps s s'" for s s'
    by (auto simp: store_number_def bind_eq_Some_conv intro: keeps_put)
  show "print_number a v radix s = Some s' \<Longrightarrow> keeps s s'"
    by (auto simp: print_number_def bind_eq_Some_conv dest!: store intro: keeps_trans keeps_puts)
qed

lemma keeps_signed: "print_padded a v s = Some s' \<Longrightarrow> keeps s s'" "print_signed a v s = Some s' \<Longrightarrow> keeps s s'"
proof -
  show "print_padded a v s = Some s' \<Longrightarrow> keeps s s'"
    by (auto simp: print_padded_def bind_eq_Some_conv dest!: keeps_number(1) keeps_put keeps_puts) (blast intro: keeps_trans)
  show "print_signed a v s = Some s' \<Longrightarrow> keeps s s'"
    by (auto simp: print_signed_def bind_eq_Some_conv split: if_split_asm dest!: keeps_number write_law keeps_puts)
      (blast intro: keeps_trans)
qed

lemma keeps_conversion:
  assumes "print_conversion a alt c args s = Some (s', rest)"
  shows "keeps s s'"
  using assms by (cases args)
    (auto simp: print_conversion_def keeps_refl split: if_split_asm
      dest!: keeps_putc keeps_number(2) keeps_signed keeps_puts)

lemma keeps_spec: "printf_spec a alt buf args s = Some r \<Longrightarrow> keeps s (fst r)"
proof (rule printf_spec.raw_induct [where P = "\<lambda>a alt buf args s r. keeps s (fst r)"])
  fix f a alt buf args s and r :: "_ \<times> u32 \<times> u32 list"
  assume ih: "\<And>a alt buf args s r. f a alt buf args s = Some r \<Longrightarrow> keeps s (fst r)"
    and step: "Option.bind (fetch buf s) (\<lambda>c. if c = 0x23 then f a True (buf + 1) args s
      else map_option (\<lambda>(s, args). (s, buf, args)) (print_conversion a alt c args s)) = Some r"
  then show "keeps s (fst r)"
    by (cases r) (auto simp: bind_eq_Some_conv split: if_split_asm dest: keeps_conversion)
qed

lemma keeps_printf_loop: "printf_loop a buf args s = Some r \<Longrightarrow> keeps s (fst r)"
proof (rule printf_loop.raw_induct [where P = "\<lambda>a buf args s r. keeps s (fst r)"])
  fix f a buf args s and r :: "_ \<times> u32"
  assume ih: "\<And>a buf args s r. f a buf args s = Some r \<Longrightarrow> keeps s (fst r)"
    and step: "Option.bind (fetch buf s) (\<lambda>c. if c = 0 then Some (s, buf)
      else if c = 0x25 then Option.bind (printf_spec a False (buf + 1) args s) (\<lambda>(s, buf, args). f a (buf + 1) args s)
      else Option.bind (putc c s) (f a (buf + 1) args)) = Some r"
  then show "keeps s (fst r)"
    by (auto simp: bind_eq_Some_conv keeps_refl split: if_split_asm dest!: ih keeps_spec keeps_putc intro: keeps_trans)
qed

lemma keeps_printf: "printf a format args s = Some (s', n) \<Longrightarrow> keeps s s'"
  by (auto simp: printf_def dest!: keeps_printf_loop)

subsection \<open>Switching terminals and the calls on devices\<close>

lemma keeps_restore:
  assumes "restore_terminal n s = Some s'"
  shows "keeps s s'"
proof (cases "n < TERMINAL_NUM")
  case False
  then show ?thesis using assms by (simp add: restore_terminal_def not_less keeps_refl)
next
  case True
  let ?s = "update_terminal (unat (current_terminal s)) (\<lambda>t. t\<lparr>term_x := get_screen_x s, term_y := get_screen_y s\<rparr>) s"
  let ?t = "terminal_at (unat n) ?s"
  let ?v = "remap_video VIDEO (set_screen_xy (term_x ?t) (term_y ?t) ?s)"
  let ?prev = "vid_mem_buf (terminal_at (unat (current_terminal s)) ?v)"
  have "keeps s ?s" by (rule terminal_law) simp
  then have v: "keeps s ?v" using keeps_trans keeps_screen_xy(1) keeps_remap(1) by blast
  obtain s1 s2 where copies: "copy_object ?prev VIDEO SCREEN_BYTES ?v = Some s1"
      "copy_object VIDEO (vid_mem_buf ?t) SCREEN_BYTES s1 = Some s2"
    and s': "s' = remap_video (vid_mem_buf (terminal_at (unat (current_terminal s)) s2)) s2"
    using assms True by (auto simp: restore_terminal_def Let_def not_le [symmetric] bind_eq_Some_conv map_option_eq_Some)
  have "current_terminal s2 = current_terminal ?v"
    using only_memory_terms(2) [OF only_memory_copy [OF copies(1)]] only_memory_terms(2) [OF only_memory_copy [OF copies(2)]]
    by simp
  then have "current_terminal s2 = current_terminal s" by (simp only: remap_video_shown) simp
  then have "keeps s2 s'" unfolding s' by (intro keeps_remap(2)) simp
  moreover have "keeps s s2" using keeps_trans [OF v keeps_copy [OF copies(1)]] keeps_copy [OF copies(2)] by (rule keeps_trans)
  ultimately show ?thesis by (rule keeps_trans [rotated])
qed

lemma keeps_switch: "switch_terminal n s = Some s' \<Longrightarrow> keeps s s'"
proof -
  have mark: "keeps s (update_terminal t (\<lambda>x. x\<lparr>status := v\<rparr>) s)" for t v s by (rule terminal_law) simp
  assume "switch_terminal n s = Some s'"
  then have "s' = s \<or> (\<exists>s1. n < TERMINAL_NUM \<and> restore_terminal n (cli s) = Some s1 \<and>
      s' = sti (update_terminal (unat n) (\<lambda>t. t\<lparr>status := TASK_RUNNING\<rparr>) (s1\<lparr>current_terminal := n\<rparr>)))"
    by (auto simp: switch_terminal_def map_option_eq_Some not_le split: if_split_asm)
  then show "keeps s s'"
    using keeps_refl keeps_trans [OF keeps_flag(1)] keeps_restore keeps_trans [OF _ shown_law] keeps_trans [OF _ mark]
      keeps_trans [OF _ keeps_flag(2)] by blast
qed

lemma keeps_ops:
  "ops_open ops name s = Some (s', r) \<Longrightarrow> keeps s s'"
  "ops_write ops fd buf n s = Some (s', r) \<Longrightarrow> keeps s s'"
  "ops \<noteq> Fs_fops \<Longrightarrow> ops_read env ops fd buf n s = Some (s', r) \<Longrightarrow> keeps s s'"
  by (cases ops; auto simp: terminal_open_def dir_open_def terminal_read_def keeps_refl dir_law
      dest: keeps_clock keeps_write keeps_line keeps_dir)+

lemma keeps_sys_write: "sys_write fd buf n s = Some (s', r) \<Longrightarrow> keeps s s'"
  by (auto simp: sys_write_def keeps_refl split: if_split_asm dest: keeps_ops(2))

end

subsection \<open>The calls on files\<close>

text \<open>A call that opens nothing changes nothing.\<close>

lemma sys_open_opens:
  assumes "sys_open name s = Some (s', r)"
  shows "s' = s \<or> (\<exists>d fd ops. next_fd s = Some fd \<and> fops_of_type (filetype d) = Some ops \<and>
    open_fd name d fd ops s = Some (s', r))"
proof (cases "read_dentry_by_name name s")
  case None
  then show ?thesis using assms by (auto simp: sys_open_def bind_eq_Some_conv split: if_split_asm)
next
  case (Some e)
  then show ?thesis using assms
    by (cases e; cases "next_fd s"; cases "fops_of_type (filetype (the e))")
      (auto simp: sys_open_def bind_eq_Some_conv split: if_split_asm)
qed

locale file_frame = kernel_frame keeps
  for keeps :: "'a keyboard_scheme \<Rightarrow> 'a keyboard_scheme \<Rightarrow> bool" +
  assumes fd_law: "keeps s (update_fd fd f s)"
begin

lemma keeps_close: "keeps s (fst (sys_close fd s))"
  by (simp add: sys_close_def keeps_refl fd_law)

lemma keeps_close_all: "keeps s (close_all s)"
proof -
  have "keeps s (fold (\<lambda>i s. fst (sys_close (int i) s)) xs s)" for xs s
    by (induction xs arbitrary: s) (auto simp: keeps_refl intro: keeps_trans keeps_close)
  then show ?thesis unfolding close_all_def .
qed

lemma keeps_sys_read:
  assumes "sys_read env fd buf n s = Some (s', r)"
  shows "keeps s s'"
proof -
  have content: "keeps t t'" if "file_read k buf m t = Some (t', x)" for k m x t t'
    using that by (auto simp: file_read_def Let_def bind_eq_Some_conv keeps_refl split: if_split_asm
        dest!: keeps_read_data intro: keeps_trans fd_law)
  have "keeps t t'" if "ops_read env ops k buf n t = Some (t', x)" for ops k x t t'
    using that content keeps_ops(3) [of ops] by (cases "ops = Fs_fops") auto
  then show ?thesis using assms
    by (auto simp: sys_read_def keeps_refl split: if_split_asm intro: keeps_trans keeps_flag)
qed

lemma keeps_sys_open:
  assumes "sys_open name s = Some (s', r)"
  shows "keeps s s'"
proof -
  have "keeps t t'" if "open_fd name d fd ops t = Some (t', x)" for d fd ops x t t'
    using that by (auto simp: open_fd_def bind_eq_Some_conv split: if_split_asm dest!: keeps_ops(1))
      (meson fd_law keeps_trans)+
  then show ?thesis using sys_open_opens [OF assms] keeps_refl by blast
qed

text \<open>Every system call but \<^verbatim>\<open>halt\<close> and \<^verbatim>\<open>execute\<close>.\<close>

lemma keeps_call:
  assumes "irqh_syscall env frame type arg1 arg2 arg3 s = Some out" "type \<noteq> 1" "type \<noteq> 2"
  shows "keeps s (outcome_state out)"
  using assms keeps_close [of s "sint arg1"]
  by (auto simp: irqh_syscall_def returned_def split_beta map_option_eq_Some keeps_refl split: if_split_asm
      dest: keeps_sys_read keeps_sys_write keeps_sys_open keeps_getargs keeps_vidmap)

end

end
