(* ===== verification/Descriptors.thy ===== *)
theory Descriptors
  imports Programs Kernel_Frame
begin

text \<open>
  Type soundness of the descriptor tables over all system calls. What leaves the process blocks
  alone is an instance of \<open>kernel_frame\<close>; opening, closing, starting and ending
  processes are shown to keep every table well typed.
\<close>

subsection \<open>What leaves the process blocks alone\<close>

definition same_blocks :: "'a process_scheme \<Rightarrow> 'b process_scheme \<Rightarrow> bool" where
  "same_blocks s s' \<longleftrightarrow> pcbs s' = pcbs s \<and> running_pid s' = running_pid s"

lemma blocks_flag [simp]: "pcbs (cli s) = pcbs s" "pcbs (sti s) = pcbs s"
  by (simp_all add: cli_def sti_def)

lemma blocks_memory:
  fixes s :: "'a fs_scheme"
  shows "only_memory s s' \<Longrightarrow> same_blocks s s'"
  using only_memory_fields [of s s'] by (simp add: same_blocks_def)

lemma blocks_put:
  fixes s :: "'a fs_scheme"
  shows "put_bytes a bs s = Some s' \<Longrightarrow> same_blocks s s'"
  by (blast intro: blocks_memory only_memory_put_bytes)

interpretation blocks: kernel_frame "same_blocks :: 'a keyboard_scheme \<Rightarrow> 'a keyboard_scheme \<Rightarrow> bool"
  by unfold_locales
    (auto simp: same_blocks_def outb_def update_terminal_def map_vid_mem_def Let_def cli_def sti_def
      dest: blocks_memory [OF only_memory_put_byte])

subsection \<open>Well-typed descriptor tables\<close>

text \<open>
  A descriptor in use has the operations of its kind: the first two those of the terminal, the
  others those of a file, a directory or the clock, and only a file has an inode.
\<close>

definition entry_typed :: "nat \<Rightarrow> file_desc \<Rightarrow> bool" where
  "entry_typed i f \<longleftrightarrow> flags f AND FD_IN_USE = 0 \<or>
     (case jumptable f of
        None \<Rightarrow> False
      | Some ops \<Rightarrow> if ops = Std_in_fops then i = 0 else if ops = Std_out_fops then i = 1
          else 2 \<le> i \<and> (ops = Fs_fops \<or> inode f = 0))"

definition table_typed :: "file_desc list \<Rightarrow> bool" where
  "table_typed l \<longleftrightarrow> length l = FD_CNT \<and> (\<forall>i<FD_CNT. entry_typed i (l ! i))"

definition tables_typed :: "'a process_scheme \<Rightarrow> bool" where
  "tables_typed s \<longleftrightarrow> (\<forall>p. table_typed (fds (pcbs s p)))"

lemma tables_typed_same: "same_blocks s s' \<Longrightarrow> tables_typed s' = tables_typed s"
  by (simp add: tables_typed_def same_blocks_def)

lemma tables_typed_kept: "same_blocks s s' \<Longrightarrow> tables_typed s \<Longrightarrow> tables_typed s'"
  by (simp add: tables_typed_same)

lemma tables_typed_pcbs: "tables_typed s \<Longrightarrow> pcbs s' = pcbs s \<Longrightarrow> tables_typed s'"
  by (simp add: tables_typed_def)

lemma tables_typed_update_pcb:
  "tables_typed s \<Longrightarrow> (\<And>b. table_typed (fds b) \<Longrightarrow> table_typed (fds (g b))) \<Longrightarrow> tables_typed (update_pcb p g s)"
  by (simp add: tables_typed_def)

lemma tables_typed_update_fd:
  assumes "tables_typed s" "fd < 8 \<Longrightarrow> entry_typed fd (g (fd_at fd s))"
  shows "tables_typed (update_fd fd g s)"
proof -
  have table: "table_typed (l[fd := x])" if "table_typed l" "fd < 8 \<Longrightarrow> entry_typed fd x" for l x
    using that by (cases "fd < 8") (auto simp: table_typed_def nth_list_update)
  show ?thesis unfolding tables_typed_def
  proof
    fix p
    have "table_typed (fds (pcbs s p))" using assms(1) by (simp add: tables_typed_def)
    moreover have "table_typed ((fds (pcbs s (running_pid s)))[fd := g (fd_at fd s)])"
      by (rule table) (use assms in \<open>simp_all add: tables_typed_def\<close>)
    ultimately show "table_typed (fds (pcbs (update_fd fd g s) p))"
      by (simp add: update_fd_def fd_at_def get_current_pcb_def)
  qed
qed

lemma fd_typed: "tables_typed s \<Longrightarrow> fd < 8 \<Longrightarrow> entry_typed fd (fd_at fd s)"
  by (simp add: tables_typed_def table_typed_def fd_at_def get_current_pcb_def)

lemma std_fds_typed: "table_typed std_fds"
proof -
  have "entry_typed i (std_fds ! i)" if "i < 8" for i
    using that by (simp add: std_fds_def entry_typed_def del: upt_rec_numeral)
  then show ?thesis by (simp add: table_typed_def std_fds_def del: upt_rec_numeral)
qed

subsection \<open>The calls on files\<close>

lemma typed_file_read:
  assumes "tables_typed s" "file_read fd buf n s = Some (s', r)"
  shows "tables_typed s'"
proof (cases "flags (fds (get_current_pcb s) ! fd) AND FD_IN_USE = 0")
  case True
  then show ?thesis using assms by (simp add: file_read_def Let_def)
next
  case False
  then obtain off k s1 b where read: "read_data (inode (fds (get_current_pcb s) ! fd)) off buf k s = Some (s1, b)"
    and s': "s' = (if b \<ge> 0 then update_fd fd (\<lambda>f. f\<lparr>file_position := file_position f + of_int b\<rparr>) s1 else s1)"
    using assms(2) by (auto simp: file_read_def Let_def bind_eq_Some_conv)
  have "tables_typed s1" using tables_typed_same [OF blocks_memory [OF only_memory_read_data [OF read]]] assms(1) by simp
  moreover have "entry_typed i (f\<lparr>file_position := x\<rparr>) = entry_typed i f" for i f x
    by (simp add: entry_typed_def split: option.split)
  ultimately show ?thesis using fd_typed by (auto simp: s' intro!: tables_typed_update_fd)
qed

lemma typed_sys_read:
  assumes "tables_typed s" "sys_read env fd buf n s = Some (s', r)"
  shows "tables_typed s'"
proof -
  have "tables_typed (sti s)" using assms(1) by (rule tables_typed_pcbs) simp
  then have "tables_typed s'" if "ops_read env ops k buf n (sti s) = Some (s', r)" for ops k
    using that
    by (cases ops) (auto simp: terminal_read_def dest: tables_typed_kept [OF blocks.keeps_line] tables_typed_kept [OF blocks.keeps_clock(1)]
        tables_typed_kept [OF blocks.keeps_dir] typed_file_read)
  then show ?thesis using assms by (auto simp: sys_read_def split: if_splits)
qed

lemma typed_sys_write:
  fixes s :: "'a keyboard_scheme"
  shows "tables_typed s \<Longrightarrow> sys_write fd buf n s = Some (s', r) \<Longrightarrow> tables_typed s'"
  using tables_typed_kept [OF blocks.keeps_sys_write] by blast

lemma typed_sys_close: "tables_typed s \<Longrightarrow> tables_typed (fst (sys_close fd s))"
  by (auto simp: sys_close_def entry_typed_def intro!: tables_typed_update_fd)

lemma typed_open_fd:
  assumes typed: "tables_typed s" and free: "2 \<le> fd" "flags (fd_at fd s) AND FD_IN_USE = 0"
    and ops: "fops_of_type (filetype d) = Some ops" and call: "open_fd name d fd ops s = Some (s', r)"
  shows "tables_typed s'"
proof -
  let ?s0 = "update_fd fd (\<lambda>f. f\<lparr>jumptable := Some ops\<rparr>) s"
  obtain s1 x where s1: "ops_open ops name ?s0 = Some (s1, x)"
    and s': "s' = (if x = - 1 then update_fd fd (\<lambda>f. f\<lparr>jumptable := None\<rparr>) s1
      else update_fd fd (\<lambda>f. f\<lparr>flags := FD_IN_USE, inode := (if filetype d = FT_REG then inode_idx d else 0),
        file_position := 0\<rparr>) s1)"
    using call by (auto simp: open_fd_def bind_eq_Some_conv split: if_splits)
  have keeps: "x = 0" "pcbs s1 = pcbs ?s0" "running_pid s1 = running_pid ?s0" using ops_open_keeps [OF s1] by auto
  have "tables_typed ?s0" by (rule tables_typed_update_fd [OF typed]) (use free in \<open>simp add: entry_typed_def\<close>)
  then have "tables_typed s1" using keeps(2) by (rule tables_typed_pcbs)
  moreover have "jumptable (fd_at fd s1) = Some ops" if "fd < 8"
  proof -
    have "fd < length (fds (get_current_pcb s))"
      using typed that by (simp add: tables_typed_def table_typed_def get_current_pcb_def)
    then show ?thesis using fd_at_cong [OF keeps(2,3)] by (simp add: fd_at_update)
  qed
  ultimately show ?thesis
    unfolding s' using keeps(1) free(1) ops
    by (auto simp: entry_typed_def fops_of_type_def split: if_splits intro!: tables_typed_update_fd)
qed

lemma typed_sys_open:
  assumes "tables_typed s" "sys_open name s = Some (s', r)"
  shows "tables_typed s'"
  using sys_open_opens [OF assms(2)] next_fd_Some(1,3) typed_open_fd [OF assms(1)] assms(1) by blast

subsection \<open>Starting and ending processes\<close>

lemma typed_setup_pcb:
  assumes "tables_typed s" "setup_pcb frame parent s = Some s'"
  shows "tables_typed s'"
proof -
  obtain s2 t where tm: "terminal_for_new (fill_block frame s) = (s2, Some t)"
    and s': "s' = (link_block parent t s2)\<lparr>tss_esp0 := kernel_stack (ucast (running_pid s2))\<rparr>"
    using assms(2) by (auto simp: setup_pcb_def split: prod.split_asm option.split_asm)
  have "tables_typed (fill_block frame s)"
    unfolding fill_block_def Let_def using assms(1) std_fds_typed by (auto intro: tables_typed_update_pcb)
  then have "tables_typed s2" using terminal_for_new_keeps(1) [OF tm] by (rule tables_typed_pcbs)
  then have "tables_typed (link_block parent t s2)"
    unfolding link_block_def Let_def by (auto intro!: tables_typed_update_pcb)
  then show ?thesis unfolding s' by (rule tables_typed_pcbs) simp
qed

lemma typed_start_process:
  assumes "tables_typed s" "start_process frame parent s = Some out"
  shows "tables_typed (outcome_state out)"
proof -
  have name: "tables_typed s2 = tables_typed s1" if "file_read_name a b c e s1 = Some (s2, n)"
    for a b c e n and s1 s2 :: "'a terms_scheme"
    using tables_typed_same [OF blocks_memory [OF only_memory_read_name [OF that]]] .
  have dir: "tables_typed s2 = tables_typed s1" if "make_task_pgdir p s1 = (s2, n)" for p n and s1 s2 :: "'a terms_scheme"
    using make_task_pgdir_keeps(3) [OF that] by (simp add: tables_typed_def)
  have sti: "tables_typed (sti s1) = tables_typed s1" for s1 :: "'a terms_scheme" by (simp add: tables_typed_def)
  show ?thesis using assms
    by (auto simp: start_process_def bind_eq_Some_conv map_option_eq_Some Let_def sti split: if_splits prod.splits
        dest!: name dir intro: typed_setup_pcb)
qed

lemma typed_execute:
  assumes "tables_typed s" "execute frame ucmd s = Some out"
  shows "tables_typed (outcome_state out)"
proof -
  have put: "tables_typed s2 = tables_typed s1" if "put_bytes a bs s1 = Some s2" for a bs and s1 s2 :: "'a terms_scheme"
    using tables_typed_same [OF blocks_put [OF that]] .
  have data: "tables_typed s2 = tables_typed s1" if "read_data a b c e s1 = Some (s2, n)"
    for a b c e n and s1 s2 :: "'a terms_scheme"
    using tables_typed_same [OF blocks_memory [OF only_memory_read_data [OF that]]] .
  have same: "tables_typed (sti s1) = tables_typed s1" "tables_typed (cli s1) = tables_typed s1"
    "tables_typed (s1\<lparr>procs := u, running_pid := p\<rparr>) = tables_typed s1" for u p and s1 :: "'a terms_scheme"
    by (simp_all add: tables_typed_def)
  have start: "tables_typed (outcome_state out)"
    if "start_process frame q (s1\<lparr>procs := u, running_pid := p\<rparr>) = Some out" "tables_typed s1" for q u p s1
    using typed_start_process [OF _ that(1)] that(2) by (simp add: same)
  show ?thesis using assms
    by (auto simp: execute_def bind_eq_Some_conv Let_def same split: if_split_asm option.split_asm
        dest!: put data) (rule start)
qed

lemma typed_close_all: "tables_typed s \<Longrightarrow> tables_typed (close_all s)"
proof -
  have "tables_typed s \<Longrightarrow> tables_typed (fold (\<lambda>i s. fst (sys_close (int i) s)) xs s)" for xs :: "nat list" and s :: "'a process_scheme"
    by (induction xs arbitrary: s) (simp_all add: typed_sys_close)
  then show "tables_typed s \<Longrightarrow> tables_typed (close_all s)" unfolding close_all_def .
qed

lemma typed_remove: "remove_task_pgdir p s = Some (s', n) \<Longrightarrow> pcbs s' = pcbs (s :: 'a process_scheme)"
  by (auto simp: remove_task_pgdir_def Let_def split: if_splits)

lemma typed_flush: "flush_tlb s = Some s' \<Longrightarrow> pcbs s' = pcbs s"
  by (auto simp: flush_tlb_def Let_def split: if_splits)

lemma typed_halt_to_parent:
  assumes "tables_typed s" "halt_to_parent stat term s = Some out"
  shows "tables_typed (outcome_state out)"
proof -
  let ?r = "if program_exception s \<noteq> 0 then PROCESS_KILLED_BY_EXCEPTION else ucast stat"
  have "tables_typed (update_pcb (running_pid s) (\<lambda>x. x\<lparr>child_return := ?r\<rparr>) s)"
    by (rule tables_typed_update_pcb [OF assms(1)]) simp
  moreover have "pcbs (outcome_state out) = pcbs (update_pcb (running_pid s) (\<lambda>x. x\<lparr>child_return := ?r\<rparr>) s)"
    using assms(2)
    by (auto simp: halt_to_parent_def Let_def bind_eq_Some_conv set_program_exception_def split: option.split_asm
        dest!: typed_remove typed_flush)
  ultimately show ?thesis by (rule tables_typed_pcbs)
qed

lemma typed_halt_restart:
  assumes "tables_typed s" "halt_restart frame term s = Some out"
  shows "tables_typed (outcome_state out)"
proof -
  obtain t where "execute frame (shell_at frame) (update_terminal (unat (current_terminal s)) (\<lambda>t. t\<lparr>running := 0\<rparr>)
               (s\<lparr>tss_esp0 := kernel_stack (term_pid (terminal_at t s))\<rparr>)) = Some out"
    using assms(2) by (auto simp: halt_restart_def split: option.split_asm outcome.split_asm)
  then show ?thesis by (rule typed_execute [rotated]) (use assms(1) in \<open>simp add: tables_typed_def\<close>)
qed

lemma typed_halt:
  assumes "tables_typed s" "halt frame stat s = Some out"
  shows "tables_typed (outcome_state out)"
proof -
  let ?s1 = "case parent_pcb (pcbs s (running_pid s)) of None \<Rightarrow> s | Some q \<Rightarrow> update_pcb q (\<lambda>x. x\<lparr>child_pcb := None\<rparr>) s"
  have "tables_typed ?s1" using assms(1) by (auto split: option.split intro!: tables_typed_update_pcb)
  then have closed: "tables_typed (close_all ?s1)" by (rule typed_close_all)
  have "tables_typed ((close_all ?s1)\<lparr>procs := x\<rparr>)" for x using closed by (rule tables_typed_pcbs) simp
  then show ?thesis using assms(2)
    by (auto simp: halt_def Let_def bind_eq_Some_conv split: if_split_asm intro: typed_halt_to_parent typed_halt_restart)
qed

lemma typed_syscall:
  assumes "tables_typed s" "irqh_syscall env frame type arg1 arg2 arg3 s = Some out"
  shows "tables_typed (outcome_state out)"
  using assms typed_sys_close [of s "sint arg1"]
  by (auto simp: irqh_syscall_def returned_def split_beta map_option_eq_Some split: if_split_asm
      dest: typed_halt typed_execute typed_sys_read typed_sys_write typed_sys_open
        tables_typed_kept [OF blocks.keeps_getargs] tables_typed_kept [OF blocks.keeps_vidmap])

subsection \<open>Property\<close>

text \<open>
  C8: Type soundness of the descriptor tables: whichever system call a program makes, with
  whatever arguments, and however it leaves (with a value, into a new program or back in the parent), every descriptor
  in use in any process still has the operations of its kind. A call through a descriptor that passed the
  kernel's check is never a call through a null table, keyboard input reaches only
  descriptor 0, and only file descriptors name an inode.
\<close>

theorem descriptor_tables_typed:
  assumes "tables_typed s" "irqh_syscall env frame type arg1 arg2 arg3 s = Some out"
  shows "tables_typed (outcome_state out)"
  using assms by (rule typed_syscall)

lemma demo_tables_typed: "tables_typed (demo_keyboard [])"
proof -
  have "entry_typed i (demo_fds ! i)" if "i < 8" for i
    using that by (auto simp: less_Suc_eq numeral_eq_Suc demo_fds_def idle_fd_def entry_typed_def)
  then have "table_typed demo_fds" by (simp add: table_typed_def demo_fds_def)
  then show ?thesis by (simp add: tables_typed_def blank_pcb_def)
qed

lemma descriptor_tables_typed_witness:
  "\<exists>s'. irqh_syscall idle_env demo_frame 6 2 0 0 (demo_keyboard []) = Some (Return s' 0) \<and> tables_typed s'"
proof -
  have "fd_usable 2 (demo_keyboard [])"
    by (simp add: fd_usable_def fd_at_def get_current_pcb_def blank_pcb_def demo_fds_def)
  then obtain s' where s': "irqh_syscall idle_env demo_frame 6 2 0 0 (demo_keyboard []) = Some (Return s' 0)"
    by (simp add: irqh_syscall_def returned_def sys_close_def)
  from descriptor_tables_typed [OF demo_tables_typed s'] s' show ?thesis by simp
qed

end
