(* ===== verification/Idt.thy ===== *)
theory Idt
  imports Scheduler Printf
begin

text \<open>
  \<^verbatim>\<open>student-distrib/idt.c\<close>: the interrupt descriptor table and the handlers of the
  processor's exceptions, which its macros make from the list in
  \<^verbatim>\<open>idt_asm.S\<close>. The addresses of the assembly entry points are assigned by the
  linker; they are an argument. The processor's reading of a descriptor is the reference.
\<close>

abbreviation KERNEL_CS :: u16 where "KERNEL_CS \<equiv> 0x10"
abbreviation IDT_EXC_CNT :: nat where "IDT_EXC_CNT \<equiv> 32"
abbreviation IDT_PIT :: nat where "IDT_PIT \<equiv> 0x20"
abbreviation IDT_KEYBOARD :: nat where "IDT_KEYBOARD \<equiv> 0x21"
abbreviation IDT_RTC :: nat where "IDT_RTC \<equiv> 0x28"
abbreviation IDT_SYSCALL :: nat where "IDT_SYSCALL \<equiv> 0x80"
abbreviation NUM_VEC :: nat where "NUM_VEC \<equiv> 256"
abbreviation DPL0 :: "2 word" where "DPL0 \<equiv> 0"
abbreviation DPL3 :: "2 word" where "DPL3 \<equiv> 3"

record idt_desc =
  offset_15_00 :: u16
  seg_selector :: u16
  reserved4 :: u8
  reserved3 :: bool
  reserved2 :: bool
  reserved1 :: bool
  size_bit :: bool
  reserved0 :: bool
  dpl :: "2 word"
  present :: bool
  offset_31_16 :: u16

datatype gate_type = Task_gate | Int_gate | Trap_gate

primrec gate_val :: "gate_type \<Rightarrow> u32" where
  "gate_val Task_gate = 5"
| "gate_val Int_gate = 6"
| "gate_val Trap_gate = 7"

datatype exc =
    Exc_de | Exc_db | Exc_nmi | Exc_bp | Exc_of | Exc_br | Exc_ud | Exc_nm | Exc_df | Exc_cso | Exc_ts
  | Exc_np | Exc_ss | Exc_gp | Exc_pf | Exc_af | Exc_mf | Exc_ac | Exc_mc | Exc_xf | Exc_ve | Exc_sx

datatype handler = Exc exc | Irqh_pit | Irqh_keyboard | Irqh_rtc | Irqh_syscall

text \<open>The table of exception handlers; the entries it does not name are null.\<close>

definition exc_handlers :: "handler option list" where
  "exc_handlers =
     map (\<lambda>e. Some (Exc e))
       [Exc_de, Exc_db, Exc_nmi, Exc_bp, Exc_of, Exc_br, Exc_ud, Exc_nm, Exc_df, Exc_cso, Exc_ts,
        Exc_np, Exc_ss, Exc_gp, Exc_pf, Exc_af, Exc_mf, Exc_ac, Exc_mc, Exc_xf, Exc_ve]
     @ replicate 9 None @ [Some (Exc Exc_sx), None]"

definition handler_addr :: "(handler \<Rightarrow> u32) \<Rightarrow> handler option \<Rightarrow> u32" where
  "handler_addr addr h = (case h of None \<Rightarrow> 0 | Some h \<Rightarrow> addr h)"

definition make_idt_desc :: "u32 \<Rightarrow> u16 \<Rightarrow> gate_type \<Rightarrow> 2 word \<Rightarrow> idt_desc" where
  "make_idt_desc h selector g level =
     \<lparr>offset_15_00 = ucast (h AND 0xFFFF), seg_selector = selector, reserved4 = 0,
      reserved3 = bit (gate_val g) 0, reserved2 = bit (gate_val g) 1, reserved1 = bit (gate_val g) 2,
      size_bit = True, reserved0 = (gate_val g = 5), dpl = level, present = True,
      offset_31_16 = ucast (drop_bit 16 (h AND 0xFFFF0000))\<rparr>"

record kernel = scheduler +
  idt :: "idt_desc list"

definition init_idt :: "(handler \<Rightarrow> u32) \<Rightarrow> 'a kernel_scheme \<Rightarrow> 'a kernel_scheme" where
  "init_idt addr s =
     (let t = fold (\<lambda>i t. t[i := make_idt_desc (handler_addr addr (exc_handlers ! i)) KERNEL_CS Int_gate DPL0])
            [0..<IDT_EXC_CNT] (idt s);
          t = t[IDT_PIT := make_idt_desc (addr Irqh_pit) KERNEL_CS Int_gate DPL0];
          t = t[IDT_KEYBOARD := make_idt_desc (addr Irqh_keyboard) KERNEL_CS Int_gate DPL0];
          t = t[IDT_RTC := make_idt_desc (addr Irqh_rtc) KERNEL_CS Int_gate DPL0];
          t = t[IDT_SYSCALL := make_idt_desc (addr Irqh_syscall) KERNEL_CS Int_gate DPL3]
      in s\<lparr>idt := t\<rparr>)"

subsection \<open>The exception handlers\<close>

text \<open>Which handlers clear the screen, and which exceptions push an error code.\<close>

definition exc_clears :: "exc \<Rightarrow> bool" where
  "exc_clears e \<longleftrightarrow> e \<noteq> Exc_pf \<and> e \<noteq> Exc_af"

definition exc_errc :: "exc \<Rightarrow> bool" where
  "exc_errc e \<longleftrightarrow> e = Exc_gp \<or> e = Exc_pf"

text \<open>
  The words a handler prints, out of those the processor pushed, the last one first. The handler's structure has
  the error code in front of the instruction pointer, the code segment and the flags, or it has not.
\<close>

definition int_stack :: "exc \<Rightarrow> u32 list \<Rightarrow> u32 list" where
  "int_stack e pushed =
     (if exc_errc e then [pushed ! 0, pushed ! 1, pushed ! 3] else [pushed ! 0, pushed ! 2])"

text \<open>
  A handler, given the address of its message's format, the address of
  \<^verbatim>\<open>printf\<close>'s buffer and the words the processor pushed.
\<close>

definition exc_handler ::
  "exec_frame \<Rightarrow> u32 \<Rightarrow> u32 \<Rightarrow> exc \<Rightarrow> u32 list \<Rightarrow> 'a terms_scheme \<Rightarrow> 'a terms_scheme outcome option"
where
  "exc_handler frame conv_buf message e pushed s =
     Option.bind (if exc_clears e then clear s else Some s) (\<lambda>s.
     Option.bind (printf conv_buf message (int_stack e pushed) s) (\<lambda>(s, _).
       halt frame 1 (set_program_exception 1 s)))"

subsection \<open>The processor's reading of a descriptor\<close>

text \<open>The two words of a descriptor, as the union of \<^verbatim>\<open>x86_desc.h\<close> lays it out.\<close>

definition desc_words :: "idt_desc \<Rightarrow> u32 \<times> u32" where
  "desc_words d =
     (ucast (offset_15_00 d) OR push_bit 16 (ucast (seg_selector d)),
      ucast (reserved4 d) OR push_bit 8 (of_bool (reserved3 d)) OR push_bit 9 (of_bool (reserved2 d)) OR
      push_bit 10 (of_bool (reserved1 d)) OR push_bit 11 (of_bool (size_bit d)) OR push_bit 12 (of_bool (reserved0 d)) OR
      push_bit 13 (ucast (dpl d)) OR push_bit 15 (of_bool (present d)) OR push_bit 16 (ucast (offset_31_16 d)))"

text \<open>
  The architecture's fields: offset, selector, the five type bits, privilege level, present.
  Type 14 is a 32-bit interrupt gate, 15 a trap gate and 5 a task gate.
\<close>

definition read_gate :: "u32 \<times> u32 \<Rightarrow> u32 \<times> u16 \<times> u32 \<times> 2 word \<times> bool" where
  "read_gate w =
     (take_bit 16 (fst w) OR push_bit 16 (drop_bit 16 (snd w)), ucast (drop_bit 16 (fst w)),
      take_bit 5 (drop_bit 8 (snd w)), ucast (drop_bit 13 (snd w)), bit (snd w) 15)"

text \<open>The instruction \<^verbatim>\<open>int n\<close> at a privilege level: the handler it reaches, or a fault.\<close>

definition software_interrupt :: "idt_desc list \<Rightarrow> nat \<Rightarrow> nat \<Rightarrow> u32 option" where
  "software_interrupt t cpl n =
     (case read_gate (desc_words (t ! n)) of
        (offset, selector, type, level, p) \<Rightarrow> if p \<and> cpl \<le> unat level then Some offset else None)"

subsection \<open>What the processor reads\<close>

text \<open>The second word of a descriptor: constant bits, the privilege level and the high half of the address.\<close>

lemma second_word:
  fixes level :: "2 word" and hi :: u16 and c :: u32
  assumes "c < 0x10000" "\<not> bit c 13" "\<not> bit c 14"
  defines "w \<equiv> c OR push_bit 13 (ucast level) OR push_bit 16 (ucast hi)"
  shows "drop_bit 16 w = ucast hi" "take_bit 5 (drop_bit 8 w) = take_bit 5 (drop_bit 8 c)"
    "(ucast (drop_bit 13 w) :: 2 word) = level" "bit w 15 = bit c 15"
proof -
  have c: "drop_bit 16 c = 0" using assms(1) by (simp add: drop_bit_eq_div word_unat_eq_iff unat_div word_less_nat_alt)
  have level: "\<not> bit level n" if "2 \<le> n" for n using bit_imp_le_length [of level n] that by auto
  have hi: "\<not> bit hi n" if "16 \<le> n" for n using bit_imp_le_length [of hi n] that by auto
  have "drop_bit 16 (push_bit 13 (ucast level) :: u32) = 0"
    by (rule bit_word_eqI) (auto simp: bit_simps dest: bit_imp_le_length)
  moreover have "drop_bit 16 (push_bit 16 (ucast hi) :: u32) = ucast hi"
    by (rule bit_word_eqI) (auto simp: bit_simps dest: bit_imp_le_length)
  ultimately show "drop_bit 16 w = ucast hi" by (simp add: w_def drop_bit_or c)
  show "take_bit 5 (drop_bit 8 w) = take_bit 5 (drop_bit 8 c)"
    unfolding w_def by (rule bit_word_eqI) (auto simp: bit_simps)
  have b15: "bit (push_bit 16 (ucast hi) :: u32) n = (16 \<le> n \<and> bit hi (n - 16))" 
    "bit (push_bit 13 (ucast level) :: u32) n = (13 \<le> n \<and> bit level (n - 13))" if "n < 32" for n
    using that by (auto simp: bit_simps dest: bit_imp_le_length)
  show "bit w 15 = bit c 15" using level by (simp add: w_def bit_or_iff b15)
  have "bit w 13 = bit level 0" "bit w 14 = bit level 1"
    unfolding w_def bit_or_iff using assms(2,3) b15 [of 13] b15 [of 14] by simp_all
  then have "bit (ucast (drop_bit 13 w) :: 2 word) n = bit level n" if "n < 2" for n
    using that by (cases "n = 0") (auto simp: bit_simps less_Suc_eq numeral_2_eq_2)
  then show "(ucast (drop_bit 13 w) :: 2 word) = level" by (intro bit_word_eqI) simp
qed

lemma idt_entry_fields:
  "read_gate (desc_words (make_idt_desc h selector g level)) =
     (h, selector, (case g of Task_gate \<Rightarrow> 0x1D | Int_gate \<Rightarrow> 0xE | Trap_gate \<Rightarrow> 0xF), level, True)"
proof -
  define c :: u32 where "c = (case g of Task_gate \<Rightarrow> 0x9D00 | Int_gate \<Rightarrow> 0x8E00 | Trap_gate \<Rightarrow> 0x8F00)"
  let ?lo = "ucast (h AND 0xFFFF) :: u16" and ?hi = "ucast (drop_bit 16 (h AND 0xFFFF0000)) :: u16"
  have words: "desc_words (make_idt_desc h selector g level) =
      (ucast ?lo OR push_bit 16 (ucast selector), c OR push_bit 13 (ucast level) OR push_bit 16 (ucast ?hi))"
    by (cases g) (simp_all add: desc_words_def make_idt_desc_def c_def ac_simps flip: or.assoc)
  have c: "c < 0x10000" "\<not> bit c 13" "\<not> bit c 14" "bit c 15"
    "take_bit 5 (drop_bit 8 c) = (case g of Task_gate \<Rightarrow> 0x1D | Int_gate \<Rightarrow> 0xE | Trap_gate \<Rightarrow> 0xF)"
    by (cases g; simp add: c_def drop_bit_eq_div take_bit_eq_mod)+
  note w = second_word [OF c(1-3), of level ?hi]
  have first: "take_bit 16 (ucast ?lo OR push_bit 16 (ucast selector) :: u32) = ucast ?lo"
    "(ucast (drop_bit 16 (ucast ?lo OR push_bit 16 (ucast selector) :: u32)) :: u16) = selector"
    by (rule bit_word_eqI, auto simp: bit_simps dest: bit_imp_le_length)+
  have m: "(0xFFFF :: u32) = mask 16" "(0xFFFF0000 :: u32) = NOT (mask 16)" by (simp_all add: mask_eq_exp_minus_1)
  have "(ucast ?lo :: u32) OR push_bit 16 (ucast ?hi) = h"
    unfolding m by (rule bit_word_eqI) (auto simp: bit_simps)
  then show ?thesis unfolding words read_gate_def fst_conv snd_conv w first using c(4,5) by simp
qed

subsection \<open>The table\<close>

lemma fold_update_nth:
  "length t = k \<Longrightarrow> n \<le> k \<Longrightarrow> i < k \<Longrightarrow> fold (\<lambda>i t. t[i := f i]) [0..<n] t ! i = (if i < n then f i else t ! i)"
  "length (fold (\<lambda>i t. t[i := f i]) [0..<n] t) = length t"
  by (induction n) (auto simp: nth_list_update less_Suc_eq)

text \<open>The handler and the privilege level of each vector that \<^const>\<open>init_idt\<close> fills.\<close>

definition vector_handler :: "nat \<Rightarrow> handler option" where
  "vector_handler n =
     (if n < 32 then exc_handlers ! n else if n = IDT_PIT then Some Irqh_pit
      else if n = IDT_KEYBOARD then Some Irqh_keyboard else if n = IDT_RTC then Some Irqh_rtc
      else if n = IDT_SYSCALL then Some Irqh_syscall else None)"

lemma init_idt_nth:
  assumes "length (idt s) = NUM_VEC" "n < NUM_VEC"
  shows "idt (init_idt addr s) ! n =
    (if n < 32 \<or> n \<in> {IDT_PIT, IDT_KEYBOARD, IDT_RTC, IDT_SYSCALL}
     then make_idt_desc (handler_addr addr (vector_handler n)) KERNEL_CS Int_gate (if n = IDT_SYSCALL then DPL3 else DPL0)
     else idt s ! n)"
proof -
  let ?d = "\<lambda>i. make_idt_desc (handler_addr addr (exc_handlers ! i)) KERNEL_CS Int_gate DPL0"
  let ?t = "fold (\<lambda>i t. t[i := ?d i]) [0..<IDT_EXC_CNT] (idt s)"
  note t = fold_update_nth(1) [OF assms(1), of 32 _ ?d] fold_update_nth(2) [of ?d 32 "idt s"]
  have "idt (init_idt addr s) = ?t[IDT_PIT := make_idt_desc (addr Irqh_pit) KERNEL_CS Int_gate DPL0,
      IDT_KEYBOARD := make_idt_desc (addr Irqh_keyboard) KERNEL_CS Int_gate DPL0,
      IDT_RTC := make_idt_desc (addr Irqh_rtc) KERNEL_CS Int_gate DPL0,
      IDT_SYSCALL := make_idt_desc (addr Irqh_syscall) KERNEL_CS Int_gate DPL3]"
    by (simp add: init_idt_def Let_def del: upt_rec_numeral)
  moreover have "?t ! n = (if n < 32 then ?d n else idt s ! n)" using t(1) [of n] assms(2) by simp
  ultimately show ?thesis using assms t(2)
    by (simp add: nth_list_update vector_handler_def handler_addr_def del: upt_rec_numeral)
qed

text \<open>Intel's number of each exception.\<close>

primrec exc_vector :: "exc \<Rightarrow> nat" where
  "exc_vector Exc_de = 0" | "exc_vector Exc_db = 1" | "exc_vector Exc_nmi = 2" | "exc_vector Exc_bp = 3"
| "exc_vector Exc_of = 4" | "exc_vector Exc_br = 5" | "exc_vector Exc_ud = 6" | "exc_vector Exc_nm = 7"
| "exc_vector Exc_df = 8" | "exc_vector Exc_cso = 9" | "exc_vector Exc_ts = 10" | "exc_vector Exc_np = 11"
| "exc_vector Exc_ss = 12" | "exc_vector Exc_gp = 13" | "exc_vector Exc_pf = 14" | "exc_vector Exc_af = 15"
| "exc_vector Exc_mf = 16" | "exc_vector Exc_ac = 17" | "exc_vector Exc_mc = 18" | "exc_vector Exc_xf = 19"
| "exc_vector Exc_ve = 20" | "exc_vector Exc_sx = 30"

lemma vector_of_exception: "exc_vector e < 32 \<and> vector_handler (exc_vector e) = Some (Exc e)"
  by (cases e) (simp_all add: vector_handler_def exc_handlers_def nth_append)

lemma reserved_handlers: "n \<in> {21..29} \<or> n = 31 \<Longrightarrow> vector_handler n = None"
proof -
  assume n: "n \<in> {21..29} \<or> n = 31"
  then have "n < 32" by auto
  moreover have "exc_handlers ! n = None"
  proof (cases "n = 31")
    case False
    with n have "21 \<le> n" "n - 21 < 9" by auto
    then show ?thesis by (simp add: exc_handlers_def nth_append)
  qed (simp add: exc_handlers_def nth_append)
  ultimately show ?thesis by (simp add: vector_handler_def)
qed

definition gate_at :: "'a kernel_scheme \<Rightarrow> nat \<Rightarrow> u32 \<times> u16 \<times> u32 \<times> 2 word \<times> bool" where
  "gate_at s n = read_gate (desc_words (idt s ! n))"

subsection \<open>Properties\<close>

text \<open>
  C32: After \<^verbatim>\<open>init_idt\<close> the processor finds, at the vector Intel gives each
  exception and at the three device vectors, an interrupt gate of privilege level 0 to the
  matching handler, and at vector 128 one of level 3 to the system call handler.
\<close>

theorem vectors_reach_their_handlers:
  assumes "length (idt s) = NUM_VEC"
  shows "gate_at (init_idt addr s) (exc_vector e) = (addr (Exc e), KERNEL_CS, 0xE, DPL0, True) \<and>
    gate_at (init_idt addr s) IDT_PIT = (addr Irqh_pit, KERNEL_CS, 0xE, DPL0, True) \<and>
    gate_at (init_idt addr s) IDT_KEYBOARD = (addr Irqh_keyboard, KERNEL_CS, 0xE, DPL0, True) \<and>
    gate_at (init_idt addr s) IDT_RTC = (addr Irqh_rtc, KERNEL_CS, 0xE, DPL0, True) \<and>
    gate_at (init_idt addr s) IDT_SYSCALL = (addr Irqh_syscall, KERNEL_CS, 0xE, DPL3, True)"
proof -
  have exc: "exc_vector e < 32" "vector_handler (exc_vector e) = Some (Exc e)" using vector_of_exception by simp_all
  then show ?thesis
    by (simp add: gate_at_def init_idt_nth [OF assms(1)] idt_entry_fields handler_addr_def vector_handler_def)
qed

definition demo_kernel :: kernel where
  "demo_kernel = scheduler.extend demo_sched
     \<lparr>idt = replicate NUM_VEC \<lparr>offset_15_00 = 0, seg_selector = 0, reserved4 = 0, reserved3 = False, reserved2 = False,
        reserved1 = False, size_bit = False, reserved0 = False, dpl = 0, present = False, offset_31_16 = 0\<rparr>\<rparr>"

lemma demo_kernel_idt: "length (idt demo_kernel) = NUM_VEC" "\<forall>n<NUM_VEC. desc_words (idt demo_kernel ! n) = (0, 0)"
  by (simp_all add: demo_kernel_def scheduler.extend_def desc_words_def)

lemma vectors_reach_their_handlers_witness:
  "gate_at (init_idt (\<lambda>_. 0x400100) demo_kernel) 14 = (0x400100, KERNEL_CS, 0xE, DPL0, True)"
  using vectors_reach_their_handlers [OF demo_kernel_idt(1), of "\<lambda>_. 0x400100" Exc_pf] by simp

text \<open>
  C20: With a table that was empty before, a program can enter the kernel by a software
  interrupt only through vector 128, and there it reaches the system call handler.
\<close>

theorem user_code_enters_by_system_call_only:
  assumes "length (idt s) = NUM_VEC" "\<forall>n<NUM_VEC. desc_words (idt s ! n) = (0, 0)" "n < NUM_VEC"
  shows "software_interrupt (idt (init_idt addr s)) 3 n = (if n = IDT_SYSCALL then Some (addr Irqh_syscall) else None)"
proof (cases "n < 32 \<or> n \<in> {IDT_PIT, IDT_KEYBOARD, IDT_RTC, IDT_SYSCALL}")
  case True
  then show ?thesis
    by (auto simp: software_interrupt_def init_idt_nth [OF assms(1,3)] idt_entry_fields handler_addr_def vector_handler_def)
next
  case False
  then show ?thesis using assms
    by (auto simp: software_interrupt_def init_idt_nth [OF assms(1,3)] read_gate_def)
qed

lemma user_code_enters_by_system_call_only_witness:
  "software_interrupt (idt (init_idt (\<lambda>_. 0x400100) demo_kernel)) 3 14 = None"
  using user_code_enters_by_system_call_only [OF demo_kernel_idt, of 14 "\<lambda>_. 0x400100"] by simp

text \<open>
  The vectors that Intel reserves get gates that are present and lead to address 0, because
  the table of handlers has no entry for them.
\<close>

theorem reserved_vectors_lead_to_null:
  assumes "length (idt s) = NUM_VEC" "n \<in> {21..29} \<or> n = 31"
  shows "gate_at (init_idt addr s) n = (0, KERNEL_CS, 0xE, DPL0, True)"
proof -
  have "n < 32" using assms(2) by auto
  then show ?thesis using init_idt_nth [OF assms(1), of n addr] reserved_handlers [OF assms(2)]
    by (simp add: gate_at_def idt_entry_fields handler_addr_def)
qed

lemma reserved_vectors_lead_to_null_witness:
  "gate_at (init_idt (\<lambda>_. 0x400100) demo_kernel) 21 = (0, KERNEL_CS, 0xE, DPL0, True)"
  using reserved_vectors_lead_to_null [OF demo_kernel_idt(1), of 21 "\<lambda>_. 0x400100"] by simp

subsection \<open>An exception in a program\<close>

lemma clear_shown:
  assumes ok: "putc_ok pa s"
  shows "\<exists>s'. clear s = Some s' \<and> prints_only s s' \<and> putc_ok pa s' \<and> within pa s s' \<and>
    screen_of pa s' = (replicate 2000 blank, 0, 0)"
proof -
  obtain "term" where run: "get_running_terminal s = Some term" "hidden_terminal term s = None"
    and scr: "screen_ok pa s" using ok by (auto simp: putc_ok_def)
  have map: "mapped_at s VIDEO 4000 pa" using scr by (simp add: screen_ok_def)
  obtain m where m: "blank_cells VIDEO 2000 s = Some (s\<lparr>memory := m\<rparr>)" "cells_of m pa = replicate 2000 blank"
    using blank_cells_screen [OF map, of 0 2000] by auto
  let ?s' = "set_screen_xy 0 0 (s\<lparr>memory := m\<rparr>)"
  have "clear s = Some ?s'" using run m(1) by (simp add: clear_def)
  moreover have "prints_only s ?s'" by (simp add: set_screen_xy_simps)
  moreover have "within pa s ?s'" using blank_cells_within [OF map, of 0 2000 "s\<lparr>memory := m\<rparr>"] m(1) by simp
  moreover have "putc_ok pa ?s'"
    by (rule putc_ok_frame [OF _ ok]) (simp_all add: set_screen_xy_simps)
  ultimately show ?thesis using m(2) by (auto simp: screen_of_def set_screen_xy_simps)
qed

lemma runs_on_prints: "prints_only s s' \<Longrightarrow> runs_on s p t \<Longrightarrow> runs_on s' p t"
  using runs_on_links [of s p t s'] by (simp add: prints_only_def same_links_def)

text \<open>
  C17: An exception in a program that another one started shows its message on the displayed screen, which it
  clears first unless it is a page fault or an assertion, and ends that program only: its parent
  goes on in its own \<^verbatim>\<open>execute\<close>, which returns 256.
\<close>

theorem exception_ends_the_program:
  assumes print: "putc_ok pa s" "conv_buffer cb cbase pa s" "text_at pa cbase message cs s" "length cs < 2147483648"
      "render (\<lambda>_. None) None cs (int_stack e pushed) = Some t"
    and halt: "unat (running_pid s) < 8" "unat q < 8" "running_pid s \<noteq> q"
      "pid (get_current_pcb s) = ucast (running_pid s)" "parent_pid (get_current_pcb s) = int (unat q)"
      "parent_pcb (get_current_pcb s) = Some q" "pid (pcbs s q) = ucast q" "runs_on s (running_pid s) u"
  shows "\<exists>s'. exc_handler frame cb message e pushed s =
      Some (Resume s' (parent_ksp (get_current_pcb s)) (parent_kbp (get_current_pcb s)) 256) \<and>
    screen_of pa s' = fold screen_put t (if e = Exc_pf \<or> e = Exc_af then screen_of pa s else (replicate 2000 blank, 0, 0)) \<and>
    running_pid s' = q \<and> used_pids (procs s') = used_pids (procs s) - {unat (running_pid s)} \<and>
    child_pcb (pcbs s' q) = None"
proof -
  let ?args = "int_stack e pushed"
  let ?before = "if e = Exc_pf \<or> e = Exc_af then screen_of pa s else (replicate 2000 blank, 0, 0)"
  obtain s1 where s1: "(if exc_clears e then clear s else Some s) = Some s1" "prints_only s s1" "putc_ok pa s1" "within pa s s1"
      "screen_of pa s1 = ?before"
    using clear_shown [OF print(1)] print(1) by (cases "exc_clears e") (auto simp: exc_clears_def)
  have tr: "translate s1 = translate s" by (rule prints_only_translate [OF s1(2)])
  have buf: "conv_buffer cb cbase pa s1" using print(2) tr by (simp add: conv_buffer_def mapped_at_def)
  have msg: "text_at pa cbase message cs s1"
    by (rule text_at_cong [OF tr print(3)]) (use s1(4) in \<open>simp add: within_def\<close>)
  have "console_ready pa cb cbase (\<lambda>_. None) s1" using s1(3) buf by (simp add: console_ready_def)
  from run_format_prints [OF this msg, of 0 None ?args t] print(5)
  obtain s2 where s2: "printf_loop cb message ?args s1 = Some (s2, message + of_nat (length cs))" "printed pa cbase t s1 s2"
    by (auto simp: run_format_def)
  let ?s3 = "set_program_exception 1 s2"
  have same: "pcbs s2 = pcbs s" "running_pid s2 = running_pid s" "procs s2 = procs s"
    using s1(2) s2(2) by (simp_all add: printed_def prints_only_def)
  have fields: "pcbs ?s3 = pcbs s" "running_pid ?s3 = running_pid s" "procs ?s3 = procs s" "get_current_pcb ?s3 = get_current_pcb s"
    "program_exception ?s3 = 1"
    by (simp_all add: set_program_exception_def same get_current_pcb_def)
  have "runs_on s2 (running_pid s) u" 
    using runs_on_prints [OF _ runs_on_prints [OF s1(2) halt(8)], of s2] s2(2) by (simp add: printed_def)
  then have "runs_on ?s3 (running_pid s) u"
    using runs_on_links [of s2 "running_pid s" u ?s3] by (simp add: same_links_def set_program_exception_def)
  then obtain s' where "halt frame 1 ?s3 = Some (Resume s' (parent_ksp (get_current_pcb s)) (parent_kbp (get_current_pcb s)) 256)"
    "running_pid s' = q" "procs s' = free_pid (ucast (running_pid s)) (procs s)" "child_pcb (pcbs s' q) = None"
    "memory s' = memory ?s3" "screen_x s' = screen_x ?s3" "screen_y s' = screen_y ?s3"
    using halt_result [of ?s3 q u frame 1, unfolded fields] halt by auto
  moreover have "exc_handler frame cb message e pushed s = halt frame 1 ?s3"
    using s1(1) s2(1) by (simp add: exc_handler_def printf_def)
  moreover have "screen_of pa ?s3 = fold screen_put t ?before"
    using s2(2) s1(5) by (simp add: printed_def screen_of_def set_program_exception_def)
  then have "screen_of pa s' = fold screen_put t ?before" if "memory s' = memory ?s3" "screen_x s' = screen_x ?s3" "screen_y s' = screen_y ?s3"
    for s' :: "'a terms_scheme" using that by (simp add: screen_of_def)
  ultimately show ?thesis by (auto simp: used_pids_free unat_ucast8)
qed

lemma exception_ends_the_program_witness:
  "\<exists>s'. exc_handler demo_frame 0x700000 0x600000 Exc_de [0x8048000, 0x23, 0x202] (demo_console [0x21]) = Some (Resume s' 0 0 256) \<and>
    running_pid s' = 0 \<and> screen_of VIDEO s' = screen_put 0x21 (replicate 2000 blank, 0, 0)"
proof -
  let ?s = "demo_console [0x21]"
  note ready = demo_console_ready [of "[0x21]", simplified]
  have same: "running_pid ?s = 2" "pcbs ?s = pcbs demo_terms" "terminals ?s = terminals demo_terms"
    by (simp_all add: demo_console_def del: demo_terms_fields(6,7))
  have "runs_on ?s (running_pid ?s) 0"
    using runs_on_links [OF demo_terms_runs, of ?s] by (simp add: same_links_def same)
  moreover have "render (\<lambda>_. None) None [0x21] [0x8048000, 0x202] = Some [0x21]" by simp
  ultimately show ?thesis
    using exception_ends_the_program [OF ready, of Exc_de "[0x8048000, 0x23, 0x202]" "[0x21]" 0 0 demo_frame]
    by (auto simp: int_stack_def exc_errc_def same get_current_pcb_def blank_pcb_def)
qed

text \<open>
  A descriptor from \<^verbatim>\<open>make_idt_desc\<close> reads back as the handler, selector and
  privilege level it was made from, and as an interrupt or a trap gate when one was asked for;
  asked for a task gate, whose type is 5, it makes a descriptor of the reserved type 29.
\<close>

theorem descriptor_reads_back:
  "read_gate (desc_words (make_idt_desc h selector g level)) =
     (h, selector, (case g of Task_gate \<Rightarrow> 0x1D | Int_gate \<Rightarrow> 0xE | Trap_gate \<Rightarrow> 0xF), level, True)"
  by (rule idt_entry_fields)

end
