(* ===== verification/Boot.thy ===== *)
theory Boot
  imports Idt
begin

text \<open>
  The start of the kernel: \<^verbatim>\<open>entry\<close> of \<^verbatim>\<open>student-distrib/kernel.c\<close> from
  the segment descriptors on, the layout of the descriptors in \<^verbatim>\<open>x86_desc.h\<close>, and
  the property that the machine is set up when the first shell is executed. What is printed before paging is on
  is not modelled: that part addresses memory physically, and the screen is cleared afterwards.
\<close>

abbreviation KERNEL_DS :: u16 where "KERNEL_DS \<equiv> 0x18"
abbreviation KERNEL_TSS :: u16 where "KERNEL_TSS \<equiv> 0x30"
abbreviation KERNEL_LDT :: u16 where "KERNEL_LDT \<equiv> 0x38"
abbreviation TSS_SIZE :: u32 where "TSS_SIZE \<equiv> 104"

subsection \<open>Segment descriptors\<close>

record seg_desc =
  seg_lim_15_00 :: u16
  base_15_00 :: u16
  base_23_16 :: u8
  seg_type :: "4 word"
  seg_sys :: bool
  seg_dpl :: "2 word"
  seg_present :: bool
  seg_lim_19_16 :: "4 word"
  avail :: bool
  seg_reserved :: bool
  opsize :: bool
  granularity :: bool
  base_31_24 :: u8

text \<open>The two macros, which are the same.\<close>

definition set_ldt_params :: "u32 \<Rightarrow> u32 \<Rightarrow> seg_desc \<Rightarrow> seg_desc" where
  "set_ldt_params addr lim d = d\<lparr>base_31_24 := ucast (drop_bit 24 (addr AND 0xFF000000)),
     base_23_16 := ucast (drop_bit 16 (addr AND 0x00FF0000)), base_15_00 := ucast (addr AND 0x0000FFFF),
     seg_lim_19_16 := ucast (drop_bit 16 (lim AND 0x000F0000)), seg_lim_15_00 := ucast (lim AND 0x0000FFFF)\<rparr>"

definition set_tss_params :: "u32 \<Rightarrow> u32 \<Rightarrow> seg_desc \<Rightarrow> seg_desc" where
  "set_tss_params addr lim d = d\<lparr>base_31_24 := ucast (drop_bit 24 (addr AND 0xFF000000)),
     base_23_16 := ucast (drop_bit 16 (addr AND 0x00FF0000)), base_15_00 := ucast (addr AND 0x0000FFFF),
     seg_lim_19_16 := ucast (drop_bit 16 (lim AND 0x000F0000)), seg_lim_15_00 := ucast (lim AND 0x0000FFFF)\<rparr>"

text \<open>The two words of a segment descriptor and the fields the processor finds in them.\<close>

definition seg_words :: "seg_desc \<Rightarrow> u32 \<times> u32" where
  "seg_words d =
     (ucast (seg_lim_15_00 d) OR push_bit 16 (ucast (base_15_00 d)),
      ucast (base_23_16 d) OR push_bit 8 (ucast (seg_type d)) OR push_bit 12 (of_bool (seg_sys d)) OR
      push_bit 13 (ucast (seg_dpl d)) OR push_bit 15 (of_bool (seg_present d)) OR push_bit 16 (ucast (seg_lim_19_16 d)) OR
      push_bit 20 (of_bool (avail d)) OR push_bit 21 (of_bool (seg_reserved d)) OR push_bit 22 (of_bool (opsize d)) OR
      push_bit 23 (of_bool (granularity d)) OR push_bit 24 (ucast (base_31_24 d)))"

definition seg_base :: "u32 \<times> u32 \<Rightarrow> u32" where
  "seg_base w = drop_bit 16 (fst w) OR push_bit 16 (take_bit 8 (snd w)) OR push_bit 24 (drop_bit 24 (snd w))"

definition seg_limit :: "u32 \<times> u32 \<Rightarrow> u32" where
  "seg_limit w = take_bit 16 (fst w) OR push_bit 16 (take_bit 4 (drop_bit 16 (snd w)))"

definition seg_kind :: "u32 \<times> u32 \<Rightarrow> u32" where
  "seg_kind w = take_bit 8 (drop_bit 8 (snd w))"

text \<open>The descriptor of the local table and of the task state, made for the GDT.\<close>

definition make_ldt_desc :: "u32 \<Rightarrow> u32 \<Rightarrow> seg_desc" where
  "make_ldt_desc addr lim = set_ldt_params addr lim
     \<lparr>seg_lim_15_00 = 0, base_15_00 = 0, base_23_16 = 0, seg_type = 2, seg_sys = False, seg_dpl = 0, seg_present = True,
      seg_lim_19_16 = 0, avail = False, seg_reserved = False, opsize = True, granularity = False, base_31_24 = 0\<rparr>"

definition make_tss_desc :: "u32 \<Rightarrow> u32 \<Rightarrow> seg_desc" where
  "make_tss_desc addr lim = set_tss_params addr lim
     \<lparr>seg_lim_15_00 = ucast (TSS_SIZE AND 0x0000FFFF), base_15_00 = 0, base_23_16 = 0, seg_type = 9, seg_sys = False,
      seg_dpl = 0, seg_present = True, seg_lim_19_16 = ucast (TSS_SIZE AND 0x000F0000), avail = False,
      seg_reserved = False, opsize = False, granularity = False, base_31_24 = 0\<rparr>"

text \<open>A second word whose middle bits are the constant \<open>c\<close>.\<close>

lemma middle_bits:
  fixes lo hi :: u8 and c :: u32
  assumes c: "take_bit 8 c = 0" "drop_bit 24 c = 0"
  defines "w \<equiv> ucast lo OR c OR push_bit 24 (ucast hi)"
  shows "take_bit 8 w = ucast lo" "drop_bit 24 w = ucast hi" "take_bit 16 (drop_bit 8 w) = take_bit 16 (drop_bit 8 c)"
proof -
  have lo: "take_bit 8 (ucast lo :: u32) = ucast lo" "drop_bit 24 (ucast lo :: u32) = 0" "drop_bit 8 (ucast lo :: u32) = 0"
    by (rule bit_word_eqI, auto simp: bit_simps dest: bit_imp_le_length)+
  have hi: "take_bit 8 (push_bit 24 (ucast hi) :: u32) = 0" "drop_bit 24 (push_bit 24 (ucast hi) :: u32) = ucast hi"
    "take_bit 16 (drop_bit 8 (push_bit 24 (ucast hi) :: u32)) = 0"
    by (rule bit_word_eqI, auto simp: bit_simps dest: bit_imp_le_length)+
  show "take_bit 8 w = ucast lo" "drop_bit 24 w = ucast hi" "take_bit 16 (drop_bit 8 w) = take_bit 16 (drop_bit 8 c)"
    by (simp_all add: w_def c lo hi)
qed

lemma base_parts:
  fixes addr :: u32
  shows "ucast (ucast (addr AND 0x0000FFFF) :: u16) OR push_bit 16 (ucast (ucast (drop_bit 16 (addr AND 0x00FF0000)) :: u8)) OR
    push_bit 24 (ucast (ucast (drop_bit 24 (addr AND 0xFF000000)) :: u8)) = addr"
proof -
  have m: "(0xFF000000 :: u32) = push_bit 24 (mask 8)" "(0x00FF0000 :: u32) = push_bit 16 (mask 8)" "(0xFFFF :: u32) = mask 16"
    by (simp_all add: mask_eq_exp_minus_1 push_bit_eq_mult)
  show ?thesis unfolding m
  proof (rule bit_word_eqI)
    fix n assume "n < LENGTH(32)"
    then consider "n < 16" | "16 \<le> n" "n < 24" | "24 \<le> n" "n < 32" by fastforce
    then show "bit (ucast (ucast (addr AND mask 16) :: u16) OR push_bit 16 (ucast (ucast (drop_bit 16 (addr AND push_bit 16 (mask 8))) :: u8)) OR
        push_bit 24 (ucast (ucast (drop_bit 24 (addr AND push_bit 24 (mask 8))) :: u8)) :: u32) n = bit addr n"
      by cases (auto simp: bit_simps)
  qed
qed

lemma first_word:
  fixes lo hi :: u16
  shows "drop_bit 16 (ucast lo OR push_bit 16 (ucast hi) :: u32) = ucast hi" 
    "take_bit 16 (ucast lo OR push_bit 16 (ucast hi) :: u32) = ucast lo"
  by (rule bit_word_eqI, auto simp: bit_simps dest: bit_imp_le_length)+

lemma kernel_segments:
  "seg_base (seg_words (make_ldt_desc addr 31)) = addr" "seg_limit (seg_words (make_ldt_desc addr 31)) = 31"
  "seg_kind (seg_words (make_ldt_desc addr 31)) = 0x82"
  "seg_base (seg_words (make_tss_desc addr 103)) = addr" "seg_limit (seg_words (make_tss_desc addr 103)) = 103"
  "seg_kind (seg_words (make_tss_desc addr 103)) = 0x89"
proof -
  let ?lo = "ucast (addr AND 0x0000FFFF) :: u16" and ?mid = "ucast (drop_bit 16 (addr AND 0x00FF0000)) :: u8"
    and ?hi = "ucast (drop_bit 24 (addr AND 0xFF000000)) :: u8"
  have flat: "512 OR (32768 OR (4194304 OR x)) = 4227584 OR x" "2304 OR (32768 OR x) = 35072 OR x" for x :: u32
    by (simp_all flip: or.assoc)
  have words: "seg_words (make_ldt_desc addr 31) =
      (ucast (31 :: u16) OR push_bit 16 (ucast ?lo), ucast ?mid OR 0x408200 OR push_bit 24 (ucast ?hi))"
    "seg_words (make_tss_desc addr 103) =
      (ucast (103 :: u16) OR push_bit 16 (ucast ?lo), ucast ?mid OR 0x8900 OR push_bit 24 (ucast ?hi))"
    by (simp_all add: seg_words_def make_ldt_desc_def make_tss_desc_def set_ldt_params_def set_tss_params_def flat)
  have c: "take_bit 8 (0x408200 :: u32) = 0" "drop_bit 24 (0x408200 :: u32) = 0" "take_bit 8 (0x8900 :: u32) = 0"
    "drop_bit 24 (0x8900 :: u32) = 0"
    by (simp_all add: take_bit_eq_mod drop_bit_eq_div)
  note mid = middle_bits [OF c(1,2), of ?mid ?hi] middle_bits [OF c(3,4), of ?mid ?hi]
  have kind: "take_bit 8 (drop_bit 8 w) = take_bit 8 (take_bit 16 (drop_bit 8 w))"
    "take_bit 4 (drop_bit 16 w) = take_bit 4 (drop_bit 8 (take_bit 16 (drop_bit 8 w)))" for w :: u32
    by (rule bit_word_eqI, auto simp: bit_simps)+
  show "seg_base (seg_words (make_ldt_desc addr 31)) = addr" "seg_base (seg_words (make_tss_desc addr 103)) = addr"
    unfolding words seg_base_def fst_conv snd_conv mid first_word by (rule base_parts)+
  show "seg_limit (seg_words (make_ldt_desc addr 31)) = 31" "seg_limit (seg_words (make_tss_desc addr 103)) = 103"
    "seg_kind (seg_words (make_ldt_desc addr 31)) = 0x82" "seg_kind (seg_words (make_tss_desc addr 103)) = 0x89"
    unfolding words seg_limit_def seg_kind_def fst_conv snd_conv kind mid first_word
    by (simp_all add: take_bit_eq_mod drop_bit_eq_div)
qed

subsection \<open>The order of the start\<close>

record computer = kernel +
  ldt_entry :: seg_desc
  tss_entry :: seg_desc
  ldtr :: u16
  task_register :: u16
  tss_ldt :: u16
  tss_ss0 :: u16

text \<open>
  What the linker and the devices decide: the addresses of the tables and of the handlers, the
  clock chip's registers, the frame of the first \<^verbatim>\<open>execute\<close>, the message and
  \<^verbatim>\<open>printf\<close>'s buffer.
\<close>

record boot_env =
  ldt_at :: u32
  tss_at :: u32
  entry_of :: "handler \<Rightarrow> u32"
  rtc_b :: u32
  rtc_a :: u32
  first_frame :: exec_frame
  fs_failed :: u32
  print_buf :: u32

abbreviation LDT_LIMIT :: u32 where "LDT_LIMIT \<equiv> 31"
abbreviation TSS_LIMIT :: u32 where "TSS_LIMIT \<equiv> 103"

definition init_segments :: "boot_env \<Rightarrow> 'a computer_scheme \<Rightarrow> 'a computer_scheme" where
  "init_segments env s =
     (let s = s\<lparr>ldt_entry := make_ldt_desc (ldt_at env) LDT_LIMIT, ldtr := KERNEL_LDT\<rparr>;
          s = s\<lparr>tss_entry := make_tss_desc (tss_at env) TSS_LIMIT, tss_ldt := KERNEL_LDT, tss_ss0 := KERNEL_DS,
                tss_esp0 := 0x800000\<rparr>
      in s\<lparr>task_register := KERNEL_TSS\<rparr>)"

definition init_devices :: "boot_env \<Rightarrow> 'a computer_scheme \<Rightarrow> 'a computer_scheme option" where
  "init_devices env s =
     Option.bind (init_keyboard (init_i8259 s)) (\<lambda>s.
     Option.bind (init_rtc (rtc_b env) (rtc_a env) s) (\<lambda>s.
       Some (init_pit (init_idt (entry_of env) (init_paging s)))))"

text \<open>The first module's start, read from the loader's structures at \<open>mbi\<close>.\<close>

definition open_module :: "u32 \<Rightarrow> 'a fs_scheme \<Rightarrow> ('a fs_scheme \<times> int) option" where
  "open_module mbi s =
     (if \<not> accessible s (mbi + 24) 4 then None
      else let mods = load32 (vmem s) (mbi + 24) in
        if \<not> accessible s mods 4 then None else open_fs (load32 (vmem s) mods) s)"

text \<open>The kernel hangs without a file system and otherwise becomes the first shell.\<close>

datatype 's boot =
    Hung 's
  | First_shell "'s outcome"

definition boot_kernel :: "boot_env \<Rightarrow> u32 \<Rightarrow> 'a computer_scheme \<Rightarrow> 'a computer_scheme boot option" where
  "boot_kernel env mbi s =
     Option.bind (init_devices env (init_segments env s)) (\<lambda>s.
     Option.bind (open_module mbi s) (\<lambda>(s, r).
       if r \<noteq> 0 then map_option (\<lambda>(s, _). Hung s) (printf (print_buf env) (fs_failed env) [] s)
       else Option.bind (clear s) (\<lambda>s. map_option First_shell (init_terminals (first_frame env) s))))"

subsection \<open>What each step does\<close>

definition same_setup :: "'a computer_scheme \<Rightarrow> 'a computer_scheme \<Rightarrow> bool" where
  "same_setup s s' \<longleftrightarrow> memory s' = memory s \<and> pgtbl_addr s' = pgtbl_addr s \<and> pgtbl_proc_addr s' = pgtbl_proc_addr s \<and>
     length (terminals s') = length (terminals s) \<and> get_running_terminal s' = get_running_terminal s \<and>
     ldt_entry s' = ldt_entry s \<and> tss_entry s' = tss_entry s \<and> ldtr s' = ldtr s \<and> task_register s' = task_register s \<and>
     tss_ldt s' = tss_ldt s \<and> tss_ss0 s' = tss_ss0 s \<and> tss_esp0 s' = tss_esp0 s"

lemma same_setup_trans: "same_setup s t \<Longrightarrow> same_setup t u \<Longrightarrow> same_setup s u"
  by (simp add: same_setup_def)

lemma running_same:
  assumes "terminals s = terminals s'" "pcbs s = pcbs s'" "running_pid s = running_pid s'"
  shows "get_running_terminal s = get_running_terminal s'"
  using assms by (rule get_running_terminal_cong)

lemma outb_setup: "same_setup s (outb d p s) \<and> idt (outb d p s) = idt s"
  using running_same [of "outb d p s" s] by (simp add: same_setup_def outb_def)

lemma enable_setup: "same_setup s (enable_irq i s) \<and> idt (enable_irq i s) = idt s"
  using running_same [of "enable_irq i s" s] by (simp add: same_setup_def enable_irq_def Let_def outb_def)

lemma i8259_setup: "same_setup s (init_i8259 s) \<and> idt (init_i8259 s) = idt s"
  using running_same [of "init_i8259 s" s] by (simp add: same_setup_def init_i8259_def enable_irq_def Let_def outb_def)

lemma terminal_setup:
  assumes "\<And>x. term_pid (f x) = term_pid x" "length (terminals s) = 3"
  shows "same_setup s (update_terminal t f s) \<and> idt (update_terminal t f s) = idt s \<and>
    enabled_irqs (update_terminal t f s) = enabled_irqs s \<and> masks_synced (update_terminal t f s) = masks_synced s"
  using get_running_terminal_update [OF assms]
  by (simp add: same_setup_def update_terminal_def enabled_irqs_def irq_enabled_def masks_synced_def last_out_def)

lemma init_keyboard_setup:
  assumes "get_running_terminal s = Some (Some t)" "length (terminals s) = 3" "masks_synced s"
  shows "\<exists>s'. init_keyboard s = Some s' \<and> same_setup s s' \<and> idt s' = idt s \<and> enabled_irqs s' = insert 1 (enabled_irqs s) \<and>
    masks_synced s'"
proof -
  let ?e = "enable_irq KEYBOARD_IRQ s"
  let ?s = "?e\<lparr>multi_byte := 0, caps_lock_repeat := 0\<rparr>"
  let ?u = "update_terminal t (\<lambda>x. x\<lparr>line_buf := replicate LINE_BUFFER_SIZE 0, line_buf_index := 0\<rparr>) ?s"
  have same: "same_setup s ?s" "idt ?s = idt s" using enable_setup [of s KEYBOARD_IRQ] running_same [of ?s ?e]
    by (simp_all add: same_setup_def)
  have "enabled_irqs ?s = enabled_irqs ?e" "masks_synced ?s = masks_synced ?e"
    by (simp_all add: enabled_irqs_def irq_enabled_def masks_synced_def last_out_def)
  then have masks: "enabled_irqs ?s = insert 1 (enabled_irqs s)" "masks_synced ?s"
    using enabled_enable [of KEYBOARD_IRQ s] masks_synced_enable [OF assms(3), of KEYBOARD_IRQ] by simp_all
  have len: "length (terminals ?s) = 3" using same(1) assms(2) by (simp add: same_setup_def)
  note u = terminal_setup [of "\<lambda>x. x\<lparr>line_buf := replicate LINE_BUFFER_SIZE 0, line_buf_index := 0\<rparr>", OF _ len, of t]
  have "get_running_terminal ?s = Some (Some t)" using same(1) assms(1) by (simp add: same_setup_def)
  then have "init_keyboard s = Some ?u" by (simp add: init_keyboard_def clear_line_buf_def)
  then show ?thesis using u same_setup_trans [OF same(1), of ?u] same(2) masks by auto
qed

lemma init_rtc_setup:
  assumes "get_running_terminal s = Some (Some t)" "length (terminals s) = 3" "masks_synced s"
  shows "\<exists>s'. init_rtc b a s = Some s' \<and> same_setup s s' \<and> idt s' = idt s \<and> enabled_irqs s' = insert 8 (enabled_irqs s) \<and>
    masks_synced s'"
proof -
  let ?e = "enable_irq RTC_IRQ s"
  define o' where "o' = outb ((a AND TOP_BYTE_NIBBLE) OR of_nat (rate_code HZ1024)) RTC_DATA_PORT
    (outb (RTC_REG_A OR RTC_DIS_NMI) RTC_SEL_PORT (outb (RTC_REG_A OR RTC_DIS_NMI) RTC_SEL_PORT
    (outb (b OR PIE_MASK) RTC_DATA_PORT (outb (RTC_REG_B OR RTC_DIS_NMI) RTC_SEL_PORT
    (outb (RTC_REG_B OR RTC_DIS_NMI) RTC_SEL_PORT ?e)))))"
  let ?u = "update_terminal t (\<lambda>x. x\<lparr>rtc := (rtc x)\<lparr>real_freq := rate_freq HZ1024\<rparr>\<rparr>) o'"
  have same: "same_setup s o'" "idt o' = idt s"
    unfolding o'_def using enable_setup [of s RTC_IRQ]
    by (auto simp: conjunct2 [OF outb_setup] intro!: same_setup_trans [OF _ conjunct1 [OF outb_setup]])
  have masks: "enabled_irqs o' = insert 8 (enabled_irqs s)"
    using enabled_enable [of RTC_IRQ s] by (simp add: o'_def)
  have synced: "masks_synced o'" using masks_synced_enable [OF assms(3), of RTC_IRQ]
    by (simp add: o'_def masks_synced_def last_out_def outb_def)
  have len: "length (terminals o') = 3" using same(1) assms(2) by (simp add: same_setup_def)
  note u = terminal_setup [of "\<lambda>x. x\<lparr>rtc := (rtc x)\<lparr>real_freq := rate_freq HZ1024\<rparr>\<rparr>", OF _ len, of t]
  have "get_running_terminal o' = Some (Some t)" using same(1) assms(1) by (simp add: same_setup_def)
  then have "init_rtc b a s = Some ?u"
    by (simp add: init_rtc_def set_real_freq_rtc_def Let_def o'_def update_rtc_def)
  then show ?thesis using u same_setup_trans [OF same(1), of ?u] same(2) masks synced by auto
qed

lemma init_pit_setup:
  "same_setup s (init_pit s) \<and> idt (init_pit s) = idt s \<and> enabled_irqs (init_pit s) = insert 0 (enabled_irqs s) \<and>
   current_schedule (init_pit s) = 0 \<and> schedule_counter (init_pit s) = 0 \<and> same_tables (init_pit s) s \<and>
   (masks_synced s \<longrightarrow> masks_synced (init_pit s))"
proof -
  have "get_running_terminal (init_pit s) = get_running_terminal s"
    by (rule running_same) (simp_all add: init_pit_def Let_def enable_irq_def outb_def)
  moreover have "enabled_irqs (init_pit s) = enabled_irqs (enable_irq PIT_IRQ s)"
    by (simp add: init_pit_def Let_def enabled_irqs_def irq_enabled_def)
  moreover have "masks_synced (init_pit s) = masks_synced (enable_irq PIT_IRQ s)"
    by (simp add: init_pit_def Let_def masks_synced_def last_out_def outb_def)
  ultimately show ?thesis using enabled_enable [of PIT_IRQ s] masks_synced_enable [of s PIT_IRQ]
    by (simp add: same_setup_def same_tables_def) (simp add: init_pit_def Let_def enable_irq_def outb_def)
qed


lemma init_devices_setup:
  fixes s :: "'a computer_scheme"
  assumes "get_running_terminal s = Some (Some t)" "length (terminals s) = 3" "enabled_irqs s = {}" "tables_placed s"
    and "length (idt s) = NUM_VEC"
  shows "\<exists>s' (r :: 'a computer_scheme). init_devices env s = Some s' \<and> same_setup s s' \<and> enabled_irqs s' = {0, 1, 2, 8} \<and> masks_synced s' \<and>
    current_schedule s' = 0 \<and> idt s' = idt (init_idt (entry_of env) s) \<and> same_tables s' (init_paging r) \<and> tables_placed r"
proof -
  note pic = i8259_setup [of s]
  have base: "get_running_terminal (init_i8259 s) = Some (Some t)" "length (terminals (init_i8259 s)) = 3"
    using pic assms(1,2) by (simp_all add: same_setup_def)
  from init_keyboard_setup [OF base masks_synced_init] obtain s1 where
    s1: "init_keyboard (init_i8259 s) = Some s1" "same_setup (init_i8259 s) s1" "idt s1 = idt s"
      "enabled_irqs s1 = insert 1 (enabled_irqs (init_i8259 s))" "masks_synced s1" using pic by auto
  have "get_running_terminal s1 = Some (Some t)" "length (terminals s1) = 3" using s1(2) base by (simp_all add: same_setup_def)
  from init_rtc_setup [OF this s1(5), of "rtc_b env" "rtc_a env"] obtain s2 where
    s2: "init_rtc (rtc_b env) (rtc_a env) s1 = Some s2" "same_setup s1 s2" "idt s2 = idt s1"
      "enabled_irqs s2 = insert 8 (enabled_irqs s1)" "masks_synced s2" by auto
  let ?p = "init_paging s2" and ?i = "init_idt (entry_of env) (init_paging s2)"
  have same: "same_setup s s2" using pic s1(2) s2(2) same_setup_trans by blast
  have "get_running_terminal ?p = get_running_terminal s2"
    by (rule running_same) (simp_all add: init_paging_def Let_def del: upt_rec_numeral)
  then have p: "same_setup s2 ?p" "idt ?p = idt s" "enabled_irqs ?p = enabled_irqs s2" "masks_synced ?p = masks_synced s2"
    using s1(3) s2(3) by (simp_all add: same_setup_def enabled_irqs_def irq_enabled_def masks_synced_def last_out_def
        init_paging_def Let_def del: upt_rec_numeral)
  have "get_running_terminal ?i = get_running_terminal ?p"
    by (rule running_same) (simp_all add: init_idt_def Let_def del: upt_rec_numeral)
  then have i: "same_setup ?p ?i" "enabled_irqs ?i = enabled_irqs ?p" "masks_synced ?i = masks_synced ?p" "same_tables ?i ?p"
    by (simp_all add: same_setup_def enabled_irqs_def irq_enabled_def masks_synced_def last_out_def same_tables_def
        init_idt_def Let_def del: upt_rec_numeral)
  have gates: "idt ?i = idt (init_idt (entry_of env) s)" unfolding init_idt_def p(2) by (simp add: Let_def del: upt_rec_numeral)
  note pit = init_pit_setup [of ?i]
  have "init_devices env s = Some (init_pit ?i)" using s1(1) s2(1) by (simp add: init_devices_def)
  moreover have "same_setup s (init_pit ?i)" using same p(1) i(1) pit same_setup_trans by blast
  moreover have "enabled_irqs (init_pit ?i) = {0, 1, 2, 8}"
    using pit i(2) p(3) s2(4) s1(4) enabled_init [of s] assms(3) by auto
  moreover have "masks_synced (init_pit ?i)" using pit i(3) p(4) s2(5) by simp
  moreover have "same_tables (init_pit ?i) ?p" using pit i(4) by (simp add: same_tables_def)
  moreover have "tables_placed s2"
    using assms(4) same by (simp add: tables_placed_def same_setup_def proc_table_addr_def)
  ultimately show ?thesis using pit gates by (intro exI [of _ "init_pit ?i"] exI [of _ s2]) simp
qed

text \<open>Opening the module changes no translation while the module lies in the first 8 MB.\<close>

lemma page_walk_cong: "same_tables s t \<Longrightarrow> page_walk s = page_walk t"
proof
  fix va assume same: "same_tables s t"
  have "table_at s = table_at t" using same by (intro ext) (simp add: table_at_def proc_table_addr_def same_tables_def)
  then show "page_walk s va = page_walk t va"
    using same by (simp add: page_walk_def page_walk_in_def same_tables_def cong: if_cong)
qed

lemma boot_translate:
  assumes "same_tables s (init_paging r)" "tables_placed r" "4096 \<le> unat a" "unat a < 0x800000"
  shows "translate s a = Some a" "vmem s a = memory s a"
proof -
  show t: "translate s a = Some a" unfolding translate_cong [OF assms(1)] using init_paging_walk [OF assms(2), of a] assms(3,4)
    by (simp add: translate_def word_less_nat_alt)
  then show "vmem s a = memory s a" by (rule vmem_mapped)
qed

lemma boot_word:
  assumes "same_tables s (init_paging r)" "tables_placed r" "4096 \<le> unat a" "unat a + 4 \<le> 0x800000"
  shows "accessible s a 4" "load32 (vmem s) a = load32 (memory s) a"
proof -
  have addr: "unat (a + of_nat i) = unat a + i" if "i < 4" for i
  proof -
    have "a + of_nat i = of_nat (unat a + i)" by simp
    moreover have "unat (of_nat (unat a + i) :: u32) = unat a + i" by (rule unat_of_nat32) (use assms(4) that in simp)
    ultimately show ?thesis by (simp only:)
  qed
  then have "mapped_at s a 4 a" unfolding mapped_at_def using boot_translate(1) [OF assms(1,2)] assms(3,4) by simp
  then show "accessible s a 4" by (rule accessible_mapped)
  show "load32 (vmem s) a = load32 (memory s) a"
    by (rule load32_cong, rule boot_translate(2) [OF assms(1,2)]) (use addr assms(3,4) in simp_all)
qed

lemma open_fs_boot:
  assumes "same_tables s (init_paging r)" "tables_placed r" "4096 \<le> unat start" "unat start + 4 \<le> 0x800000"
    and "unat (load32 (memory s) start) < 63"
  shows "open_fs start s = Some (s\<lparr>bootblk := start\<rparr>, 0)"
proof -
  define i where "i = unat (drop_bit 22 start)"
  have "drop_bit 22 (unat start) < 2" using assms(4) by (simp add: drop_bit_eq_div)
  then have "i < 2" by (simp only: i_def unat_drop_bit_eq)
  then have "i = 0 \<or> i = 1" by auto
  moreover have "pgdir s = pgdir (init_paging r)" using assms(1) by (simp add: same_tables_def)
  moreover have "(x OR 3) OR 1 = x OR 3" for x :: u32 by (simp add: or.assoc)
  ultimately have "pgdir s 0 i OR 1 = pgdir s 0 i" by (auto simp: init_paging_dir)
  then have "(pgdir s)(0 := (pgdir s 0)(i := pgdir s 0 i OR 1)) = pgdir s" by simp
  then have s': "s\<lparr>bootblk := start, pgdir := (pgdir s)(0 := (pgdir s 0)(i := pgdir s 0 i OR PG_PRESENT))\<rparr> = s\<lparr>bootblk := start\<rparr>"
    by simp
  have "same_tables (s\<lparr>bootblk := start\<rparr>) (init_paging r)" using assms(1) by (simp add: same_tables_def)
  note word = boot_word [OF this assms(2,3,4)]
  show ?thesis unfolding open_fs_def Let_def i_def [symmetric] s' using word assms(5) by (simp add: direntry_cnt_def)
qed

subsection \<open>Property\<close>

text \<open>
  What the loader and the linker leave: no line is on, and the loader's structures and the
  module lie in the first 8 MB above the null page.
\<close>

definition boot_ready :: "u32 \<Rightarrow> 'a computer_scheme \<Rightarrow> bool" where
  "boot_ready mbi s \<longleftrightarrow> get_running_terminal s = Some (Some 0) \<and> length (terminals s) = 3 \<and> master_mask s = 0xFF \<and>
     slave_mask s = 0xFF \<and> tables_placed s \<and> length (idt s) = NUM_VEC \<and>
     (let mods = load32 (memory s) (mbi + 24); start = load32 (memory s) mods in
      4096 \<le> unat (mbi + 24) \<and> unat (mbi + 24) + 4 \<le> 0x800000 \<and> 4096 \<le> unat mods \<and> unat mods + 4 \<le> 0x800000 \<and>
      4096 \<le> unat start \<and> unat start + 4 \<le> 0x800000 \<and> unat (load32 (memory s) start) < 63)"

lemma open_module_boot:
  assumes "boot_ready mbi r" "memory s = memory r" "same_tables s (init_paging q)" "tables_placed q"
  shows "open_module mbi s = Some (s\<lparr>bootblk := load32 (memory r) (load32 (memory r) (mbi + 24))\<rparr>, 0)"
proof -
  note b = assms(1) [unfolded boot_ready_def Let_def]
  let ?mods = "load32 (memory r) (mbi + 24)"
  let ?start = "load32 (memory r) ?mods"
  note mbi = boot_word [OF assms(3,4), of "mbi + 24", unfolded assms(2)]
    and mods = boot_word [OF assms(3,4), of ?mods, unfolded assms(2)]
  have "open_fs ?start s = Some (s\<lparr>bootblk := ?start\<rparr>, 0)"
    by (rule open_fs_boot [OF assms(3,4)]) (use b in \<open>simp_all add: assms(2)\<close>)
  then show ?thesis using mbi mods b by (simp add: open_module_def)
qed

text \<open>The descriptors and the registers that name them, as \<^verbatim>\<open>entry\<close> sets them.\<close>

definition segments_set :: "boot_env \<Rightarrow> 'a computer_scheme \<Rightarrow> bool" where
  "segments_set env s \<longleftrightarrow> ldt_entry s = make_ldt_desc (ldt_at env) LDT_LIMIT \<and>
     tss_entry s = make_tss_desc (tss_at env) TSS_LIMIT \<and> ldtr s = KERNEL_LDT \<and> task_register s = KERNEL_TSS \<and>
     tss_ldt s = KERNEL_LDT \<and> tss_ss0 s = KERNEL_DS"

lemma boot_machine_up:
  assumes "boot_ready mbi s"
  shows "\<exists>s1 s'. init_devices env (init_segments env s) = Some s1 \<and> open_module mbi s1 = Some (s', 0) \<and>
    seg_base (seg_words (ldt_entry s')) = ldt_at env \<and> seg_limit (seg_words (ldt_entry s')) = 4 * 8 - 1 \<and>
    seg_base (seg_words (tss_entry s')) = tss_at env \<and> seg_limit (seg_words (tss_entry s')) = TSS_SIZE - 1 \<and>
    tss_ss0 s' = KERNEL_DS \<and> tss_esp0 s' = 0x800000 \<and>
    enabled_irqs s' = {0, 1, 2, 8} \<and> masks_synced s' \<and> idt s' = idt (init_idt (entry_of env) s) \<and>
    (\<forall>va. page_walk s' va = (if va < 4096 then None else if va < 0x800000 then Some (va, False) else None)) \<and>
    current_schedule s' = 0 \<and> get_running_terminal s' = Some (Some 0) \<and> bootblk s' = load32 (memory s) (load32 (memory s) (mbi + 24)) \<and>
    segments_set env s'"
proof -
  let ?s = "init_segments env s"
  note b = assms [unfolded boot_ready_def Let_def]
  have seg: "get_running_terminal ?s = get_running_terminal s"
    by (rule running_same) (simp_all add: init_segments_def Let_def)
  have fields: "terminals ?s = terminals s" "master_mask ?s = master_mask s" "slave_mask ?s = slave_mask s" "idt ?s = idt s"
    "memory ?s = memory s" "pgtbl_addr ?s = pgtbl_addr s" "pgtbl_proc_addr ?s = pgtbl_proc_addr s"
    by (simp_all add: init_segments_def Let_def)
  have "(0xFF :: u8) = - 1" by simp
  then have "bit (0xFF :: u8) n" if "n < 8" for n using that by (simp only: bit_minus_1_iff) simp
  then have off: "enabled_irqs ?s = {}" using b fields by (auto simp: enabled_irqs_def irq_enabled_def)
  have "tables_placed ?s" using b fields by (simp add: tables_placed_def proc_table_addr_def)
  from init_devices_setup [OF _ _ off this, of 0 env] b seg fields obtain s1 and r :: "'a computer_scheme" where
    s1: "init_devices env ?s = Some s1" "same_setup ?s s1" "enabled_irqs s1 = {0, 1, 2, 8}" "masks_synced s1"
      "current_schedule s1 = 0" "idt s1 = idt (init_idt (entry_of env) ?s)" "same_tables s1 (init_paging r)" "tables_placed r"
    by auto
  have mem: "memory s1 = memory s" using s1(2) fields by (simp add: same_setup_def)
  let ?s' = "s1\<lparr>bootblk := load32 (memory s) (load32 (memory s) (mbi + 24))\<rparr>"
  have "open": "open_module mbi s1 = Some (?s', 0)" by (rule open_module_boot [OF assms mem s1(7,8)])
  have walk: "page_walk ?s' = page_walk (init_paging r)"
    by (rule page_walk_cong) (use s1(7) in \<open>simp add: same_tables_def\<close>)
  have gates: "idt ?s' = idt (init_idt (entry_of env) s)"
    using s1(6) unfolding init_idt_def fields by (simp add: Let_def del: upt_rec_numeral)
  have "ldt_entry ?s' = make_ldt_desc (ldt_at env) 31" "tss_entry ?s' = make_tss_desc (tss_at env) 103"
    "tss_ss0 ?s' = KERNEL_DS" "tss_esp0 ?s' = 0x800000"
    using s1(2) by (simp_all add: same_setup_def init_segments_def Let_def)
  moreover have "segments_set env ?s'"
    using s1(2) by (simp add: segments_set_def same_setup_def init_segments_def Let_def)
  moreover have "get_running_terminal ?s' = get_running_terminal s1" by (rule running_same) simp_all
  then have "get_running_terminal ?s' = Some (Some 0)" using s1(2) b seg by (simp add: same_setup_def)
  moreover have "enabled_irqs ?s' = enabled_irqs s1" "masks_synced ?s' = masks_synced s1"
    by (simp_all add: enabled_irqs_def irq_enabled_def masks_synced_def last_out_def)
  then have "enabled_irqs ?s' = {0, 1, 2, 8}" "masks_synced ?s'" using s1(3,4) by simp_all
  ultimately show ?thesis
    using s1(1,5) "open" gates init_paging_walk [OF s1(8)] by (intro exI [of _ s1] exI [of _ ?s'] conjI) (simp_all add: kernel_segments walk)
qed

text \<open>
  C16: The start brings the machine up in order: after the segment descriptors, the devices,
  paging and the interrupt table are set up, the processor finds the local table and the task
  state at the addresses and sizes the linker gave them, exactly the interrupt lines of the
  timer, the keyboard, the cascade and the clock are on and the controllers' registers say so,
  every vector has its gate, the first 8 MB but the null page are mapped onto themselves for the kernel alone, the
  scheduler starts at terminal 0, and the file system is the loader's first module.
\<close>

theorem boot_prepares_machine:
  assumes "boot_ready mbi s"
  shows "\<exists>s1 s'. init_devices env (init_segments env s) = Some s1 \<and> open_module mbi s1 = Some (s', 0) \<and>
    seg_base (seg_words (ldt_entry s')) = ldt_at env \<and> seg_limit (seg_words (ldt_entry s')) = 4 * 8 - 1 \<and>
    seg_base (seg_words (tss_entry s')) = tss_at env \<and> seg_limit (seg_words (tss_entry s')) = TSS_SIZE - 1 \<and>
    tss_ss0 s' = KERNEL_DS \<and> tss_esp0 s' = 0x800000 \<and>
    enabled_irqs s' = {0, 1, 2, 8} \<and> masks_synced s' \<and> idt s' = idt (init_idt (entry_of env) s) \<and>
    (\<forall>va. page_walk s' va = (if va < 4096 then None else if va < 0x800000 then Some (va, False) else None)) \<and>
    current_schedule s' = 0 \<and> bootblk s' = load32 (memory s) (load32 (memory s) (mbi + 24))"
  using boot_machine_up [OF assms, of env] by (elim exE conjE) (intro exI conjI, assumption+)

subsection \<open>A machine to start\<close>

text \<open>The loader's structure at 0x9000 names the module list at 0xA000.\<close>

definition blank_seg :: seg_desc where
  "blank_seg = \<lparr>seg_lim_15_00 = 0, base_15_00 = 0, base_23_16 = 0, seg_type = 0, seg_sys = False, seg_dpl = 0,
     seg_present = False, seg_lim_19_16 = 0, avail = False, seg_reserved = False, opsize = False, granularity = False,
     base_31_24 = 0\<rparr>"

definition demo_computer :: computer where
  "demo_computer = kernel.extend (demo_kernel\<lparr>memory := store32 (store32 demo_image 0x9018 0xA000) 0xA000 0x440000,
       master_mask := 0xFF, slave_mask := 0xFF, running_pid := 0, pcbs := (\<lambda>_. blank_pcb),
       terminals := replicate 3 (demo_terminal 0 0 0)\<rparr>)
     \<lparr>ldt_entry = blank_seg, tss_entry = blank_seg, ldtr = 0, task_register = 0, tss_ldt = 0, tss_ss0 = 0\<rparr>"

definition demo_boot :: boot_env where
  "demo_boot = \<lparr>ldt_at = 0x408000, tss_at = 0x408100, entry_of = (\<lambda>_. 0x400100), rtc_b = 0, rtc_a = 0,
     first_frame = demo_frame, fs_failed = 0x600000, print_buf = 0x700000\<rparr>"

lemma demo_computer_fields [simp]:
  "memory demo_computer = store32 (store32 demo_image 0x9018 0xA000) 0xA000 0x440000"
  "master_mask demo_computer = 0xFF" "slave_mask demo_computer = 0xFF" "length (terminals demo_computer) = 3"
  "length (idt demo_computer) = NUM_VEC" "get_running_terminal demo_computer = Some (Some 0)"
  "tables_placed demo_computer = tables_placed demo_kernel"
proof -
  show "get_running_terminal demo_computer = Some (Some 0)"
    by (simp add: get_running_terminal_def get_terminal_from_pid_def find_0_2 terminal_at_def get_current_pcb_def
        demo_computer_def kernel.extend_def blank_pcb_def demo_terminal_def)
qed (simp_all add: demo_computer_def kernel.extend_def tables_placed_def proc_table_addr_def demo_kernel_idt)

lemma demo_boot_ready: "boot_ready 0x9000 demo_computer"
proof -
  have "tables_placed demo_kernel = tables_placed demo_sched"
    by (simp add: demo_kernel_def scheduler.extend_def tables_placed_def proc_table_addr_def del: demo_sched_fields(7))
  then have "tables_placed demo_kernel" using demo_terms_placed by simp
  moreover have "load32 (memory demo_computer) 0x9018 = 0xA000" "load32 (memory demo_computer) 0xA000 = 0x440000"
    "load32 (memory demo_computer) 0x440000 = 2"
    by (simp_all add: load32_def store32_def demo_image_def)
  ultimately show ?thesis by (simp add: boot_ready_def Let_def del: demo_computer_fields(1))
qed

lemma boot_prepares_machine_witness:
  "\<exists>s1 s'. init_devices demo_boot (init_segments demo_boot demo_computer) = Some s1 \<and> open_module 0x9000 s1 = Some (s', 0) \<and>
    enabled_irqs s' = {0, 1, 2, 8} \<and> seg_base (seg_words (tss_entry s')) = 0x408100"
  using boot_prepares_machine [OF demo_boot_ready, of demo_boot] by (auto simp: demo_boot_def)

end
