(* ===== verification/Confinement.thy ===== *)
theory Confinement
  imports Descriptors Boot
begin

text \<open>
  What every entry into the kernel preserves: a state is confined when its address spaces lead
  only to the first 8 MB and to the process's own page, and the terminals' buffers are pages of the first 8 MB.
  The relation \<open>steady\<close> says that confinement is kept and that what the start sets
  once stays; it is an instance of \<open>kernel_frame\<close>, and the
  process operations, the system calls, the exceptions and the timer respect it too.
\<close>

subsection \<open>Confined states\<close>

definition confined :: "'a terms_scheme \<Rightarrow> bool" where
  "confined s \<longleftrightarrow> dirs_ok s \<and> cr3 s < 8 \<and> length (terminals s) = 3 \<and> current_terminal s < TERMINAL_NUM \<and>
     (\<forall>t<3. page_base 12 (vid_mem_buf (terminal_at t s)) < 0x800000)"

text \<open>What is set once, at the start.\<close>

definition settings :: "'a kernel_scheme \<Rightarrow> u8 \<times> u8 \<times> u32 \<times> idt_desc list \<times> 'a" where
  "settings s = (master_mask s, slave_mask s, bootblk s, idt s, kernel.more s)"

definition steady :: "'a kernel_scheme \<Rightarrow> 'a kernel_scheme \<Rightarrow> bool" where
  "steady s s' \<longleftrightarrow> settings s' = settings s \<and> (confined s \<longrightarrow> confined s')"

lemma steady_refl: "steady s s"
  by (simp add: steady_def)

lemma steady_trans: "steady s t \<Longrightarrow> steady t u \<Longrightarrow> steady s u"
  by (simp add: steady_def)

lemma dirs_ok_cong:
  assumes "same_tables s t"
  shows "dirs_ok s = dirs_ok t"
proof -
  have "proc_table_addr s p = proc_table_addr t p" for p using assms by (simp add: proc_table_addr_def same_tables_def)
  then show ?thesis using assms by (simp add: dirs_ok_def own_entry_def tables_placed_def same_tables_def)
qed

lemma steady_same:
  assumes "settings s' = settings s" "same_tables s' s" "current_terminal s' = current_terminal s"
    and "map vid_mem_buf (terminals s') = map vid_mem_buf (terminals s)"
  shows "steady s s'"
proof -
  have "length (terminals s') = length (terminals s)" using assms(4) by (rule map_eq_imp_length_eq)
  moreover have "vid_mem_buf (terminal_at t s') = vid_mem_buf (terminal_at t s)" if "t < length (terminals s)" for t
    using arg_cong [OF assms(4), of "\<lambda>l. l ! t"] that \<open>length (terminals s') = _\<close> by (simp add: terminal_at_def)
  ultimately show ?thesis using assms dirs_ok_cong [OF assms(2)] by (simp add: steady_def confined_def same_tables_def)
qed

lemma map_list_update_same: "(\<And>x. f (g x) = f x) \<Longrightarrow> map f (xs[i := g (xs ! i)]) = map f xs"
  by (rule nth_equalityI; cases "i < length xs"; auto simp: nth_list_update list_update_beyond)

lemma video_page_low: "page_base 12 (0xB8000 :: u32) < 0x800000"
  by (simp add: page_base_def drop_bit_eq_div push_bit_eq_mult)

lemma steady_map:
  assumes "confined s \<Longrightarrow> page_base 12 a < 0x800000"
  shows "steady s (fst (map_vid_mem p va a s))"
proof -
  let ?s = "fst (map_vid_mem p va a s)"
  have "dirs_ok ?s" if "confined s" using that assms by (intro dirs_ok_map) (simp_all add: confined_def)
  moreover have "cr3 ?s < 8 \<or> cr3 ?s = cr3 s"
    by (simp add: map_vid_mem_def Let_def word_le_nat_alt cli_def sti_def)
  moreover have "settings ?s = settings s" "terminals ?s = terminals s" "current_terminal ?s = current_terminal s"
    by (simp_all add: settings_def map_vid_mem_def Let_def cli_def sti_def)
  ultimately show ?thesis by (auto simp: steady_def confined_def terminal_at_def)
qed

lemma steady_memory: "only_memory s s' \<Longrightarrow> steady s s'"
  unfolding only_memory_def by (erule ssubst) (simp add: steady_same settings_def same_tables_def)

interpretation steady: file_frame "steady :: 'a kernel_scheme \<Rightarrow> 'a kernel_scheme \<Rightarrow> bool"
proof
  fix s s' s1 s2 :: "'a kernel_scheme"
  show "steady s s" by (rule steady_refl)
  show "steady s s1 \<Longrightarrow> steady s1 s2 \<Longrightarrow> steady s s2" by (rule steady_trans)
  show "steady s s'" if "put_byte dst b s = Some s'" for dst b
    using only_memory_put_byte [OF that] by (rule steady_memory)
  show "steady s (s\<lparr>memory := m\<rparr>)" for m by (rule steady_memory) simp
  show "steady s (outb value port s)" for "value" port
    by (rule steady_same) (simp_all add: settings_def same_tables_def outb_def)
  show "steady s (s\<lparr>int_flag := enabled\<rparr>)" "steady s (s\<lparr>screen_x := x, screen_y := y\<rparr>)"
      "steady s (s\<lparr>key_state := k, caps_lock_repeat := c, multi_byte := m, terminal_to_switch_to := n\<rparr>)"
      "steady s (s\<lparr>dir_read_count := count\<rparr>)" for enabled x y k c m n count
    by (rule steady_same, simp_all add: settings_def same_tables_def)+
  show "steady s (update_terminal t f s)" if "\<And>x. vid_mem_buf (f x) = vid_mem_buf x" for t f
    by (rule steady_same)
      (simp_all add: settings_def same_tables_def update_terminal_def map_list_update_same that)
  show "steady s (s\<lparr>current_terminal := num\<rparr>)" if "num < TERMINAL_NUM" for num
    using that dirs_ok_cong [of "s\<lparr>current_terminal := num\<rparr>" s]
    by (simp add: steady_def settings_def confined_def same_tables_def terminal_at_def)
  show "steady s (fst (map_vid_mem (ucast (pid (get_current_pcb s))) va a s))"
    if "a = VIDEO \<or> (\<exists>t. (t < 3 \<or> t = unat (current_terminal s)) \<and> a = vid_mem_buf (terminal_at t s))" for va a
    using that by (intro steady_map) (auto simp: confined_def video_page_low word_less_nat_alt [of "current_terminal s"])
  show "steady s (update_fd fd f s)" for fd f
    by (rule steady_same) (simp_all add: settings_def same_tables_def update_fd_def update_pcb_def)
qed

subsection \<open>Starting and ending processes\<close>

lemma steady_process:
  fixes s :: "'a kernel_scheme"
  shows "steady s (update_pcb p g s)" "steady s (s\<lparr>procs := u\<rparr>)" "steady s (s\<lparr>running_pid := q\<rparr>)"
    "steady s (s\<lparr>tss_esp0 := e\<rparr>)" "steady s (s\<lparr>program_exception := x\<rparr>)"
  by (rule steady_same, simp_all add: settings_def same_tables_def update_pcb_def)+

lemma steady_make:
  fixes s :: "'a kernel_scheme"
  assumes "make_task_pgdir p s = (s', r)"
  shows "steady s s'"
proof (cases "p \<ge> NUM_PROC")
  case True
  then show ?thesis using assms by (simp add: make_task_pgdir_def steady_refl)
next
  case False
  have s': "s' = fst (make_task_pgdir p s)" using assms by simp
  have "settings s' = settings s" "terminals s' = terminals s" "current_terminal s' = current_terminal s"
    unfolding s' by (simp_all add: settings_def make_task_pgdir_def Let_def del: upt_rec_numeral)
  moreover have "cr3 s' < 8" using False make_task_rest(2) [OF _ s'] by (simp add: word_le_nat_alt)
  moreover have "dirs_ok s \<Longrightarrow> dirs_ok s'" unfolding s' by (rule dirs_ok_make)
  ultimately show ?thesis by (simp add: steady_def confined_def terminal_at_def)
qed

lemma steady_remove:
  fixes s :: "'a kernel_scheme"
  assumes "remove_task_pgdir p s = Some (s', r)"
  shows "steady s s'"
proof -
  have "settings s' = settings s" "terminals s' = terminals s" "current_terminal s' = current_terminal s" "cr3 s' < 8"
    using assms by (auto simp: settings_def remove_task_pgdir_def Let_def word_le_nat_alt split: if_split_asm)
  then show ?thesis using dirs_ok_remove [OF _ assms] by (simp add: steady_def confined_def terminal_at_def)
qed

lemma steady_flush:
  fixes s :: "'a kernel_scheme"
  assumes "flush_tlb s = Some s'"
  shows "steady s s'"
proof -
  obtain n where "s' = s\<lparr>cr3 := n\<rparr>" "n < 8"
    using assms by (auto simp: flush_tlb_def Let_def word_le_nat_alt split: if_split_asm)
  then show ?thesis
    by (simp add: steady_def settings_def confined_def dirs_ok_def own_entry_def tables_placed_def terminal_at_def)
qed

lemma steady_setup:
  fixes s :: "'a kernel_scheme"
  assumes "setup_pcb frame parent s = Some s'"
  shows "steady s s'"
proof -
  have link: "steady t (link_block parent n t)" for n and t :: "'a kernel_scheme"
    by (auto simp: link_block_def Let_def intro!: steady_trans [OF steady_process(1) steady_process(1)])
  have new: "steady t (fst (terminal_for_new t))" for t :: "'a kernel_scheme"
    by (auto simp: terminal_for_new_def new_terminal_def steady_refl split: option.split intro: steady.terminal_law)
  obtain n where "s' = (link_block parent n (fst (terminal_for_new (fill_block frame s))))
      \<lparr>tss_esp0 := kernel_stack (ucast (running_pid (fst (terminal_for_new (fill_block frame s)))))\<rparr>"
    using assms by (auto simp: setup_pcb_def split: prod.split_asm option.split_asm)
  moreover have "steady s (fill_block frame s)" unfolding fill_block_def Let_def by (rule steady_process)
  ultimately show ?thesis using new link steady_process(4) steady_trans by metis
qed

lemma steady_start:
  fixes s :: "'a kernel_scheme"
  assumes "start_process frame parent s = Some out"
  shows "steady s (outcome_state out)"
  using assms
  by (auto simp: start_process_def bind_eq_Some_conv map_option_eq_Some Let_def split: if_split_asm prod.splits
      dest!: steady.keeps_read_name steady_make steady_setup)
    (blast intro: steady_trans steady.keeps_flag)+

lemma steady_execute:
  fixes s :: "'a kernel_scheme"
  assumes "execute frame ucmd s = Some out"
  shows "steady s (outcome_state out)"
proof -
  have start: "steady t (outcome_state r)"
    if "start_process frame q (t\<lparr>procs := u, running_pid := p\<rparr>) = Some r" for q u p r and t :: "'a kernel_scheme"
    using steady_trans [OF steady_trans [OF steady_process(2) steady_process(3)] steady_start [OF that]] .
  obtain t where "steady (cli s) t" "outcome_state out = sti t \<or> (\<exists>u p. alloc_pid (procs t) = Some (u, p) \<and>
      start_process frame (running_pid s) (t\<lparr>procs := u, running_pid := p\<rparr>) = Some out)"
    using steady.keeps_load [OF assms] by metis
  then show ?thesis using steady.keeps_flag start steady_trans by metis
qed

lemma steady_vidmapped: "steady s (update_terminal t (\<lambda>x. x\<lparr>vidmapped := v\<rparr>) s)" "steady s (update_terminal t (\<lambda>x. x\<lparr>running := v\<rparr>) s)"
  by (rule steady.terminal_law, simp)+

lemma steady_halt_to_parent:
  fixes s :: "'a kernel_scheme"
  assumes "halt_to_parent stat term s = Some out"
  shows "steady s (outcome_state out)"
proof -
  let ?s1 = "update_pcb (running_pid s) (\<lambda>x. x\<lparr>child_return :=
      if program_exception s \<noteq> 0 then PROCESS_KILLED_BY_EXCEPTION else ucast stat\<rparr>) s"
  let ?pp = "parent_pid (pcbs (set_program_exception 0 ?s1) (running_pid s))"
  let ?s2 = "(set_program_exception 0 ?s1)\<lparr>tss_esp0 := kernel_stack (of_int ?pp), running_pid := of_int ?pp\<rparr>"
  obtain s3 s4 r t where steps: "remove_task_pgdir (ucast (pid (pcbs ?s2 (running_pid s)))) ?s2 = Some (s3, r)"
      "flush_tlb s3 = Some s4" and out: "outcome_state out = update_terminal t (\<lambda>x. x\<lparr>vidmapped := 0\<rparr>) s4"
    using assms by (auto simp: halt_to_parent_def Let_def bind_eq_Some_conv split: option.split_asm)
  have s2: "steady s ?s2" unfolding set_program_exception_def
    by (rule steady_trans [OF steady_process(1) steady_trans [OF steady_process(5) steady_trans [OF steady_process(4) steady_process(3)]]])
  show ?thesis unfolding out
    by (rule steady_trans [OF s2 steady_trans [OF steady_remove [OF steps(1)] steady_trans [OF steady_flush [OF steps(2)] steady_vidmapped(1)]]])
qed

lemma steady_halt_restart:
  fixes s :: "'a kernel_scheme"
  assumes "halt_restart frame term s = Some out"
  shows "steady s (outcome_state out)"
proof -
  obtain t where "execute frame (shell_at frame) (update_terminal (unat (current_terminal s)) (\<lambda>t. t\<lparr>running := 0\<rparr>)
      (s\<lparr>tss_esp0 := kernel_stack (term_pid (terminal_at t s))\<rparr>)) = Some out"
    using assms by (auto simp: halt_restart_def split: option.split_asm outcome.split_asm)
  then show ?thesis by (rule steady_trans [OF steady_trans [OF steady_process(4) steady_vidmapped(2)] steady_execute])
qed

lemma steady_halt:
  fixes s :: "'a kernel_scheme"
  assumes "halt frame stat s = Some out"
  shows "steady s (outcome_state out)"
proof -
  let ?s1 = "case parent_pcb (pcbs s (running_pid s)) of None \<Rightarrow> s | Some q \<Rightarrow> update_pcb q (\<lambda>x. x\<lparr>child_pcb := None\<rparr>) s"
  have "steady s ?s1" by (simp add: steady_refl steady_process split: option.split)
  then have closed: "steady s (close_all ?s1)" using steady.keeps_close_all by (rule steady_trans)
  have "steady s ((close_all ?s1)\<lparr>procs := u\<rparr>)" for u using closed steady_process(2) by (rule steady_trans)
  then show ?thesis using assms
    by (auto simp: halt_def Let_def bind_eq_Some_conv split: if_split_asm
        dest!: steady_halt_to_parent steady_halt_restart intro: steady_trans)
qed

subsection \<open>The calls and the interrupts\<close>

lemma steady_syscall:
  fixes s :: "'a kernel_scheme"
  assumes "irqh_syscall env frame type arg1 arg2 arg3 s = Some out"
  shows "steady s (outcome_state out)"
  using assms steady.keeps_call [OF assms] steady_halt steady_execute
  by (cases "type = 1"; cases "type = 2") (auto simp: irqh_syscall_def)

lemma steady_exception:
  fixes s :: "'a kernel_scheme"
  assumes "exc_handler frame conv_buf message e pushed s = Some out"
  shows "steady s (outcome_state out)"
proof -
  obtain s1 s2 r where steps: "(if exc_clears e then clear s else Some s) = Some s1"
      "printf conv_buf message (int_stack e pushed) s1 = Some (s2, r)"
      "halt frame 1 (set_program_exception 1 s2) = Some out"
    using assms by (auto simp: exc_handler_def bind_eq_Some_conv)
  have "steady s s1" using steps(1) steady_refl steady.keeps_clear by (auto split: if_split_asm)
  moreover have "steady s1 s2" using steps(2) by (rule steady.keeps_printf)
  moreover have "steady s2 (set_program_exception 1 s2)" by (simp add: set_program_exception_def steady_process)
  moreover note steady_halt [OF steps(3)]
  ultimately show ?thesis using steady_trans by blast
qed

primrec tick_state :: "'s tick \<Rightarrow> 's" where
  "tick_state (Interrupted s) = s"
| "tick_state (Switch s a b) = s"
| "tick_state (Start out) = outcome_state out"

lemma steady_schedule:
  fixes s :: "'a kernel_scheme"
  shows "steady s (s\<lparr>schedule_counter := c\<rparr>)" "steady s (s\<lparr>current_schedule := c\<rparr>)" "steady s (save_context esp ebp s)"
  by (rule steady_same, simp_all add: settings_def same_tables_def save_context_def update_pcb_def)+

lemma steady_point_video:
  fixes s :: "'a kernel_scheme"
  assumes c: "c < TERMINAL_NUM"
  shows "steady s (point_video c p s)"
proof -
  have low: "page_base 12 (if P then VIDEO else vid_mem_buf (terminal_at (unat c) t)) < 0x800000"
    if "confined t" for P and t :: "'a kernel_scheme"
    using that c video_page_low by (simp add: confined_def word_less_nat_alt [of c])
  have map: "steady t (fst (map_vid_mem q v (if P then VIDEO else vid_mem_buf (terminal_at (unat c) t)) t))"
    for q v P and t :: "'a kernel_scheme" by (rule steady_map) (rule low)
  show ?thesis unfolding point_video_def scheduler_vidmap_def Let_def
    by (rule steady_trans [OF _ map]) (simp add: steady_refl map split: if_split)
qed

lemma steady_resume:
  fixes s :: "'a kernel_scheme"
  assumes "resume_process c s = Some t" "c < TERMINAL_NUM"
  shows "steady s (tick_state t)"
proof -
  obtain q s1 where s1: "flush_tlb (point_video c (pid (pcbs s q)) (set_pid (ucast (pid (pcbs s q)))
      (s\<lparr>tss_esp0 := kernel_stack (pid (pcbs s q))\<rparr>))) = Some s1" and t: "tick_state t = send_eoi PIT_IRQ s1"
    using assms(1) by (auto simp: resume_process_def Let_def bind_eq_Some_conv map_option_eq_Some)
  have "steady s (set_pid x (s\<lparr>tss_esp0 := e\<rparr>))" for x e
    unfolding set_pid_def by (rule steady_trans [OF steady_process(4) steady_process(3)])
  then show ?thesis unfolding t using steady_trans steady_point_video [OF assms(2)] steady_flush [OF s1] steady.keeps_eoi by metis
qed

lemma take_switch_cases:
  assumes "take_switch s = Some s'"
  shows "s' = s \<or> (\<exists>n t. switch_terminal n s = Some t \<and> s' = t\<lparr>terminal_to_switch_to := - 1\<rparr>)"
  using assms by (auto simp: take_switch_def split: if_split_asm)

lemma steady_timer:
  fixes s :: "'a kernel_scheme"
  assumes "irqh_pit frame esp ebp s = Some t"
  shows "steady s (tick_state t)"
proof -
  obtain s1 c where s1: "take_switch s = Some s1" and c: "next_schedule (terminals s1) (schedule_counter s1) = Some c"
    using assms by (auto simp: irqh_pit_def bind_eq_Some_conv)
  let ?s2 = "s1\<lparr>schedule_counter := c\<rparr>"
  let ?s3 = "save_context esp ebp (?s2\<lparr>current_schedule := c\<rparr>)"
  have "steady s s1" using take_switch_cases [OF s1] steady_refl steady_trans [OF steady.keeps_switch steady.keeps_keyboard(4)] by blast
  then have s2: "steady s ?s2" using steady_schedule(1) by (rule steady_trans)
  then have s3: "steady s ?s3" using steady_schedule(2,3) steady_trans by blast
  have "c < TERMINAL_NUM" using next_schedule_found [OF c] by simp
  then have "steady ?s2 (tick_state t) \<or> steady ?s3 (tick_state t)"
    using assms s1 c steady_resume
    by (auto simp: irqh_pit_def Let_def steady.keeps_eoi split: if_split_asm
        dest!: steady_execute intro: steady_trans [OF steady.keeps_eoi])
  then show ?thesis using s2 s3 steady_trans by blast
qed

end
