(* ===== verification/Loading.thy ===== *)
theory Loading
  imports Syscall_Exec
begin

text \<open>
  Starting a program from the file system image: what \<^verbatim>\<open>execute\<close> does on every
  branch when its local arrays and the image are mapped where the kernel keeps them. The command is parsed,
  the name is looked up, the header is checked, a number is taken, the entry point is read, the address
  space is built and the file is copied into it, and the new block is filled.
\<close>

subsection \<open>Where the kernel's data is\<close>

text \<open>What \<^verbatim>\<open>execute\<close> reads of the image for a program's name.\<close>

definition image_read :: "u8 list \<Rightarrow> 'a fs_scheme \<Rightarrow> u32 set" where
  "image_read name s = {a. unat (a - bootblk s) < 4096} \<union>
     (case List.find (\<lambda>d. entry_name d = name) (dentries s) of
        None \<Rightarrow> {} | Some d \<Rightarrow> image_part (vmem s) (bootblk s) (inode_idx d))"

text \<open>A region of the first 8 MB that is mapped onto itself.\<close>

definition low_region :: "'a paging_scheme \<Rightarrow> u32 \<Rightarrow> nat \<Rightarrow> bool" where
  "low_region s a n \<longleftrightarrow> 4096 \<le> unat a \<and> unat a + n \<le> 0x800000 \<and> mapped_at s a n a"

text \<open>The image and the local arrays are there, and the arrays are apart from the image and the command.\<close>

definition placed :: "exec_frame \<Rightarrow> u32 set \<Rightarrow> 'a paging_scheme \<Rightarrow> bool" where
  "placed frame A s \<longleftrightarrow>
     (\<forall>a\<in>A. 4096 \<le> unat a \<and> unat a < 0x800000 \<and> translate s a = Some a \<and> 128 \<le> unat (a - cmd_at frame) \<and>
        4 \<le> unat (a - header_at frame) \<and> 4 \<le> unat (a - entry_at frame)) \<and>
     low_region s (cmd_at frame) 128 \<and> low_region s (header_at frame) 4 \<and> low_region s (entry_at frame) 4 \<and>
     (\<forall>j<128. 4 \<le> unat (cmd_at frame + of_nat j - header_at frame) \<and> 4 \<le> unat (cmd_at frame + of_nat j - entry_at frame))"

text \<open>The file is one that the file system can hold: its blocks exist and the code's size check lets it pass.\<close>

definition file_sound :: "u32 \<Rightarrow> 'a fs_scheme \<Rightarrow> bool" where
  "file_sound i s \<longleftrightarrow>
     (let m = vmem s; bb = bootblk s; sz = unat (inode_size m bb i) in
      i < inode_cnt m bb \<and> unat (direntry_cnt m bb) < 63 \<and> sz < unat (direntry_cnt m bb) * 4096 \<and> blocks_valid m bb i sz)"

text \<open>The states in which the image and the command can be read as at the start.\<close>

definition same_image :: "u32 set \<Rightarrow> 'a fs_scheme \<Rightarrow> 'a fs_scheme \<Rightarrow> bool" where
  "same_image A s t \<longleftrightarrow> bootblk t = bootblk s \<and> (\<forall>a\<in>A. vmem t a = vmem s a \<and> translate t a = Some a)"

lemma same_image_file:
  assumes "same_image (image_read name s) s t" "List.find (\<lambda>d. entry_name d = name) (dentries s) = Some d"
    and "file_sound (inode_idx d) s"
  defines "i \<equiv> inode_idx d"
  shows "agree (vmem s) (vmem t) (bootblk s) i" "dentries t = dentries s" "inode_cnt (vmem t) (bootblk t) = inode_cnt (vmem s) (bootblk s)"
    "direntry_cnt (vmem t) (bootblk t) = direntry_cnt (vmem s) (bootblk s)"
    "inode_size (vmem t) (bootblk t) i = inode_size (vmem s) (bootblk s) i"
    "file_content (vmem t) (bootblk t) i = file_content (vmem s) (bootblk s) i"
    "image_part (vmem t) (bootblk t) i = image_part (vmem s) (bootblk s) i"
    "blocks_valid (vmem t) (bootblk t) i (unat (inode_size (vmem s) (bootblk s) i))"
proof -
  note same = assms(1) [unfolded same_image_def]
  have part: "image_part (vmem s) (bootblk s) i \<subseteq> image_read name s" using assms(2) by (auto simp: image_read_def i_def)
  then show agree: "agree (vmem s) (vmem t) (bootblk s) i" using same by (auto simp: agree_def)
  have valid: "blocks_valid (vmem s) (bootblk s) i (unat (inode_size (vmem s) (bootblk s) i))"
    using assms(3) by (simp add: file_sound_def Let_def i_def)
  show "dentries t = dentries s" by (rule dentries_frame) (use same in \<open>auto simp: image_read_def\<close>)
  show "inode_cnt (vmem t) (bootblk t) = inode_cnt (vmem s) (bootblk s)"
    "direntry_cnt (vmem t) (bootblk t) = direntry_cnt (vmem s) (bootblk s)"
    "inode_size (vmem t) (bootblk t) i = inode_size (vmem s) (bootblk s) i"
    "file_content (vmem t) (bootblk t) i = file_content (vmem s) (bootblk s) i"
    "image_part (vmem t) (bootblk t) i = image_part (vmem s) (bootblk s) i"
    "blocks_valid (vmem t) (bootblk t) i (unat (inode_size (vmem s) (bootblk s) i))"
    using same agree_counts [OF agree] agree_image(1,2) [OF agree valid]
      agree_image(3) [OF agree valid, of "unat (inode_size (vmem s) (bootblk s) i)"] valid by simp_all
qed

lemma same_image_dentries: "same_image (image_read name s) s t \<Longrightarrow> dentries t = dentries s"
  by (rule dentries_frame) (auto simp: same_image_def image_read_def)

text \<open>A write to a buffer away from the image keeps it.\<close>

lemma same_image_write:
  assumes "same_image A s t" "\<forall>a\<in>A. length bs \<le> unat (a - pb)"
  shows "same_image A s (t\<lparr>memory := write_bytes (memory t) pb bs\<rparr>)"
proof -
  have "vmem (t\<lparr>memory := write_bytes (memory t) pb bs\<rparr>) a = vmem t a" if "a \<in> A" for a
    using assms that by (intro vmem_write_outside) (auto simp: same_image_def)
  then show ?thesis using assms(1) by (simp add: same_image_def)
qed

text \<open>A read of the program's file into a buffer away from the image.\<close>

lemma read_program:
  fixes s t :: "'a fs_scheme" and off len :: u32
  assumes same: "same_image (image_read name s) s t" and d: "List.find (\<lambda>d. entry_name d = name) (dentries s) = Some d"
    and sound: "file_sound (inode_idx d) s"
  defines "content \<equiv> file_content (vmem s) (bootblk s) (inode_idx d)"
  defines "n \<equiv> length (take (unat len) (drop (unat off) content))"
  assumes room: "unat off + unat len < unat (direntry_cnt (vmem s) (bootblk s)) * 4096"
    and buf: "buf \<noteq> 0" "mapped_at t buf n pb" "\<forall>a\<in>image_read name s. n \<le> unat (a - pb)"
  shows "read_data (inode_idx d) off buf len t =
    Some (t\<lparr>memory := write_bytes (memory t) pb (take (unat len) (drop (unat off) content))\<rparr>, int n)"
proof -
  let ?i = "inode_idx d" and ?m = "vmem s" and ?bb = "bootblk s"
  let ?sz = "unat (inode_size ?m ?bb ?i)"
  note f = same_image_file [OF same d sound] and fs = sound [unfolded file_sound_def Let_def]
  have n: "n = min (unat len) (?sz - unat off)" by (simp add: n_def content_def)
  have bound: "off + len < direntry_cnt ?m ?bb * 4096"
  proof -
    have "unat (off + len) = unat off + unat len" "unat (direntry_cnt ?m ?bb * 4096) = unat (direntry_cnt ?m ?bb) * 4096"
      using room fs by (simp_all add: unat_word_ariths)
    then show ?thesis using room by (simp add: word_less_nat_alt)
  qed
  show ?thesis
  proof (cases "off < inode_size ?m ?bb ?i")
    case True
    have "clear_of_image t ?i n pb"
      using same buf(3) d f(7) by (fastforce simp: clear_of_image_def same_image_def image_read_def)
    moreover have "blocks_valid (vmem t) (bootblk t) ?i (unat off + n)"
      using True by (intro blocks_valid_mono [OF f(8)]) (simp add: n word_less_nat_alt)
    ultimately have "read_data ?i off buf len t = Some (t\<lparr>memory := write_bytes (memory t) pb
        (take n (drop (unat off) content))\<rparr>, int n)"
      using read_data_copies [of buf ?i t off len pb] True f(3-6) fs bound buf room by (simp add: n content_def)
    moreover have "take n (drop (unat off) content) = take (unat len) (drop (unat off) content)"
      by (rule nth_equalityI) (simp_all add: n_def)
    ultimately show ?thesis by simp
  next
    case False
    then have "drop (unat off) content = []" by (simp add: content_def word_le_nat_alt not_less)
    moreover have "\<not> inode_cnt ?m ?bb \<le> ?i" using fs by (simp only: not_le)
    ultimately show ?thesis using False f(3,5) buf(1) by (simp add: read_data_def Let_def n_def not_less)
  qed
qed

subsection \<open>The command and the header\<close>

lemma low_region_mapped: "low_region s a n \<Longrightarrow> mapped_at s a n a"
  by (simp add: low_region_def)

lemma low_region_nonzero: "low_region s a n \<Longrightarrow> a \<noteq> 0"
  by (auto simp: low_region_def)

text \<open>What a state keeps of the placement: the image, the arrays' mappings and the command's name.\<close>

definition at_work :: "exec_frame \<Rightarrow> u8 list \<Rightarrow> u8 list \<Rightarrow> 'a fs_scheme \<Rightarrow> 'a fs_scheme \<Rightarrow> bool" where
  "at_work frame name cmd s t \<longleftrightarrow> same_image (image_read name s) s t \<and>
     mapped_at t (cmd_at frame) 128 (cmd_at frame) \<and> mapped_at t (header_at frame) 4 (header_at frame) \<and>
     mapped_at t (entry_at frame) 4 (entry_at frame) \<and> bytes_at (memory t) (cmd_at frame) 128 = cmd"

lemma at_work_write:
  assumes "at_work frame name cmd s t" "\<forall>a\<in>image_read name s. length bs \<le> unat (a - pb)"
    and "\<forall>j<128. length bs \<le> unat (cmd_at frame + of_nat j - pb)"
  shows "at_work frame name cmd s (t\<lparr>memory := write_bytes (memory t) pb bs\<rparr>)"
proof -
  have "bytes_at (write_bytes (memory t) pb bs) (cmd_at frame) 128 = bytes_at (memory t) (cmd_at frame) 128"
    by (rule bytes_at_cong) (use assms(3) in \<open>simp add: write_bytes_out\<close>)
  then show ?thesis using assms same_image_write [of "image_read name s" s t bs pb] by (simp add: at_work_def)
qed

lemma at_work_cong:
  assumes "at_work frame name cmd s t" "same_tables t' t" "memory t' = memory t" "bootblk t' = bootblk t"
  shows "at_work frame name cmd s t'"
  using assms translate_cong [OF assms(2)] vmem_cong [OF assms(2,3)]
  by (simp add: at_work_def same_image_def mapped_at_def)

lemma command_bytes:
  assumes "0 \<notin> set name" "length name + length args \<le> 126 \<or> length name \<le> 127 \<and> args = []"
  shows "length (command_buffer name args) = 128" "takeWhile (\<lambda>c. c \<noteq> 0) (command_buffer name args) = name"
    "list_strlen (command_buffer name args) = length name"
proof -
  show "length (command_buffer name args) = 128" using assms(2) by (auto simp: command_buffer_def)
  show w: "takeWhile (\<lambda>c. c \<noteq> 0) (command_buffer name args) = name"
    unfolding command_buffer_def using assms(1) by (subst takeWhile_append2) auto
  show "list_strlen (command_buffer name args) = length name" by (simp add: list_strlen_def w)
qed

lemma at_work_name:
  assumes "at_work frame name (command_buffer name args) s t" "0 \<notin> set name"
    and "length name + length args \<le> 126 \<or> length name \<le> 127 \<and> args = []"
  shows "cstr (vmem t) (cmd_at frame) name" "accessible t (cmd_at frame) (length name + 1)" "accessible t (cmd_at frame) 128"
    "bytes_at (vmem t) (cmd_at frame) 128 = command_buffer name args" "accessible t (entry_at frame) 4"
proof -
  note w = assms(1) [unfolded at_work_def]
  have len: "length name + 1 \<le> 128" using assms(3) by auto
  show "accessible t (cmd_at frame) 128" "accessible t (entry_at frame) 4" using w accessible_mapped by blast+
  show "accessible t (cmd_at frame) (length name + 1)"
    using w len by (intro accessible_mapped [of _ _ _ "cmd_at frame"]) (blast intro: mapped_at_mono)
  have "vmem t (cmd_at frame + of_nat j) = memory t (cmd_at frame + of_nat j)" if "j < 128" for j
    using w that by (intro vmem_mapped mapped_at_nth) auto
  then show bytes: "bytes_at (vmem t) (cmd_at frame) 128 = command_buffer name args"
    using w bytes_at_cong [of 128 "vmem t" "cmd_at frame" "memory t"] by simp
  have at: "vmem t (cmd_at frame + of_nat j) = command_buffer name args ! j" if "j < 128" for j
    using arg_cong [OF bytes, of "\<lambda>l. l ! j"] that by simp
  have "bytes_at (vmem t) (cmd_at frame) (length name) = name"
    by (rule nth_equalityI) (use len in \<open>simp_all add: at command_buffer_def nth_append\<close>)
  moreover have "vmem t (cmd_at frame + of_nat (length name)) = 0"
    using len by (simp add: at command_buffer_def nth_append del: of_nat_unat)
  ultimately show "cstr (vmem t) (cmd_at frame) name" using assms(2) len by (simp add: cstr_def)
qed

lemma find_long_name: "32 < length name \<Longrightarrow> List.find (\<lambda>d. entry_name d = name) ds = None"
proof -
  have "length (entry_name d) \<le> 32" for d
    using length_takeWhile_le [of "\<lambda>c. c \<noteq> 0" "filename d"] by (simp add: entry_name_def filename_def)
  then show "32 < length name \<Longrightarrow> List.find (\<lambda>d. entry_name d = name) ds = None"
    by (auto simp: find_None_iff not_less [symmetric])
qed

lemma at_work_find:
  assumes "at_work frame name (command_buffer name args) s t" "0 \<notin> set name"
    and "length name + length args \<le> 126 \<or> length name \<le> 127 \<and> args = []"
  shows "read_dentry_by_name (cmd_at frame) t = Some (List.find (\<lambda>d. entry_name d = name) (dentries s))"
  using read_dentry_by_name_find [OF at_work_name(1,2) [OF assms]] assms(1) same_image_dentries [of name s t]
    find_long_name [of name "dentries s"]
  by (simp add: at_work_def)

text \<open>The command is stored in \<^verbatim>\<open>cmd\<close> and the header of the file is read.\<close>

lemma command_stored:
  assumes place: "placed frame (image_read name s) s" and cmd: "length cmd = 128"
  defines "t \<equiv> (cli s)\<lparr>memory := write_bytes (memory s) (cmd_at frame) cmd\<rparr>"
  shows "put_bytes (cmd_at frame) cmd (cli s) = Some t" "at_work frame name cmd s t"
proof -
  note pl = place [unfolded placed_def]
  have same: "translate (cli s) = translate s" "vmem (cli s) = vmem s"
    by (rule translate_cong vmem_cong; simp add: same_tables_def)+
  have map: "mapped_at (cli s) (cmd_at frame) 128 (cmd_at frame)" using pl by (simp add: mapped_at_def same low_region_def)
  then show "put_bytes (cmd_at frame) cmd (cli s) = Some t"
    using put_bytes_mapped [of "cli s" "cmd_at frame" cmd "cmd_at frame"] cmd by (simp add: t_def)
  have "same_image (image_read name s) s (cli s)" using pl by (simp add: same_image_def same, simp add: cli_def)
  then have "same_image (image_read name s) s t"
    unfolding t_def using same_image_write [of "image_read name s" s "cli s" cmd "cmd_at frame"] pl cmd by simp
  moreover have "translate t = translate s" by (simp add: t_def same)
  moreover have "bytes_at (memory t) (cmd_at frame) 128 = cmd"
    using bytes_at_write_bytes [of cmd "memory s" "cmd_at frame"] cmd by (simp add: t_def)
  ultimately show "at_work frame name cmd s t"
    using pl by (simp add: at_work_def mapped_at_def low_region_def)
qed

lemma header_read:
  assumes work: "at_work frame name cmd s t" and place: "placed frame (image_read name s) s"
    and d: "List.find (\<lambda>d. entry_name d = name) (dentries s) = Some d" and sound: "file_sound (inode_idx d) s"
  defines "bs \<equiv> take 4 (file_content (vmem s) (bootblk s) (inode_idx d))"
  defines "t' \<equiv> t\<lparr>memory := write_bytes (memory t) (header_at frame) bs\<rparr>"
  shows "read_data (inode_idx d) 0 (header_at frame) 4 t = Some (t', int (length bs))" "at_work frame name cmd s t'"
    "length bs = 4 \<Longrightarrow> bytes_at (vmem t') (header_at frame) 4 = bs"
proof -
  note pl = place [unfolded placed_def] and w = work [unfolded at_work_def]
  have len: "length bs \<le> 4" by (simp add: bs_def)
  have map: "mapped_at t (header_at frame) (length bs) (header_at frame)" using w len by (blast intro: mapped_at_mono)
  have "0 < unat (direntry_cnt (vmem s) (bootblk s))" using sound by (auto simp: file_sound_def Let_def intro: gr0I)
  then show "read_data (inode_idx d) 0 (header_at frame) 4 t = Some (t', int (length bs))"
    using read_program [of name s t d 0 4 "header_at frame" "header_at frame"] w d sound map pl len
    by (force simp: bs_def t'_def low_region_def)
  show "at_work frame name cmd s t'"
    unfolding t'_def by (rule at_work_write [OF work]) (use pl len in \<open>auto intro: order_trans\<close>)
  show "bytes_at (vmem t') (header_at frame) 4 = bs" if "length bs = 4"
    using bytes_at_vmem_write [of t "header_at frame" bs "header_at frame"] map that by (simp add: t'_def)
qed

subsection \<open>The address space and the copy of the file\<close>

lemma low_region_made:
  assumes "tables_placed t" "unat p < 8" "4096 \<le> unat a" "unat a + n \<le> 0x800000"
  shows "mapped_at (fst (make_task_pgdir p t)) a n a"
  unfolding mapped_at_def
proof (intro allI impI)
  fix i assume i: "i < n"
  have "a + of_nat i = of_nat (unat a + i)" by simp
  moreover have "unat (of_nat (unat a + i) :: u32) = unat a + i" by (rule unat_of_nat32) (use assms(4) i in simp)
  ultimately have "unat (a + of_nat i) = unat a + i" by (simp only:)
  then show "translate (fst (make_task_pgdir p t)) (a + of_nat i) = Some (a + of_nat i)"
    using make_task_pgdir_walk(1) [OF assms(1,2) refl, of "a + of_nat i"] assms(3,4) i
    by (simp add: translate_def word_less_nat_alt)
qed

lemma at_work_made:
  assumes work: "at_work frame name cmd s t" and place: "placed frame (image_read name s) s"
    and "tables_placed t" "unat p < 8"
  shows "at_work frame name cmd s (fst (make_task_pgdir p t))"
proof -
  let ?t = "fst (make_task_pgdir p t)"
  note pl = place [unfolded placed_def low_region_def] and w = work [unfolded at_work_def]
  have keeps: "memory ?t = memory t" "bootblk ?t = bootblk t"
    by (simp_all add: make_task_pgdir_def Let_def del: upt_rec_numeral)
  have id: "translate ?t a = Some a" if "a \<in> image_read name s" for a
    using low_region_made [OF assms(3,4), of a 1] pl that by (fastforce simp: mapped_at_def)
  have view: "vmem ?t a = vmem s a" if a: "a \<in> image_read name s" for a
  proof -
    have t: "translate t a = Some a" "vmem t a = vmem s a" using w a by (auto simp: same_image_def)
    then show ?thesis using vmem_mapped [OF t(1)] vmem_mapped [OF id [OF a]] keeps(1) by simp
  qed
  from id view have "same_image (image_read name s) s ?t" using w keeps by (simp add: same_image_def)
  then show ?thesis using pl w keeps low_region_made [OF assms(3,4)] by (simp add: at_work_def)
qed

lemma program_page_mapped:
  assumes "tables_placed t" "unat p < 8" "n \<le> 0x3B8000"
  shows "mapped_at (fst (make_task_pgdir p t)) LOAD_ADDR n (user_page (unat p) + 0x48000)"
  unfolding mapped_at_def
proof (intro allI impI)
  fix i assume i: "i < n"
  let ?va = "LOAD_ADDR + of_nat i :: u32"
  have eq: "?va = of_nat (0x8048000 + i)" by simp
  have un: "unat ?va = 0x8048000 + i" unfolding eq by (rule unat_of_nat32) (use i assms(3) in simp)
  have "(0x8048000 + i) div 4194304 = 32" using i assms(3) by (intro div_nat_eqI) simp_all
  then have dir: "unat (drop_bit 22 ?va) = 32" by (simp only: drop_bit_eq_div) (simp add: unat_div un)
  have low: "take_bit 22 ?va = 0x48000 + of_nat i"
  proof -
    have "(0x8048000 + i) mod 4194304 = 0x48000 + i"
    proof -
      have "0x8048000 + i = 0x48000 + i + 32 * 4194304" by simp
      moreover have "0x48000 + i < 4194304" using i assms(3) by simp
      ultimately show ?thesis by (metis mod_less mod_mult_self1)
    qed
    then have "unat (take_bit 22 ?va) = 0x48000 + i" by (simp add: take_bit_eq_mod unat_mod un)
    moreover have "0x48000 + of_nat i = (of_nat (0x48000 + i) :: u32)" by simp
    moreover have "unat (of_nat (0x48000 + i) :: u32) = 0x48000 + i" by (rule unat_of_nat32) (use i assms(3) in simp)
    ultimately show ?thesis by (metis word_unat_eq_iff)
  qed
  have "user_page (unat p) OR take_bit 22 ?va = user_page (unat p) + take_bit 22 ?va"
    by (rule disjunctive_add [symmetric]) (use aligned_low_bits [OF user_page_aligned] in \<open>auto simp: bit_take_bit_iff\<close>)
  then show "translate (fst (make_task_pgdir p t)) ?va = Some (user_page (unat p) + 0x48000 + of_nat i)"
    using make_task_pgdir_walk(2) [OF assms(1,2) refl dir] by (simp add: translate_def low add.assoc)
qed

text \<open>The program's page lies above everything the image and the arrays occupy.\<close>

lemma program_page_above:
  assumes "p < 8" "unat a < 0x800000" "n \<le> 0x3B8000"
  shows "n \<le> unat (a - (user_page p + 0x48000))"
proof -
  have "(p + 2) * 4194304 \<le> 9 * 4194304" "2 * 4194304 \<le> (p + 2) * 4194304" using assms(1) by simp_all
  then have "unat (user_page p + 0x48000) = (p + 2) * 4194304 + 0x48000"
    by (simp add: unat_word_ariths unat_user_page [OF assms(1)])
  then show ?thesis using assms \<open>(p + 2) * 4194304 \<le> 9 * 4194304\<close> \<open>2 * 4194304 \<le> (p + 2) * 4194304\<close>
    by (simp add: unat_sub_if')
qed

subsection \<open>The block and its links\<close>

lemma sint_pid: "sint (ucast (q :: u8) :: u32) = int (unat q)"
proof -
  have "unat q < 256" using unsigned_less [of q] by simp
  then show ?thesis by (simp add: sint32 unat_ucast8)
qed

text \<open>
  A new process hangs below its starter when a program is on display and the displayed terminal is not
  the number's own; otherwise it has no parent.
\<close>

definition hangs_below :: "u8 \<Rightarrow> 'a terms_scheme \<Rightarrow> bool" where
  "hangs_below p s \<longleftrightarrow> running (terminal_at (unat (current_terminal s)) s) = 1 \<and>
     term_pid (terminal_at (unat (current_terminal s)) s) \<noteq> ucast p"

definition links_set :: "u8 \<Rightarrow> u8 \<Rightarrow> bool \<Rightarrow> 'a process_scheme \<Rightarrow> bool" where
  "links_set p parent below_it s \<longleftrightarrow>
     parent_pid (pcbs s p) = (if below_it then int (unat parent) else - 1) \<and>
     parent_pcb (pcbs s p) = (if below_it then Some parent else None) \<and>
     (below_it \<longrightarrow> child_pcb (pcbs s parent) = Some p) \<and>
     (\<not> below_it \<longrightarrow> child_pcb (pcbs s p) = None)"

lemma setup_pcb_links:
  assumes cur: "running (terminal_at (unat (current_terminal s)) s) \<le> 1" "unat (current_terminal s) < 3"
    and len: "length (terminals s) = 3" and par: "pid (pcbs s parent) = ucast parent"
  shows "\<exists>s'. setup_pcb frame parent s = Some s' \<and> links_set (running_pid s) parent (hangs_below (running_pid s) s) s' \<and>
    (running (terminal_at (unat (current_terminal s)) s) = 1 \<longrightarrow> terminals s' = terminals s)"
proof -
  let ?p = "running_pid s" and ?s1 = "fill_block frame s" and ?c = "unat (current_terminal s)"
  have new: "pid (pcbs ?s1 ?p) = ucast ?p" using fresh_fill_block [of frame s] by (simp add: fresh_block_def)
  have at: "terminal_at i ?s1 = terminal_at i s" for i by (simp add: terminal_at_def)
  have pid: "sint (pid (pcbs ?s1 parent)) = int (unat parent)"
    using new par sint_pid by (cases "parent = ?p") simp_all
  show ?thesis
  proof (cases "running (terminal_at ?c s) = 1")
    case True
    then have "setup_pcb frame parent s = Some ((link_block parent ?c ?s1)\<lparr>tss_esp0 := kernel_stack (ucast ?p)\<rparr>)"
      by (simp add: setup_pcb_def terminal_for_new_def at)
    moreover have "links_set ?p parent (hangs_below ?p s) (link_block parent ?c ?s1)"
      using True pid by (simp add: links_set_def hangs_below_def link_block_def Let_def at)
    ultimately show ?thesis by (simp add: links_set_def)
  next
    case False
    then have free: "running (terminal_at ?c s) = 0" using cur(1) by (simp add: word_le_nat_alt word_unat_eq_iff)
    then obtain t where t: "List.find (\<lambda>i. running (terminal_at i s) = 0) [0..<3] = Some t" "t < 3"
      using cur(2) by (cases "List.find (\<lambda>i. running (terminal_at i s) = 0) [0..<3]") (auto simp: find_None_iff find_Some_iff)
    let ?s2 = "update_terminal t (\<lambda>x. x\<lparr>term_pid := ucast ?p, running := 1\<rparr>) ?s1"
    have "setup_pcb frame parent s = Some ((link_block parent t ?s2)\<lparr>tss_esp0 := kernel_stack (ucast ?p)\<rparr>)"
      using False t(1) by (simp add: setup_pcb_def terminal_for_new_def new_terminal_def at)
    moreover have "term_pid (terminal_at t ?s2) = ucast ?p" "running_pid ?s2 = ?p"
      using len t(2) by (simp_all add: terminal_at_def update_terminal_def)
    then have "links_set ?p parent (hangs_below ?p s) (link_block parent t ?s2)"
      using False by (simp add: links_set_def hangs_below_def link_block_def Let_def)
    ultimately show ?thesis using False by (simp add: links_set_def)
  qed
qed

lemma setup_pcb_bootblk: "setup_pcb frame parent s = Some s' \<Longrightarrow> bootblk s' = bootblk s"
  by (auto simp: setup_pcb_def fill_block_def link_block_def terminal_for_new_def new_terminal_def update_pcb_def
      update_terminal_def Let_def split: prod.split_asm option.split_asm if_split_asm)

subsection \<open>The whole call\<close>

definition refusal :: "'a terms_scheme \<Rightarrow> 'a terms_scheme \<Rightarrow> bool" where
  "refusal s s' \<longleftrightarrow> int_flag s' \<and> procs s' = procs s \<and> running_pid s' = running_pid s \<and> pcbs s' = pcbs s \<and>
     terminals s' = terminals s \<and> same_tables s' s"

text \<open>The program is in its page, its block is filled, its stack is set and nothing else changed.\<close>

definition loaded :: "exec_frame \<Rightarrow> u8 list \<Rightarrow> u8 list \<Rightarrow> u8 list \<Rightarrow> u8 \<Rightarrow> 'a terms_scheme \<Rightarrow> 'a terms_scheme \<Rightarrow> bool" where
  "loaded frame name args content p s s' \<longleftrightarrow>
     int_flag s' \<and> running_pid s' = p \<and> cr3 s' = unat p \<and> tss_esp0 s' = kernel_stack (ucast p) \<and>
     bytes_at (vmem s') LOAD_ADDR (length content) = content \<and>
     bytes_at (memory s') (user_page (unat p) + 0x48000) (length content) = content \<and>
     (let b = pcbs s' p in fds b = std_fds \<and> raw_argv b = command_buffer name args \<and> argv0 b = Some 0 \<and>
        argv1 b = Some (length name + 1) \<and> pid b = ucast p \<and> parent_ksp b = frame_esp frame \<and> parent_kbp b = frame_ebp frame) \<and>
     links_set p (running_pid s) (hangs_below p s) s' \<and>
     (\<forall>q. q \<noteq> p \<longrightarrow> q \<noteq> running_pid s \<longrightarrow> pcbs s' q = pcbs s q) \<and> current_terminal s' = current_terminal s \<and>
     (running (terminal_at (unat (current_terminal s)) s) = 1 \<longrightarrow> terminals s' = terminals s) \<and>
     same_tables s' (fst (make_task_pgdir p s)) \<and> bootblk s' = bootblk s \<and>
     (\<forall>a. 128 \<le> unat (a - cmd_at frame) \<longrightarrow> 4 \<le> unat (a - header_at frame) \<longrightarrow> 4 \<le> unat (a - entry_at frame) \<longrightarrow>
        length content \<le> unat (a - (user_page (unat p) + 0x48000)) \<longrightarrow> memory s' a = memory s a)"

lemma read_name_at_work:
  assumes "at_work frame name (command_buffer name args) s t" "0 \<notin> set name"
    and "length name + length args \<le> 126 \<or> length name \<le> 127 \<and> args = []"
    and "cmd_at frame \<noteq> 0" "List.find (\<lambda>d. entry_name d = name) (dentries s) = Some d"
  shows "file_read_name (cmd_at frame) buf off len t = read_data (inode_idx d) off buf
    (if len = 0 then inode_size (vmem t) (bootblk t) (inode_idx d) else len) t"
  using at_work_find [OF assms(1-3)] assms(4,5) by (simp add: file_read_name_def Let_def)

lemma load32_bytes: "bytes_at m a 4 = bs \<Longrightarrow> load32 m a = le32 bs"
  unfolding le32_def load32_def using nth_bytes_at [of _ 4 m a] by fastforce

text \<open>The entry point is read into its array.\<close>

lemma entry_read:
  assumes work: "at_work frame name (command_buffer name args) s t" and nz: "0 \<notin> set name"
    and fit: "length name + length args \<le> 126 \<or> length name \<le> 127 \<and> args = []"
    and place: "placed frame (image_read name s) s"
    and d: "List.find (\<lambda>d. entry_name d = name) (dentries s) = Some d" and sound: "file_sound (inode_idx d) s"
  defines "bs \<equiv> take 4 (drop 24 (file_content (vmem s) (bootblk s) (inode_idx d)))"
  defines "t' \<equiv> t\<lparr>memory := write_bytes (memory t) (entry_at frame) bs\<rparr>"
  shows "file_read_name (cmd_at frame) (entry_at frame) 24 4 t = Some (t', int (length bs))"
    "at_work frame name (command_buffer name args) s t'"
    "length bs = 4 \<Longrightarrow> bytes_at (memory t') (entry_at frame) 4 = bs"
proof -
  note pl = place [unfolded placed_def] and w = work [unfolded at_work_def]
  have len: "length bs \<le> 4" by (simp add: bs_def)
  have map: "mapped_at t (entry_at frame) (length bs) (entry_at frame)" using w len by (blast intro: mapped_at_mono)
  have "0 < unat (direntry_cnt (vmem s) (bootblk s))" using sound by (auto simp: file_sound_def Let_def intro: gr0I)
  then have "read_data (inode_idx d) 24 (entry_at frame) 4 t = Some (t', int (length bs))"
    using read_program [of name s t d 24 4 "entry_at frame" "entry_at frame"] w d sound map pl len
    by (force simp: bs_def t'_def low_region_def)
  moreover have "cmd_at frame \<noteq> 0" using pl low_region_nonzero by blast
  ultimately show "file_read_name (cmd_at frame) (entry_at frame) 24 4 t = Some (t', int (length bs))"
    using read_name_at_work [OF work nz fit _ d] by simp
  show "at_work frame name (command_buffer name args) s t'"
    unfolding t'_def by (rule at_work_write [OF work]) (use pl len in \<open>auto intro: order_trans\<close>)
  show "bytes_at (memory t') (entry_at frame) 4 = bs" if "length bs = 4"
    using bytes_at_write_bytes [of bs "memory t" "entry_at frame"] that by (simp add: t'_def)
qed

text \<open>The file is copied into the new page.\<close>

lemma program_copied:
  assumes work: "at_work frame name (command_buffer name args) s t" and nz: "0 \<notin> set name"
    and fit: "length name + length args \<le> 126 \<or> length name \<le> 127 \<and> args = []"
    and place: "placed frame (image_read name s) s"
    and d: "List.find (\<lambda>d. entry_name d = name) (dentries s) = Some d" and sound: "file_sound (inode_idx d) s"
    and tabs: "tables_placed t" and p: "unat p < 8" and size: "0 < inode_size (vmem s) (bootblk s) (inode_idx d)"
  defines "content \<equiv> file_content (vmem s) (bootblk s) (inode_idx d)"
  defines "u \<equiv> fst (make_task_pgdir p t)"
  defines "u' \<equiv> u\<lparr>memory := write_bytes (memory u) (user_page (unat p) + 0x48000) content\<rparr>"
  shows "file_read_name (cmd_at frame) LOAD_ADDR 0 0 u = Some (u', int (length content))"
    "at_work frame name (command_buffer name args) s u'"
    "bytes_at (memory u') (user_page (unat p) + 0x48000) (length content) = content"
    "bytes_at (vmem u') LOAD_ADDR (length content) = content"
    "\<And>a. unat a < 0x800000 \<Longrightarrow> memory u' a = memory t a"
    "length content \<le> 0x3B8000"
proof -
  note pl = place [unfolded placed_def low_region_def] and fs = sound [unfolded file_sound_def Let_def]
  let ?base = "user_page (unat p) + 0x48000"
  have work_u: "at_work frame name (command_buffer name args) s u"
    unfolding u_def by (rule at_work_made [OF work place tabs p])
  note w = work_u [unfolded at_work_def]
  show room: "length content \<le> 0x3B8000" using fs by (simp add: content_def)
  have map: "mapped_at u LOAD_ADDR (length content) ?base" unfolding u_def by (rule program_page_mapped [OF tabs p room])
  have above: "length content \<le> unat (a - ?base)" if "unat a < 0x800000" for a
    using program_page_above [OF p that room] .
  note same = same_image_file [OF conjunct1 [OF w] d sound]
  have "read_data (inode_idx d) 0 LOAD_ADDR (inode_size (vmem u) (bootblk u) (inode_idx d)) u = Some (u', int (length content))"
    using read_program [of name s u d 0 "inode_size (vmem s) (bootblk s) (inode_idx d)" LOAD_ADDR ?base] w d sound map fs above pl same
    by (simp add: content_def u'_def)
  moreover have "cmd_at frame \<noteq> 0" using pl by auto
  moreover have "inode_size (vmem u) (bootblk u) (inode_idx d) \<noteq> 0" using size same(5) by auto
  ultimately show "file_read_name (cmd_at frame) LOAD_ADDR 0 0 u = Some (u', int (length content))"
    using read_name_at_work [OF work_u nz fit _ d] by simp
  have "unat (cmd_at frame + of_nat j) < 0x800000" if "j < 128" for j
  proof -
    have "cmd_at frame + of_nat j = of_nat (unat (cmd_at frame) + j)" by simp
    moreover have "unat (of_nat (unat (cmd_at frame) + j) :: u32) = unat (cmd_at frame) + j"
      by (rule unat_of_nat32) (use pl that in simp)
    ultimately have "unat (cmd_at frame + of_nat j) = unat (cmd_at frame) + j" by (simp only:)
    then show ?thesis using pl that by simp
  qed
  then show "at_work frame name (command_buffer name args) s u'"
    unfolding u'_def by (intro at_work_write [OF work_u]) (use pl above in auto)
  have small: "length content < 4294967296" using room by simp
  show "bytes_at (memory u') ?base (length content) = content"
    using bytes_at_write_bytes [OF small] by (simp add: u'_def)
  show "bytes_at (vmem u') LOAD_ADDR (length content) = content"
    unfolding u'_def by (rule bytes_at_vmem_write [OF map small])
  show "memory u' a = memory t a" if "unat a < 0x800000" for a
    using write_bytes_out [OF above [OF that], of "memory u"] make_task_pgdir_keeps(5) [of p t u "snd (make_task_pgdir p t)"]
    by (simp add: u'_def u_def)
qed

lemma make_same_tables: "same_tables t s \<Longrightarrow> same_tables (fst (make_task_pgdir p t)) (fst (make_task_pgdir p s))"
  by (simp add: same_tables_def make_task_pgdir_def Let_def proc_table_addr_def del: upt_rec_numeral)

lemma start_process_loads:
  fixes s t :: "'a terms_scheme"
  assumes work: "at_work frame name (command_buffer name args) s t" and nz: "0 \<notin> set name"
    and fit: "length name + length args \<le> 126 \<or> length name \<le> 127 \<and> args = []"
    and place: "placed frame (image_read name s) s"
    and d: "List.find (\<lambda>d. entry_name d = name) (dentries s) = Some d" and sound: "file_sound (inode_idx d) s"
    and tabs: "tables_placed t" "same_tables t s" "bootblk t = bootblk s" and p: "unat (running_pid t) < 8"
    and kept: "pcbs t = pcbs s" "terminals t = terminals s" "current_terminal t = current_terminal s"
      "\<And>a. 128 \<le> unat (a - cmd_at frame) \<Longrightarrow> 4 \<le> unat (a - header_at frame) \<Longrightarrow> memory t a = memory s a"
    and cur: "running (terminal_at (unat (current_terminal s)) s) \<le> 1" "unat (current_terminal s) < 3" "length (terminals s) = 3"
    and par: "pid (pcbs s (running_pid s)) = ucast (running_pid s)"
  defines "content \<equiv> file_content (vmem s) (bootblk s) (inode_idx d)"
  assumes size: "28 \<le> length content"
  shows "\<exists>s'. start_process frame (running_pid s) t = Some (Enter_user s' (le32 (take 4 (drop 24 content)))) \<and>
    procs s' = procs t \<and> loaded frame name args content (running_pid t) s s'"
proof -
  let ?p = "running_pid t" and ?bs = "take 4 (drop 24 content)" and ?base = "user_page (unat (running_pid t)) + 0x48000"
  let ?t1 = "t\<lparr>memory := write_bytes (memory t) (entry_at frame) ?bs\<rparr>"
  note pl = place [unfolded placed_def low_region_def]
  have four: "length ?bs = 4" using size by simp
  note e = entry_read [OF work nz fit place d sound, folded content_def]
  have placed1: "tables_placed ?t1" using tabs(1) tables_placed_cong [of ?t1 t] by simp
  have size0: "0 < inode_size (vmem s) (bootblk s) (inode_idx d)"
    using size by (simp add: content_def word_less_nat_alt)
  let ?u = "fst (make_task_pgdir ?p ?t1)"
  have dir: "make_task_pgdir (running_pid ?t1) ?t1 = (?u, 0)"
    using p by (simp add: make_task_pgdir_def Let_def word_le_nat_alt del: upt_rec_numeral)
  note c = program_copied [OF e(2) nz fit place d sound placed1 p size0, folded content_def]
  let ?u' = "?u\<lparr>memory := write_bytes (memory ?u) ?base content\<rparr>"
  note keep = make_task_pgdir_keeps [OF dir]
  have same_u: "pcbs ?u' = pcbs s" "running_pid ?u' = ?p" "procs ?u' = procs t" "cr3 ?u' = unat ?p"
    using keep kept by simp_all
  have terms_u: "terminals ?u' = terminals s" "current_terminal ?u' = current_terminal s"
    using kept by (simp_all add: make_task_pgdir_def Let_def del: upt_rec_numeral)
  have hang: "hangs_below ?p ?u' = hangs_below ?p s" using terms_u by (simp add: hangs_below_def terminal_at_def)
  obtain s4 where s4: "setup_pcb frame (running_pid s) ?u' = Some s4" "links_set ?p (running_pid s) (hangs_below ?p s) s4"
      "running (terminal_at (unat (current_terminal s)) s) = 1 \<longrightarrow> terminals s4 = terminals s"
    using setup_pcb_links [of ?u' "running_pid s" frame] cur par same_u(1,2) terms_u hang by (auto simp: terminal_at_def)
  note set = setup_pcb_result [OF s4(1)]
  have view: "vmem s4 = vmem ?u'" using set(4,7) by (intro vmem_cong)
  let ?s' = "sti s4"
  have view': "vmem ?s' = vmem ?u'" unfolding view [symmetric] by (rule vmem_cong) (simp_all add: same_tables_def sti_def)
  have acc: "accessible ?u' (cmd_at frame) 128" "accessible ?u' (entry_at frame) 4"
    by (rule at_work_name(3,5) [OF c(2) nz fit])+
  have low: "unat (entry_at frame + of_nat j) < 0x800000" if "j < 4" for j
  proof -
    have "entry_at frame + of_nat j = of_nat (unat (entry_at frame) + j)" by simp
    moreover have "unat (of_nat (unat (entry_at frame) + j) :: u32) = unat (entry_at frame) + j"
      by (rule unat_of_nat32) (use pl that in simp)
    ultimately have "unat (entry_at frame + of_nat j) = unat (entry_at frame) + j" by (simp only:)
    then show ?thesis using pl that by simp
  qed
  have "bytes_at (vmem s4) (entry_at frame) 4 = bytes_at (memory ?t1) (entry_at frame) 4"
  proof (rule bytes_at_cong)
    fix j :: nat assume j: "j < 4"
    have "vmem ?u' (entry_at frame + of_nat j) = memory ?u' (entry_at frame + of_nat j)"
      using c(2) j by (intro vmem_mapped mapped_at_nth) (auto simp: at_work_def)
    then show "vmem s4 (entry_at frame + of_nat j) = memory ?t1 (entry_at frame + of_nat j)"
      using c(5) [OF low [OF j]] by (simp only: view)
  qed
  then have entry: "load32 (vmem s4) (entry_at frame) = le32 ?bs" using e(3) [OF four] by (intro load32_bytes) simp
  have "start_process frame (running_pid s) t = Some (Enter_user ?s' (le32 ?bs))"
    unfolding start_process_def e(1) Option.bind.simps prod.case dir Let_def c(1) s4(1) option.map entry
    using four acc by simp
  moreover have "loaded frame name args content ?p s ?s'"
  proof -
    have block: "fresh_block frame ?p (command_buffer name args) (pcbs s4 ?p)"
      using set(8) at_work_name(4) [OF c(2) nz fit] same_u(2) by simp
    have mem: "memory ?s' a = memory s a" if "128 \<le> unat (a - cmd_at frame)" "4 \<le> unat (a - header_at frame)"
      "4 \<le> unat (a - entry_at frame)" "length content \<le> unat (a - ?base)" for a
      using write_bytes_out [OF that(4), of "memory ?u"] write_bytes_out [of ?bs a "entry_at frame" "memory t"] four that kept(4) keep(5) set(4)
      by (simp add: sti_def)
    have others: "pcbs ?s' q = pcbs s q" if "q \<noteq> ?p" "q \<noteq> running_pid s" for q
      using set(11) [of q] that same_u by (simp add: sti_def)
    have "same_tables ?u' (fst (make_task_pgdir ?p s))"
      using make_same_tables [of ?t1 s ?p] tabs(2) by (simp add: same_tables_def)
    then have same: "same_tables ?s' (fst (make_task_pgdir ?p s))"
      using set(7) by (simp add: same_tables_def sti_def)
    have boot: "bootblk ?s' = bootblk s"
      using setup_pcb_bootblk [OF s4(1)] tabs(3) by (simp add: sti_def make_task_pgdir_def Let_def del: upt_rec_numeral)
    have shown: "running (terminal_at (unat (current_terminal s)) s) = 1 \<longrightarrow> terminals ?s' = terminals s"
      using s4(3) by (simp add: sti_def)
    have phys: "memory ?s' = memory ?u'" using set(4) by (simp add: sti_def)
    have "int_flag ?s'" "running_pid ?s' = ?p" "cr3 ?s' = unat ?p" "tss_esp0 ?s' = kernel_stack (ucast ?p)"
      "current_terminal ?s' = current_terminal s" "pcbs ?s' = pcbs s4"
      using set same_u terms_u by (simp_all add: sti_def)
    then show ?thesis unfolding loaded_def Let_def view' phys
      using block s4(2) mem others same boot shown c(3,4) command_bytes(3) [OF nz fit] phys
      by (auto simp: fresh_block_def links_set_def)
  qed
  moreover have "procs ?s' = procs t" using set(2) same_u by (simp add: sti_def)
  ultimately show ?thesis by blast
qed

text \<open>The command is fetched and stored, the name is looked up and the header is checked.\<close>

lemma execute_command:
  fixes s :: "'a terms_scheme"
  assumes cmd: "ucmd \<noteq> 0" "cstr (vmem s) ucmd u" "accessible s ucmd (length u + 1)" "split_command u = (name, args)"
    and fits: "command_fits u" and place: "placed frame (image_read name s) s"
  defines "t \<equiv> (cli s)\<lparr>memory := write_bytes (memory s) (cmd_at frame) (command_buffer name args)\<rparr>"
  shows "0 \<notin> set name" "length name + length args \<le> 126 \<or> length name \<le> 127 \<and> args = []"
    "at_work frame name (command_buffer name args) s t"
    "execute frame ucmd s = (case List.find (\<lambda>d. entry_name d = name) (dentries s) of
        None \<Rightarrow> Some (Return (sti t) (- 1))
      | Some d \<Rightarrow>
          Option.bind (read_data (inode_idx d) 0 (header_at frame) 4 t) (\<lambda>(s', n).
            if n \<noteq> 4 then Some (Return (sti s') (- 1))
            else if bytes_at (vmem s') (header_at frame) 4 \<noteq> elf_header then Some (Return (sti s') (- 1))
            else case alloc_pid (procs s') of
              None \<Rightarrow> Some (Return (sti s') (- 1))
            | Some (used, p) \<Rightarrow> start_process frame (running_pid s) (s'\<lparr>procs := used, running_pid := p\<rparr>)))"
proof -
  have names: "name = fst (split_command u)" "args = snd (split_command u)" using cmd(4) by simp_all
  have "c \<in> set name \<Longrightarrow> c \<in> set u" for c unfolding names split_command_def Let_def
    by (auto dest: set_takeWhileD set_dropWhileD)
  then show nz: "0 \<notin> set name" using cmd(2) by (auto simp: cstr_def)
  show fit: "length name + length args \<le> 126 \<or> length name \<le> 127 \<and> args = []"
  proof (cases "0x20 \<in> set (dropWhile (\<lambda>c. c = 0x20) u)")
    case True
    then show ?thesis using fits cmd(4) by (simp add: command_fits_def)
  next
    case False
    note split = no_space_split [OF False]
    have "args = []" unfolding names split_command_def Let_def by (simp only: split) simp
    then show ?thesis using False fits cmd(4) by (simp add: command_fits_def)
  qed
  have same: "vmem (cli s) = vmem s" "accessible (cli s) a n = accessible s a n" for a n
  proof -
    have "translate (cli s) = translate s" by (rule translate_cong) (simp add: same_tables_def)
    then show "accessible (cli s) a n = accessible s a n" by (simp add: accessible_def)
    show "vmem (cli s) = vmem s" by (rule vmem_cong) (simp_all add: same_tables_def cli_def)
  qed
  have len: "strlen (vmem s) ucmd = Some (of_nat (length u))" "unat (of_nat (length u) :: u32) = length u"
    using strlen_cstr [OF cmd(2)] cstr_length [OF cmd(2)] by (simp_all del: of_nat_unat)
  have read: "read_command (vmem s) ucmd = Some (command_buffer name args)"
    using read_command_buffer [OF cmd(2)] fits cmd(4) by simp
  note st = command_stored [OF place command_bytes(1) [OF nz fit], folded t_def]
  show work: "at_work frame name (command_buffer name args) s t" by (rule st(2))
  note look = at_work_find [OF work nz fit]
  have run: "running_pid (cli s) = running_pid s" by (simp add: cli_def)
  show "execute frame ucmd s = (case List.find (\<lambda>d. entry_name d = name) (dentries s) of
        None \<Rightarrow> Some (Return (sti t) (- 1))
      | Some d \<Rightarrow>
          Option.bind (read_data (inode_idx d) 0 (header_at frame) 4 t) (\<lambda>(s', n).
            if n \<noteq> 4 then Some (Return (sti s') (- 1))
            else if bytes_at (vmem s') (header_at frame) 4 \<noteq> elf_header then Some (Return (sti s') (- 1))
            else case alloc_pid (procs s') of
              None \<Rightarrow> Some (Return (sti s') (- 1))
            | Some (used, p) \<Rightarrow> start_process frame (running_pid s) (s'\<lparr>procs := used, running_pid := p\<rparr>)))"
    unfolding execute_def Let_def run same using cmd(1,3) by (simp add: len read st(1) look)
qed

lemma execute_overlong:
  assumes "ucmd \<noteq> 0" "cstr (vmem s) ucmd u" "\<not> command_fits u"
  shows "execute frame ucmd s = None"
proof -
  have "vmem (cli s) = vmem s" by (rule vmem_cong) (simp_all add: same_tables_def cli_def)
  then show ?thesis using assms(1,3) strlen_cstr [OF assms(2)] read_command_buffer [OF assms(2)]
    by (simp add: execute_def Let_def)
qed

text \<open>A file with the magic number, and the number it gets.\<close>

lemma execute_program:
  fixes s :: "'a terms_scheme"
  assumes cmd: "ucmd \<noteq> 0" "cstr (vmem s) ucmd u" "accessible s ucmd (length u + 1)" "split_command u = (name, args)"
    and fits: "command_fits u" and place: "placed frame (image_read name s) s" and tabs: "tables_placed s"
    and d: "List.find (\<lambda>d. entry_name d = name) (dentries s) = Some d" and sound: "file_sound (inode_idx d) s"
    and cur: "running (terminal_at (unat (current_terminal s)) s) \<le> 1" "unat (current_terminal s) < 3" "length (terminals s) = 3"
    and par: "pid (pcbs s (running_pid s)) = ucast (running_pid s)"
  defines "content \<equiv> file_content (vmem s) (bootblk s) (inode_idx d)"
  shows "if take 4 content \<noteq> elf_header then \<exists>s'. execute frame ucmd s = Some (Return s' (- 1)) \<and> refusal s s'
    else case alloc_pid (procs s) of
      None \<Rightarrow> \<exists>s'. execute frame ucmd s = Some (Return s' (- 1)) \<and> refusal s s'
    | Some (used, p) \<Rightarrow>
        if length content < 28
        then \<exists>s'. execute frame ucmd s = Some (Return s' (- 1)) \<and> int_flag s' \<and> procs s' = used \<and> running_pid s' = p
        else \<exists>s'. execute frame ucmd s = Some (Enter_user s' (le32 (take 4 (drop 24 content)))) \<and>
          procs s' = used \<and> loaded frame name args content p s s'"
proof -
  let ?t = "(cli s)\<lparr>memory := write_bytes (memory s) (cmd_at frame) (command_buffer name args)\<rparr>"
  note ex = execute_command [OF cmd fits place]
  let ?t1 = "?t\<lparr>memory := write_bytes (memory ?t) (header_at frame) (take 4 content)\<rparr>"
  note h = header_read [OF ex(3) place d sound, folded content_def]
  have keep: "procs ?t1 = procs s" "pcbs ?t1 = pcbs s" "terminals ?t1 = terminals s" "running_pid ?t1 = running_pid s"
    "current_terminal ?t1 = current_terminal s" "same_tables ?t1 s"
    by (simp_all add: cli_def same_tables_def)
  have refused: "refusal s (sti ?t1)" using keep by (simp add: refusal_def sti_def same_tables_def)
  have run: "execute frame ucmd s =
    (if int (length (take 4 content)) \<noteq> 4 then Some (Return (sti ?t1) (- 1))
     else if bytes_at (vmem ?t1) (header_at frame) 4 \<noteq> elf_header then Some (Return (sti ?t1) (- 1))
     else case alloc_pid (procs ?t1) of None \<Rightarrow> Some (Return (sti ?t1) (- 1))
       | Some (used, p) \<Rightarrow> start_process frame (running_pid s) (?t1\<lparr>procs := used, running_pid := p\<rparr>))"
    unfolding ex(4) d option.case h(1) Option.bind.simps prod.case ..
  show ?thesis
  proof (cases "take 4 content = elf_header")
    case False
    have "execute frame ucmd s = Some (Return (sti ?t1) (- 1))"
      unfolding run using False h(3) by auto
    then show ?thesis using False refused by auto
  next
    case True
    then have four: "length (take 4 content) = 4" by (simp add: elf_header_def)
    have run2: "execute frame ucmd s = (case alloc_pid (procs s) of None \<Rightarrow> Some (Return (sti ?t1) (- 1))
       | Some (used, p) \<Rightarrow> start_process frame (running_pid s) (?t1\<lparr>procs := used, running_pid := p\<rparr>))"
      unfolding run keep(1) h(3) [OF four] using four True by simp
    show ?thesis
    proof (cases "alloc_pid (procs s)")
      case None
      then show ?thesis using True refused run2 by auto
    next
      case (Some up)
      obtain used p where up: "up = (used, p)" by (cases up)
      let ?t2 = "?t1\<lparr>procs := used, running_pid := p\<rparr>"
      have p: "unat p < 8" using alloc_pid_Some(1) Some up by blast
      have work: "at_work frame name (command_buffer name args) s ?t2"
        by (rule at_work_cong [OF h(2)]) (simp_all add: same_tables_def)
      have placed2: "tables_placed ?t2" using tabs tables_placed_cong [of ?t2 s] keep(6) by (simp add: same_tables_def)
      have start: "execute frame ucmd s = start_process frame (running_pid s) ?t2"
        unfolding run2 Some up by simp
      show ?thesis
      proof (cases "length content < 28")
        case True
        note e = entry_read [OF work ex(1,2) place d sound, folded content_def]
        let ?t3 = "?t2\<lparr>memory := write_bytes (memory ?t2) (entry_at frame) (take 4 (drop 24 content))\<rparr>"
        have short: "int (length (take 4 (drop 24 content))) \<noteq> 4" using True by simp
        have "execute frame ucmd s = Some (Return (sti ?t3) (- 1))"
          unfolding start start_process_def e(1) Option.bind.simps prod.case if_P [OF short] ..
        moreover have "procs ?t3 = used" "running_pid ?t3 = p" by simp_all
        ultimately have "\<exists>x. execute frame ucmd s = Some (Return (sti x) (- 1)) \<and> procs x = used \<and> running_pid x = p" by blast
        then show ?thesis using True \<open>take 4 content = elf_header\<close> Some up by (auto simp: sti_def)
      next
        case False
        have mem: "memory ?t2 a = memory s a" if "128 \<le> unat (a - cmd_at frame)" "4 \<le> unat (a - header_at frame)" for a
          using write_bytes_out [of "take 4 content" a "header_at frame"] write_bytes_out [of "command_buffer name args" a "cmd_at frame" "memory s"]
            that four command_bytes(1) [OF ex(1,2)] by simp
        have facts: "unat (running_pid ?t2) < 8" "pcbs ?t2 = pcbs s" "terminals ?t2 = terminals s" "current_terminal ?t2 = current_terminal s"
          using p keep by simp_all
        have long: "28 \<le> length (file_content (vmem s) (bootblk s) (inode_idx d))" using False by (simp add: content_def)
        have tabs2: "same_tables ?t2 s" "bootblk ?t2 = bootblk s" by (simp_all add: cli_def same_tables_def)
        from start_process_loads [OF work ex(1,2) place d sound placed2 tabs2 facts mem cur par long, folded content_def]
        have "\<exists>s'. start_process frame (running_pid s) ?t2 = Some (Enter_user s' (le32 (take 4 (drop 24 content)))) \<and>
            procs s' = used \<and> loaded frame name args content p s s'" by simp
        then show ?thesis using False \<open>take 4 content = elf_header\<close> Some up start by auto
      qed
    qed
  qed
qed

subsection \<open>An image with a program\<close>

text \<open>
  The image of \<open>demo_image\<close> with a program of 28 bytes named \<^verbatim>\<open>shell\<close>, whose
  entry point is 0x8048018, and the string \<^verbatim>\<open>shell\<close> at 0x500400.
\<close>

definition shell_name :: "u8 list" where
  "shell_name = [0x73, 0x68, 0x65, 0x6C, 0x6C]"

definition shell_program :: "u8 list" where
  "shell_program = [0x7F, 0x45, 0x4C, 0x46, 0, 0, 0, 0, 0, 0, 0, 0, 0, 0, 0, 0, 0, 0, 0, 0, 0, 0, 0, 0, 0x18, 0x80, 0x04, 0x08]"

definition shell_image :: mem where
  "shell_image = (\<lambda>a.
     if a = 0x440000 then 2 else if a = 0x440004 then 2 else if a = 0x440008 then 3
     else if a = 0x440040 then 0x73 else if a = 0x440041 then 0x68 else if a = 0x440042 then 0x65
     else if a = 0x440043 then 0x6C else if a = 0x440044 then 0x6C
     else if a = 0x440060 then 2 else if a = 0x440064 then 1
     else if a = 0x442000 then 28 else if a = 0x442004 then 1
     else if a = 0x444000 then 0x7F else if a = 0x444001 then 0x45 else if a = 0x444002 then 0x4C
     else if a = 0x444003 then 0x46 else if a = 0x444018 then 0x18 else if a = 0x444019 then 0x80
     else if a = 0x44401A then 0x04 else if a = 0x44401B then 0x08
     else if a = 0x500400 then 0x73 else if a = 0x500401 then 0x68 else if a = 0x500402 then 0x65
     else if a = 0x500403 then 0x6C else if a = 0x500404 then 0x6C else 0)"

text \<open>A state that has this image where the loader put it, mapped onto itself.\<close>

definition has_shell :: "'a fs_scheme \<Rightarrow> bool" where
  "has_shell s \<longleftrightarrow> bootblk s = 0x440000 \<and>
     (\<forall>a. 0x440000 \<le> unat a \<longrightarrow> unat a < 0x501000 \<longrightarrow> translate s a = Some a) \<and>
     (\<forall>a. 0x440000 \<le> unat a \<and> unat a < 0x450000 \<or> 0x500400 \<le> unat a \<and> unat a < 0x500406 \<longrightarrow> memory s a = shell_image a)"

lemma has_shell_vmem:
  "has_shell s \<Longrightarrow> 0x440000 \<le> unat a \<and> unat a < 0x450000 \<or> 0x500400 \<le> unat a \<and> unat a < 0x500406 \<Longrightarrow> vmem s a = shell_image a"
  by (subst vmem_mapped [of s a a]) (auto simp: has_shell_def)

lemma shell_counts:
  assumes "has_shell s"
  shows "direntry_cnt (vmem s) 0x440000 = 2" "inode_cnt (vmem s) 0x440000 = 2" "datablk_cnt (vmem s) 0x440000 = 3"
    "inode_size (vmem s) 0x440000 1 = 28" "block_no (vmem s) 0x440000 1 0 = 1"
  by (simp_all add: direntry_cnt_def inode_cnt_def datablk_cnt_def inode_size_def inode_addr_def
      block_no_def load32_def has_shell_vmem [OF assms] shell_image_def)

lemma shell_content_addr: "has_shell s \<Longrightarrow> k < 28 \<Longrightarrow> content_addr (vmem s) 0x440000 1 k = 0x444000 + of_nat k"
  by (simp add: content_addr_def inode_addr_def shell_counts)

lemma upt28:
  "[0..<28] = [0, 1, 2, 3, 4, 5, 6, 7, 8, 9, 10, 11, 12, 13, 14, 15, 16, 17, 18, 19, 20, 21, 22, 23, 24, 25, 26, 27 :: nat]"
  by (simp add: upt_rec)

lemma shell_content: "has_shell s \<Longrightarrow> file_content (vmem s) 0x440000 1 = shell_program"
  by (simp add: file_content_def shell_counts upt28 shell_content_addr has_shell_vmem shell_image_def shell_program_def
      del: upt_rec_numeral)

lemma shell_entry:
  assumes "has_shell s"
  obtains d where "List.find (\<lambda>d. entry_name d = shell_name) (dentries s) = Some d" "inode_idx d = 1"
proof
  let ?d = "bytes_at (vmem s) 0x440040 64"
  have "cstr (vmem s) 0x440040 shell_name"
    by (simp add: cstr_def bytes_at_Suc has_shell_vmem [OF assms] shell_image_def shell_name_def)
  then have name: "entry_name ?d = shell_name"
    using takeWhile_cstr [of "vmem s" "0x440040" shell_name 32] by (simp add: entry_name_def filename_def take_bytes_at shell_name_def)
  have "dentries s = map (\<lambda>i. bytes_at (vmem s) (direntry_addr 0x440000 (of_nat i)) 64) (0 # [1..<63])"
    using assms by (simp add: dentries_def has_shell_def upt_conv_Cons del: upt_rec_numeral)
  then show "List.find (\<lambda>d. entry_name d = shell_name) (dentries s) = Some ?d"
    using name by (simp add: direntry_addr_def del: upt_rec_numeral)
  show "inode_idx ?d = 1"
    by (simp add: inode_idx_def le32_def load32_def has_shell_vmem [OF assms] shell_image_def)
qed

lemma shell_sound: "has_shell s \<Longrightarrow> file_sound 1 s"
  by (simp add: file_sound_def Let_def shell_counts blocks_valid_def) (simp add: has_shell_def shell_counts)

lemma shell_image_read:
  assumes "has_shell s" "a \<in> image_read shell_name s"
  shows "0x440000 \<le> unat a \<and> unat a < 0x450000"
proof -
  obtain d where d: "List.find (\<lambda>d. entry_name d = shell_name) (dentries s) = Some d" "inode_idx d = 1"
    using shell_entry [OF assms(1)] .
  have bb: "bootblk s = 0x440000" using assms(1) by (simp add: has_shell_def)
  consider "unat (a - 0x440000) < 4096" | "unat (a - 0x442000) < 4096" | k where "k < 28" "a = 0x444000 + of_nat k"
    using assms d by (auto simp: image_read_def image_part_def bb inode_addr_def shell_counts shell_content_addr)
  then show ?thesis
  proof cases
    case 1
    with unat_offset_eq [OF this] show ?thesis by simp
  next
    case 2
    with unat_offset_eq [OF this] show ?thesis by simp
  next
    case 3
    then have "unat (a - 0x444000) < 28" by simp
    with unat_offset_eq [OF this] show ?thesis by simp
  qed
qed

lemma shell_command:
  assumes "has_shell s"
  shows "cstr (vmem s) 0x500400 shell_name" "accessible s 0x500400 (length shell_name + 1)" "split_command shell_name = (shell_name, [])"
    "command_fits shell_name"
proof -
  show "cstr (vmem s) 0x500400 shell_name"
    by (simp add: cstr_def bytes_at_Suc has_shell_vmem [OF assms] shell_image_def shell_name_def)
  have "mapped_at s 0x500400 6 0x500400" unfolding mapped_at_def
  proof (intro allI impI)
    fix i :: nat assume "i < 6"
    moreover have "unat (of_nat (0x500400 + i) :: u32) = 0x500400 + i" by (rule unat_of_nat32) (use \<open>i < 6\<close> in simp)
    ultimately show "translate s (0x500400 + of_nat i) = Some (0x500400 + of_nat i)"
      using assms by (simp add: has_shell_def)
  qed
  then have "accessible s 0x500400 6" by (rule accessible_mapped)
  moreover have "length shell_name + 1 = 6" by (simp add: shell_name_def)
  ultimately show "accessible s 0x500400 (length shell_name + 1)" by (simp only:)
  show "split_command shell_name = (shell_name, [])" "command_fits shell_name"
    by (simp_all add: split_command_def shell_name_def command_fits_def)
qed

text \<open>The arrays of \<open>demo_frame\<close> are placed around it.\<close>

lemma shell_placed:
  assumes "has_shell s"
  shows "placed demo_frame (image_read shell_name s) s"
proof -
  have low: "low_region s b n" if "0x500000 \<le> unat b" "unat b + n \<le> 0x501000" for b n
    unfolding low_region_def mapped_at_def
  proof (intro conjI allI impI)
    fix i assume "i < n"
    have "b + of_nat i = of_nat (unat b + i)" by simp
    moreover have "unat (of_nat (unat b + i) :: u32) = unat b + i" by (rule unat_of_nat32) (use that \<open>i < n\<close> in simp)
    ultimately have "unat (b + of_nat i) = unat b + i" by (simp only:)
    then show "translate s (b + of_nat i) = Some (b + of_nat i)" using assms that \<open>i < n\<close> by (simp add: has_shell_def)
  qed (use that in simp_all)
  have away: "n \<le> unat (a - b)" if "unat a < 0x450000" "0x500000 \<le> unat b" "unat b < 0x501000" "n \<le> 128" for a b :: u32 and n
    using that by (simp add: unat_sub_if')
  have "translate s a = Some a" if "a \<in> image_read shell_name s" for a
    using shell_image_read [OF assms that] assms by (simp add: has_shell_def)
  moreover have "4 \<le> unat (of_nat j - 0x100 :: u32)" "4 \<le> unat (of_nat j - 0x200 :: u32)" if "j < 128" for j
    using that by (simp_all add: unat_sub_if' del: of_nat_unat)
  moreover have "4096 \<le> unat a \<and> unat a < 0x800000" if "a \<in> image_read shell_name s" for a
    using shell_image_read [OF assms that] by simp
  ultimately show ?thesis using shell_image_read [OF assms] low away
    by (simp add: placed_def demo_frame_def)
qed

text \<open>Such a state starts the program, and the program's start leaves such a state.\<close>

lemma shell_program_parts:
  "le32 (take 4 (drop 24 shell_program)) = 0x8048018" "take 4 shell_program = elf_header" "length shell_program = 28"
  by (simp_all add: shell_program_def le32_def load32_def elf_header_def)

lemma shell_starts:
  assumes shell: "has_shell s" and tabs: "tables_placed s" and al: "alloc_pid (procs s) = Some (used, p)"
    and cur: "running (terminal_at (unat (current_terminal s)) s) \<le> 1" "unat (current_terminal s) < 3" "length (terminals s) = 3"
    and par: "pid (pcbs s (running_pid s)) = ucast (running_pid s)"
  shows "\<exists>s'. execute demo_frame 0x500400 s = Some (Enter_user s' 0x8048018) \<and> procs s' = used \<and>
    loaded demo_frame shell_name [] shell_program p s s'"
proof -
  obtain d where d: "List.find (\<lambda>d. entry_name d = shell_name) (dentries s) = Some d" "inode_idx d = 1"
    using shell_entry [OF shell] .
  note c = shell_command [OF shell]
  have "file_sound (inode_idx d) s" using shell_sound [OF shell] d(2) by simp
  moreover have "file_content (vmem s) (bootblk s) (inode_idx d) = shell_program"
    using shell_content [OF shell] shell d(2) by (simp add: has_shell_def)
  ultimately show ?thesis
    using execute_program [OF _ c(1-4) shell_placed [OF shell] tabs d(1) _ cur par] al shell_program_parts by simp
qed

lemma shell_kept:
  assumes shell: "has_shell s" and tabs: "tables_placed s" and p: "unat p < 8"
    and l: "loaded demo_frame shell_name [] shell_program p s s'"
  shows "has_shell s'" "tables_placed s'"
proof -
  have same: "same_tables s' (fst (make_task_pgdir p s))" and boot: "bootblk s' = bootblk s" using l by (simp_all add: loaded_def Let_def)
  have "tables_placed (fst (make_task_pgdir p s))" using tabs by simp
  then show "tables_placed s'"
    using tables_placed_cong [of s' "fst (make_task_pgdir p s)"] same by (simp add: same_tables_def)
  have "translate s' a = Some a" if "0x440000 \<le> unat a" "unat a < 0x501000" for a
    using low_region_made [OF tabs p, of a 1] that by (simp add: translate_cong [OF same] mapped_at_def)
  moreover have "memory s' a = memory s a"
    if "0x440000 \<le> unat a \<and> unat a < 0x450000 \<or> 0x500400 \<le> unat a \<and> unat a < 0x500406" for a
  proof -
    have "28 \<le> unat (a - (user_page (unat p) + 0x48000))" using that by (intro program_page_above [OF p]) auto
    then show ?thesis using l that shell_program_parts(3)
      by (auto simp: loaded_def Let_def demo_frame_def unat_sub_if')
  qed
  ultimately show "has_shell s'" using shell boot by (simp add: has_shell_def)
qed

subsection \<open>Property\<close>

text \<open>
  C9: What \<^verbatim>\<open>execute\<close> does with a command, where the image and its local arrays are mapped onto
  themselves in the first 8 MB and apart from each other, the file found is one the file system can hold, the
  displayed terminal is one of the three and the starter's block holds its number: a command that does not fit its buffer runs over it; a
  name that is not in the directory, a file that does not start with the magic number of an executable, and a
  full process table are refused with -1 and nothing taken; a file too short for an entry point fails after the
  lowest free number was taken; any other file is in the page of that number from its first byte to its last
  when user code is entered at the entry point stored in it, in the address space \<^verbatim>\<open>make_task_pgdir\<close> builds and
  on the number's kernel stack, with standard input and output open, the command's name and arguments, the caller's stack and the links to the starter recorded, no
  block but its own and the starter's touched, and no byte outside the page and the local arrays changed.
\<close>

theorem execute_starts_program:
  assumes "ucmd \<noteq> 0" "cstr (vmem s) ucmd u" "accessible s ucmd (length u + 1)" "split_command u = (name, args)"
    and "placed frame (image_read name s) s" "tables_placed s"
    and "\<And>d. List.find (\<lambda>d. entry_name d = name) (dentries s) = Some d \<Longrightarrow> file_sound (inode_idx d) s"
    and "running (terminal_at (unat (current_terminal s)) s) \<le> 1" "unat (current_terminal s) < 3" "length (terminals s) = 3"
    and "pid (pcbs s (running_pid s)) = ucast (running_pid s)"
  shows "if \<not> command_fits u then execute frame ucmd s = None
    else case List.find (\<lambda>d. entry_name d = name) (dentries s) of
      None \<Rightarrow> \<exists>s'. execute frame ucmd s = Some (Return s' (- 1)) \<and> refusal s s'
    | Some d \<Rightarrow>
        let content = file_content (vmem s) (bootblk s) (inode_idx d) in
        if take 4 content \<noteq> elf_header then \<exists>s'. execute frame ucmd s = Some (Return s' (- 1)) \<and> refusal s s'
        else case alloc_pid (procs s) of
          None \<Rightarrow> \<exists>s'. execute frame ucmd s = Some (Return s' (- 1)) \<and> refusal s s'
        | Some (used, p) \<Rightarrow>
            if length content < 28
            then \<exists>s'. execute frame ucmd s = Some (Return s' (- 1)) \<and> int_flag s' \<and> procs s' = used \<and> running_pid s' = p
            else \<exists>s'. execute frame ucmd s = Some (Enter_user s' (le32 (take 4 (drop 24 content)))) \<and>
              procs s' = used \<and> loaded frame name args content p s s'"
proof (cases "command_fits u")
  case False
  then show ?thesis using execute_overlong [OF assms(1,2)] by simp
next
  case fits: True
  show ?thesis
  proof (cases "List.find (\<lambda>d. entry_name d = name) (dentries s)")
    case None
    let ?t = "(cli s)\<lparr>memory := write_bytes (memory s) (cmd_at frame) (command_buffer name args)\<rparr>"
    have "execute frame ucmd s = Some (Return (sti ?t) (- 1))"
      using execute_command(4) [OF assms(1-4) fits assms(5)] None by simp
    moreover have "refusal s (sti ?t)" by (simp add: refusal_def sti_def cli_def same_tables_def)
    ultimately show ?thesis using fits None by auto
  next
    case (Some d)
    from execute_program [OF assms(1-4) fits assms(5,6) Some assms(7) [OF Some] assms(8-11)]
    show ?thesis using fits Some by (simp add: Let_def)
  qed
qed

lemma demo_alloc: "alloc_pid 0x80 = Some (0xC0, 1)"
proof -
  have "(8 :: nat) = Suc (Suc 6)" by simp
  then show ?thesis unfolding alloc_pid_def by (simp only: alloc_pid_loop.simps) simp
qed

lemma execute_starts_program_witness:
  "\<exists>s'. execute demo_frame 0x500400 (demo_terms\<lparr>memory := shell_image\<rparr>) = Some (Enter_user s' 0x8048018) \<and>
    running_pid s' = 1 \<and> bytes_at (vmem s') LOAD_ADDR 28 = shell_program \<and> parent_pcb (pcbs s' 1) = Some 2"
proof -
  let ?s = "demo_terms\<lparr>memory := shell_image\<rparr>"
  have shell: "has_shell ?s" by (simp add: has_shell_def demo_terms_translate)
  obtain d where d: "List.find (\<lambda>d. entry_name d = shell_name) (dentries ?s) = Some d" "inode_idx d = 1"
    using shell_entry [OF shell] .
  note c = shell_command [OF shell]
  have tabs: "tables_placed ?s" using demo_terms_placed tables_placed_cong [of ?s demo_terms] by simp
  have sound: "file_sound (inode_idx e) ?s" if "List.find (\<lambda>d. entry_name d = shell_name) (dentries ?s) = Some e" for e
    using that d shell_sound [OF shell] by simp
  have content: "file_content (vmem ?s) (bootblk ?s) 1 = shell_program" using shell_content [OF shell] by simp
  have entry: "le32 (take 4 (drop 24 shell_program)) = 0x8048018" "take 4 shell_program = elf_header" "length shell_program = 28"
    by (simp_all add: shell_program_def le32_def load32_def elf_header_def)
  from execute_starts_program [OF _ c(1,2,3) shell_placed [OF shell] tabs sound]
  obtain s' where "execute demo_frame 0x500400 ?s = Some (Enter_user s' 0x8048018)" "loaded demo_frame shell_name [] shell_program 1 ?s s'"
    using c(4) d content entry demo_alloc by (auto simp: terminal_at_def demo_terminal_def Let_def)
  then show ?thesis using entry(3)
    by (auto simp: loaded_def links_set_def hangs_below_def terminal_at_def demo_terminal_def Let_def)
qed

end
