(* ===== verification/Kernel_Steps.thy ===== *)
theory Kernel_Steps
  imports Confinement Loading
begin

text \<open>
  The kernel as a whole: the step relation of the running machine, whose steps are the system
  calls, the interrupts of the timer, the keyboard and the clock, exceptions and stores of user
  code, and what holds in every state that it reaches from the start.
\<close>

subsection \<open>Steps\<close>

text \<open>A store of user code: the page must be open to it.\<close>

definition user_store :: "u32 \<Rightarrow> u8 \<Rightarrow> 'a paging_scheme \<Rightarrow> 'a paging_scheme option" where
  "user_store va b s =
     (case page_walk s va of
        Some (pa, True) \<Rightarrow> Some (s\<lparr>memory := (memory s)(pa := b)\<rparr>)
      | _ \<Rightarrow> None)"

text \<open>
  The kernel's variables are the fields of the record. In the machine they are also bytes of memory, in
  the kernel's page, which \<open>process_address_space\<close> shows open to programs: a store
  there, of user code or through a pointer that it hands to a system call, changes the variables behind the kernel's back.
  \<open>vars\<close> is where the linker put them, and a step of the model is one that stores nothing there.
\<close>

definition spares :: "u32 set \<Rightarrow> 'a machine_scheme \<Rightarrow> 'a machine_scheme \<Rightarrow> bool" where
  "spares vars s s' \<longleftrightarrow> (\<forall>a\<in>vars. memory s' a = memory s a)"

inductive kernel_step :: "u32 set \<Rightarrow> computer \<Rightarrow> computer \<Rightarrow> bool" for vars where
  system_call: "irqh_syscall env frame type arg1 arg2 arg3 s = Some out \<Longrightarrow> spares vars s (outcome_state out) \<Longrightarrow>
    kernel_step vars s (outcome_state out)"
| timer: "irqh_pit frame esp ebp s = Some t \<Longrightarrow> spares vars s (tick_state t) \<Longrightarrow> kernel_step vars s (tick_state t)"
| key: "irqh_keyboard status_byte data_byte s = Some s' \<Longrightarrow> spares vars s s' \<Longrightarrow> kernel_step vars s s'"
| clock: "kernel_step vars s (irqh_rtc s)"
| exception: "exc_handler frame conv_buf message e pushed s = Some out \<Longrightarrow> spares vars s (outcome_state out) \<Longrightarrow>
    kernel_step vars s (outcome_state out)"
| user: "user_store va b s = Some s' \<Longrightarrow> spares vars s s' \<Longrightarrow> kernel_step vars s s'"

inductive_cases kernel_step_cases: "kernel_step vars s s'"

lemma user_store_memory: "user_store va b s = Some s' \<Longrightarrow> only_memory s s'"
  by (auto simp: user_store_def split: option.split_asm prod.split_asm bool.split_asm if_split_asm)

lemma steady_step: "kernel_step vars s s' \<Longrightarrow> steady s s'"
  by (erule kernel_step_cases)
    (auto intro: steady_syscall steady_timer steady.keeps_keypress steady.keeps_tick steady_exception
      steady_memory user_store_memory)

lemma typed_timer:
  assumes "tables_typed s" "irqh_pit frame esp ebp s = Some t"
  shows "tables_typed (tick_state t)"
proof -
  obtain s1 c where s1: "take_switch s = Some s1" and c: "next_schedule (terminals s1) (schedule_counter s1) = Some c"
    using assms(2) by (auto simp: irqh_pit_def bind_eq_Some_conv)
  let ?s3 = "save_context esp ebp (s1\<lparr>schedule_counter := c, current_schedule := c\<rparr>)"
  have typed: "tables_typed s1" using take_switch_keeps [OF s1] assms(1) by (auto simp: same_but_cursor_def intro: tables_typed_pcbs)
  then have s3: "tables_typed ?s3"
    unfolding save_context_def by (intro tables_typed_update_pcb) (auto intro: tables_typed_pcbs)
  have "tables_typed (tick_state t)" if "resume_process c ?s3 = Some t"
  proof -
    have "pcbs (tick_state t) = pcbs ?s3" using that
      by (auto simp: resume_process_def Let_def bind_eq_Some_conv map_option_eq_Some set_pid_def dest!: typed_flush)
    with s3 show ?thesis by (rule tables_typed_pcbs)
  qed
  moreover have "tables_typed (outcome_state out)" if "execute frame cmd (send_eoi PIT_IRQ ?s3) = Some out" for cmd out
    by (rule typed_execute [OF _ that]) (rule tables_typed_pcbs [OF s3], simp)
  moreover have "tables_typed (send_eoi i (s1\<lparr>schedule_counter := c\<rparr>))" for i
    by (rule tables_typed_pcbs [OF typed]) simp
  ultimately show ?thesis using assms(2) s1 c
    by (auto simp: irqh_pit_def Let_def split: if_split_asm)
qed

lemma typed_exception:
  fixes s :: "'a keyboard_scheme"
  assumes "tables_typed s" "exc_handler frame conv_buf message e pushed s = Some out"
  shows "tables_typed (outcome_state out)"
proof -
  obtain s1 s2 r where steps: "(if exc_clears e then clear s else Some s) = Some s1"
      "printf conv_buf message (int_stack e pushed) s1 = Some (s2, r)"
      "halt frame 1 (set_program_exception 1 s2) = Some out"
    using assms(2) by (auto simp: exc_handler_def bind_eq_Some_conv)
  have "tables_typed s1" using steps(1) assms(1) tables_typed_kept [OF blocks.keeps_clear] by (auto split: if_split_asm)
  then have "tables_typed s2" using tables_typed_kept [OF blocks.keeps_printf [OF steps(2)]] by blast
  then have "tables_typed (set_program_exception 1 s2)" by (rule tables_typed_pcbs) (simp add: set_program_exception_def)
  then show ?thesis using steps(3) by (rule typed_halt)
qed

lemma typed_step: "kernel_step vars s s' \<Longrightarrow> tables_typed s \<Longrightarrow> tables_typed s'"
  by (erule kernel_step_cases)
    (auto intro: typed_syscall typed_timer typed_exception tables_typed_kept [OF blocks.keeps_keypress]
      tables_typed_kept [OF blocks.keeps_tick] tables_typed_kept [OF blocks_memory] user_store_memory)

subsection \<open>The start\<close>

definition same_contents :: "'a computer_scheme \<Rightarrow> 'a computer_scheme \<Rightarrow> bool" where
  "same_contents s s' \<longleftrightarrow> current_terminal s' = current_terminal s \<and> pcbs s' = pcbs s \<and> memory s' = memory s \<and>
     procs s' = procs s \<and> running_pid s' = running_pid s \<and>
     map vid_mem_buf (terminals s') = map vid_mem_buf (terminals s) \<and> map term_id (terminals s') = map term_id (terminals s)"

lemma same_contents_trans: "same_contents s t \<Longrightarrow> same_contents t u \<Longrightarrow> same_contents s u"
  by (simp add: same_contents_def)

lemma same_tables_trans: "same_tables s t \<Longrightarrow> same_tables t u \<Longrightarrow> same_tables s u"
  by (simp add: same_tables_def)

lemma device_contents:
  "same_contents s (init_i8259 s) \<and> same_tables (init_i8259 s) s"
  "init_keyboard s = Some s' \<Longrightarrow> same_contents s s' \<and> same_tables s' s"
  "init_rtc b a s = Some s' \<Longrightarrow> same_contents s s' \<and> same_tables s' s"
  "same_contents s (init_paging s)" "same_contents s (init_idt addr s) \<and> same_tables (init_idt addr s) s"
  "same_contents s (init_pit s) \<and> same_tables (init_pit s) s"
proof -
  show "same_contents s (init_i8259 s) \<and> same_tables (init_i8259 s) s"
    by (simp add: same_contents_def same_tables_def init_i8259_def enable_irq_def outb_def Let_def)
  have upd: "same_contents s (update_terminal t f u) \<and> same_tables (update_terminal t f u) s"
    if "\<And>x. vid_mem_buf (f x) = vid_mem_buf x" "\<And>x. term_id (f x) = term_id x" "same_contents s u" "same_tables u s" for t f u
    using that by (simp add: same_contents_def same_tables_def update_terminal_def map_list_update_same)
  show "same_contents s s' \<and> same_tables s' s" if "init_keyboard s = Some s'"
  proof -
    let ?e = "(enable_irq KEYBOARD_IRQ s)\<lparr>multi_byte := 0, caps_lock_repeat := 0\<rparr>"
    have e: "same_contents s ?e" "same_tables ?e s" by (simp_all add: same_contents_def same_tables_def enable_irq_def outb_def Let_def)
    have "s' = ?e \<or> (\<exists>t. s' = update_terminal t (\<lambda>x. x\<lparr>line_buf := replicate LINE_BUFFER_SIZE 0, line_buf_index := 0\<rparr>) ?e)"
      using that by (auto simp: init_keyboard_def clear_line_buf_def split: option.split_asm)
    then show ?thesis using e upd [OF _ _ e] by auto
  qed
  show "same_contents s s' \<and> same_tables s' s" if "init_rtc b a s = Some s'"
  proof -
    let ?e = "outb ((a AND TOP_BYTE_NIBBLE) OR of_nat (rate_code HZ1024)) RTC_DATA_PORT
      (outb (RTC_REG_A OR RTC_DIS_NMI) RTC_SEL_PORT (outb (RTC_REG_A OR RTC_DIS_NMI) RTC_SEL_PORT
      (outb (b OR PIE_MASK) RTC_DATA_PORT (outb (RTC_REG_B OR RTC_DIS_NMI) RTC_SEL_PORT
      (outb (RTC_REG_B OR RTC_DIS_NMI) RTC_SEL_PORT (enable_irq RTC_IRQ s))))))"
    have e: "same_contents s ?e" "same_tables ?e s" by (simp_all add: same_contents_def same_tables_def enable_irq_def outb_def Let_def)
    have "s' = ?e \<or> (\<exists>t. s' = update_terminal t (\<lambda>x. x\<lparr>rtc := (rtc x)\<lparr>real_freq := rate_freq HZ1024\<rparr>\<rparr>) ?e)"
      using that by (auto simp: init_rtc_def set_real_freq_rtc_def Let_def update_rtc_def split: option.split_asm)
    then show ?thesis using e upd [OF _ _ e] by auto
  qed
  show "same_contents s (init_paging s)" "same_contents s (init_idt addr s) \<and> same_tables (init_idt addr s) s"
    by (simp_all add: same_contents_def same_tables_def init_paging_def init_idt_def Let_def del: upt_rec_numeral)
  show "same_contents s (init_pit s) \<and> same_tables (init_pit s) s"
    by (simp add: same_contents_def same_tables_def init_pit_def enable_irq_def outb_def Let_def)
qed

lemma init_devices_contents:
  fixes s :: "'a computer_scheme"
  assumes "init_devices env s = Some s'"
  shows "\<exists>r :: 'a computer_scheme. same_tables r s \<and> same_tables s' (init_paging r) \<and> same_contents s s'"
proof -
  obtain s1 s2 where steps: "init_keyboard (init_i8259 s) = Some s1" "init_rtc (rtc_b env) (rtc_a env) s1 = Some s2"
    and s': "s' = init_pit (init_idt (entry_of env) (init_paging s2))"
    using assms by (auto simp: init_devices_def bind_eq_Some_conv)
  note video = device_contents(1) [of s] device_contents(2) [OF steps(1)] device_contents(3) [OF steps(2)] device_contents(4) [of s2]
    device_contents(5) [of "init_paging s2"] device_contents(6) [of "init_idt (entry_of env) (init_paging s2)"]
  have "same_tables s2 s" using video(1-3) same_tables_trans by blast
  moreover have "same_tables s' (init_paging s2)" unfolding s' using video(5,6) same_tables_trans by blast
  moreover have "same_contents s s'" unfolding s' using video same_contents_trans by blast
  ultimately show ?thesis by blast
qed

text \<open>
  Power on: what \<open>boot_ready\<close> asks, cleared page tables and interrupt table, and
  variables that are zero, as the loader leaves \<^verbatim>\<open>.bss\<close>.
\<close>

definition powered_on :: "u32 \<Rightarrow> computer \<Rightarrow> bool" where
  "powered_on mbi s \<longleftrightarrow> boot_ready mbi s \<and> cleared_tables s \<and> tables_typed s \<and>
     current_terminal s = 0 \<and> (\<forall>t<3. vid_mem_buf (terminal_at t s) = 0 \<and> term_id (terminal_at t s) = 0)"

lemma devices_confined:
  fixes s :: "'a computer_scheme"
  assumes "init_devices env s = Some s'" "cleared_tables s" "length (terminals s) = 3" "current_terminal s = 0"
    and "\<forall>t<3. vid_mem_buf (terminal_at t s) = 0"
  shows "confined s'"
proof -
  obtain r :: "'a computer_scheme" where r: "same_tables r s" "same_tables s' (init_paging r)" "same_contents s s'"
    using init_devices_contents [OF assms(1)] by blast
  have "cleared_tables r"
    using assms(2) r(1) tables_placed_cong [of r s] by (simp add: cleared_tables_def same_tables_def)
  then have "dirs_ok s'" using dirs_ok_cong [OF r(2)] dirs_ok_init [of r] by (simp add: cleared_tables_def)
  moreover have cr3: "cr3 s' = 0" using r(2) by (simp add: same_tables_def init_paging_rest)
  have len: "length (terminals s') = 3" using r(3) map_eq_imp_length_eq assms(3) by (force simp: same_contents_def)
  moreover have bufs: "map vid_mem_buf (terminals s') = map vid_mem_buf (terminals s)" using r(3) by (simp add: same_contents_def)
  have "vid_mem_buf (terminal_at t s') = 0" if "t < 3" for t
    using that len assms(3,5) arg_cong [OF bufs, of "\<lambda>l. l ! t"] by (simp add: terminal_at_def)
  ultimately show ?thesis using len cr3 r(3) assms(4) by (simp add: confined_def same_contents_def page_base_def)
qed

text \<open>The kernel's own terminals: each buffer is one of the pages after the screen's.\<close>

lemma update_terminal_twice: "update_terminal t g (update_terminal t f s) = update_terminal t (g \<circ> f) s"
  by (cases "t < length (terminals s)") (simp_all add: update_terminal_def list_update_beyond)

lemma init_terminal_form:
  obtains f where "\<And>x. vid_mem_buf (f x) = VIDEO + KB4 * (of_nat i + 1)"
    "init_terminal i s = (if i = 0 then Some (update_terminal i f s)
       else blank_cells (VIDEO + KB4 * (of_nat i + 1)) 2000 (update_terminal i f s))"
proof -
  let ?f = "\<lambda>t. t\<lparr>term_x := 0, term_y := 0, read_flag := 0, line_buf_index := 0,
      status := TASK_NOT_RUNNING, running := 0,
      rtc := \<lparr>virt_freq = RTC_DEFAULT_VIRT_FREQ, real_freq = RTC_DEFAULT_REAL_FREQ, int_count = 0, rtc_flag = 0\<rparr>,
      vid_mem_buf := VIDEO + KB4 * (of_nat i + 1), term_id := of_nat i, vidmapped := 0,
      line_buf := replicate LINE_BUFFER_SIZE 0\<rparr>"
  let ?u = "update_terminal i ?f s"
  let ?g = "if i = 0 then (\<lambda>t. t\<lparr>term_x := get_screen_x ?u, term_y := get_screen_y ?u\<rparr>) \<circ> ?f else ?f"
  show thesis
  proof (rule that)
    show "vid_mem_buf (?g x) = VIDEO + KB4 * (of_nat i + 1)" for x by simp
    show "init_terminal i s = (if i = 0 then Some (update_terminal i ?g s)
       else blank_cells (VIDEO + KB4 * (of_nat i + 1)) 2000 (update_terminal i ?g s))"
      by (simp add: init_terminal_def Let_def update_terminal_twice)
  qed
qed

lemma steady_init_terminal:
  fixes s :: "'a kernel_scheme"
  assumes "init_terminal i s = Some s'" "i < 3"
  shows "steady s s'"
proof -
  let ?buf = "VIDEO + KB4 * (of_nat i + 1)"
  have "i = 0 \<or> i = 1 \<or> i = 2" using assms(2) by auto
  then have low: "page_base 12 ?buf < 0x800000" by (auto simp: page_base_def drop_bit_eq_div push_bit_eq_mult)
  obtain f where f: "\<And>x. vid_mem_buf (f x) = ?buf"
    "init_terminal i s = (if i = 0 then Some (update_terminal i f s) else blank_cells ?buf 2000 (update_terminal i f s))"
    using init_terminal_form [where i = i and s = s] by metis
  have "steady s (update_terminal i f s)"
    using f(1) low assms(2) dirs_ok_cong [of "update_terminal i f s" s]
    by (auto simp: steady_def settings_def confined_def same_tables_def update_terminal_def terminal_at_def nth_list_update)
  moreover have "steady (update_terminal i f s) s'"
    using assms(1) f(2) steady_refl steady.keeps_blank by (auto split: if_split_asm)
  ultimately show ?thesis by (rule steady_trans)
qed

lemma steady_init_terminals:
  fixes s :: "'a kernel_scheme"
  assumes "init_terminals frame s = Some out"
  shows "steady s (outcome_state out)"
proof -
  obtain s1 s2 s3 where steps: "init_terminal 0 s = Some s1" "init_terminal 1 s1 = Some s2" "init_terminal 2 s2 = Some s3"
      "execute frame (shell_at frame) ((update_terminal 0 (\<lambda>t. t\<lparr>running := 1, status := TASK_RUNNING\<rparr>) s3)\<lparr>current_terminal := 0\<rparr>) = Some out"
    using assms by (auto simp: init_terminals_def init_terminal_state_def bind_eq_Some_conv map_option_eq_Some)
  have "steady s s3"
    by (rule steady_trans [OF steady_init_terminal [OF steps(1)] steady_trans [OF steady_init_terminal [OF steps(2)] steady_init_terminal [OF steps(3)]]])
      simp_all
  moreover have "steady s3 ((update_terminal 0 (\<lambda>t. t\<lparr>running := 1, status := TASK_RUNNING\<rparr>) s3)\<lparr>current_terminal := 0\<rparr>)"
    by (rule steady_trans [OF steady.terminal_law steady.shown_law]) simp_all
  ultimately show ?thesis using steady_execute [OF steps(4)] steady_trans by blast
qed

lemma typed_boot_devices: "init_devices env s = Some s' \<Longrightarrow> tables_typed s \<Longrightarrow> tables_typed s'"
  using init_devices_contents [of env s s'] by (auto simp: same_contents_def intro: tables_typed_pcbs)

lemma typed_init_terminals:
  fixes s :: "'a keyboard_scheme"
  assumes "tables_typed s" "init_terminals frame s = Some out"
  shows "tables_typed (outcome_state out)"
proof -
  obtain s1 s2 s3 where steps: "init_terminal 0 s = Some s1" "init_terminal 1 s1 = Some s2" "init_terminal 2 s2 = Some s3"
      "execute frame (shell_at frame) ((update_terminal 0 (\<lambda>t. t\<lparr>running := 1, status := TASK_RUNNING\<rparr>) s3)\<lparr>current_terminal := 0\<rparr>) = Some out"
    using assms(2) by (auto simp: init_terminals_def init_terminal_state_def bind_eq_Some_conv map_option_eq_Some)
  have "pcbs t' = pcbs t" if "init_terminal i t = Some t'" for i and t t' :: "'a keyboard_scheme"
    using that by (auto simp: init_terminal_def Let_def same_blocks_def split: if_split_asm dest!: blocks.keeps_blank)
  then have "pcbs s3 = pcbs s" using steps(1-3) by metis
  then show ?thesis using assms(1) by (intro typed_execute [OF _ steps(4)]) (simp add: tables_typed_def)
qed

text \<open>The state in which the kernel enters its first shell.\<close>

lemma boot_kernel_state:
  assumes on: "powered_on mbi s" and boot: "boot_kernel env mbi s = Some (First_shell out)"
  obtains s1 s2 where "init_devices env (init_segments env s) = Some s1" "open_module mbi s1 = Some (s2, 0)"
    "confined s2" "tables_typed s2" "steady s2 (outcome_state out)" "tables_typed (outcome_state out)"
proof -
  let ?s = "init_segments env s"
  obtain s1 s2 r where steps: "init_devices env ?s = Some s1" "open_module mbi s1 = Some (s2, r)"
    and rest: "(if r \<noteq> 0 then map_option (\<lambda>(s, _). Hung s) (printf (print_buf env) (fs_failed env) [] s2)
      else Option.bind (clear s2) (\<lambda>s. map_option First_shell (init_terminals (first_frame env) s))) = Some (First_shell out)"
    using boot by (auto simp: boot_kernel_def bind_eq_Some_conv)
  then have r: "r = 0" by (auto simp: map_option_eq_Some split: if_split_asm)
  then obtain s3 where s3: "clear s2 = Some s3" "init_terminals (first_frame env) s3 = Some out"
    using rest by (auto simp: bind_eq_Some_conv map_option_eq_Some)
  note b = on [unfolded powered_on_def]
  have seg: "cleared_tables ?s" "terminals ?s = terminals s" "current_terminal ?s = current_terminal s" "pcbs ?s = pcbs s"
    using b tables_placed_cong [of ?s s] by (simp_all add: init_segments_def Let_def cleared_tables_def)
  then have s1: "confined s1" using b by (intro devices_confined [OF steps(1)]) (simp_all add: boot_ready_def terminal_at_def)
  have typed: "tables_typed s1" using typed_boot_devices [OF steps(1)] b seg(4) by (simp add: tables_typed_def)
  obtain q :: computer where q: "same_tables q ?s" "same_tables s1 (init_paging q)" "same_contents ?s s1"
    using init_devices_contents [OF steps(1)] by blast
  have "tables_placed q" using q(1) seg(1) tables_placed_cong [of q ?s] by (simp add: cleared_tables_def same_tables_def)
  moreover have "memory s1 = memory s" using q(3) by (simp add: same_contents_def init_segments_def Let_def)
  ultimately have s2: "s2 = s1\<lparr>bootblk := load32 (memory s) (load32 (memory s) (mbi + 24))\<rparr>"
    using open_module_boot [OF _ _ q(2)] b steps(2) by fastforce
  have "confined s2" unfolding s2 using s1 dirs_ok_cong [of "s1\<lparr>bootblk := x\<rparr>" s1 for x]
    by (simp add: confined_def same_tables_def terminal_at_def)
  moreover have "tables_typed s2" unfolding s2 using typed by (simp add: tables_typed_def)
  moreover have "steady s2 (outcome_state out)"
    using steady.keeps_clear [OF s3(1)] steady_init_terminals [OF s3(2)] by (rule steady_trans)
  moreover have "tables_typed (outcome_state out)"
    using tables_typed_kept [OF blocks.keeps_clear [OF s3(1)]] \<open>tables_typed s2\<close> typed_init_terminals [OF _ s3(2)] by blast
  ultimately show thesis using that steps r by blast
qed

text \<open>The start gets as far as executing the first shell.\<close>

lemma page_mapped_at_boot:
  assumes "same_tables s (init_paging r)" "tables_placed r" "4096 \<le> unat a" "unat a + n \<le> 0x800000"
  shows "mapped_at s a n a"
  unfolding mapped_at_def
proof (intro allI impI)
  fix i assume i: "i < n"
  have "a + of_nat i = of_nat (unat a + i)" by simp
  moreover have "unat (of_nat (unat a + i) :: u32) = unat a + i" by (rule unat_of_nat32) (use assms(4) i in simp)
  ultimately have "unat (a + of_nat i) = unat a + i" by (simp only:)
  then show "translate s (a + of_nat i) = Some (a + of_nat i)"
    using assms(3,4) i by (intro boot_translate(1) [OF assms(1,2)]) simp_all
qed

text \<open>What the last steps of the start leave alone: all but the terminals and their four pages of pictures.\<close>

definition prepares :: "'a kernel_scheme \<Rightarrow> 'a kernel_scheme \<Rightarrow> bool" where
  "prepares s t \<longleftrightarrow> same_tables t s \<and> procs t = procs s \<and> running_pid t = running_pid s \<and> pcbs t = pcbs s \<and>
     bootblk t = bootblk s \<and> length (terminals t) = length (terminals s) \<and>
     (\<forall>a. unat a < 0xB8000 \<or> 0xBC000 \<le> unat a \<longrightarrow> memory t a = memory s a)"

lemma prepares_trans: "prepares s t \<Longrightarrow> prepares t u \<Longrightarrow> prepares s u"
  by (simp add: prepares_def same_tables_def)

lemma prepares_terminal: "prepares s (update_terminal t f s)"
  by (simp add: prepares_def same_tables_def update_terminal_def)

lemma blank_at_boot:
  assumes "same_tables s (init_paging r)" "tables_placed r" "0xB8000 \<le> unat a" "unat a + 4000 \<le> 0xBC000"
  shows "\<exists>m. blank_cells a 2000 s = Some (s\<lparr>memory := m\<rparr>) \<and> prepares s (s\<lparr>memory := m\<rparr>)"
proof -
  have map: "mapped_at s a 4000 a" using assms(3,4) by (intro page_mapped_at_boot [OF assms(1,2)]) simp_all
  obtain m where m: "blank_cells a 2000 s = Some (s\<lparr>memory := m\<rparr>)" using blank_cells_screen [OF map, of 0 2000] by auto
  have "within a s (s\<lparr>memory := m\<rparr>)" using blank_cells_within [OF map, of 0 2000] m by simp
  moreover have "4000 \<le> unat (b - a)" if "unat b < 0xB8000 \<or> 0xBC000 \<le> unat b" for b
    using that assms(3,4) by (auto simp: unat_sub_if')
  ultimately show ?thesis using m by (auto simp: prepares_def same_tables_def within_def)
qed

lemma init_terminal_at_boot:
  assumes "same_tables s (init_paging r)" "tables_placed r" "i < 3"
  shows "\<exists>s'. init_terminal i s = Some s' \<and> prepares s s'"
proof -
  let ?buf = "VIDEO + KB4 * (of_nat i + 1)"
  have "i = 0 \<or> i = 1 \<or> i = 2" using assms(3) by auto
  then have buf: "0xB8000 \<le> unat ?buf" "unat ?buf + 4000 \<le> 0xBC000" by auto
  obtain f where f: "init_terminal i s = (if i = 0 then Some (update_terminal i f s) else blank_cells ?buf 2000 (update_terminal i f s))"
    using init_terminal_form [where i = i and s = s] by metis
  have u: "same_tables (update_terminal i f s) (init_paging r)" using same_tables_trans [OF same_tables_update_terminal assms(1)] .
  from blank_at_boot [OF u assms(2) buf] obtain m where
    m: "blank_cells ?buf 2000 (update_terminal i f s) = Some ((update_terminal i f s)\<lparr>memory := m\<rparr>)"
      "prepares (update_terminal i f s) ((update_terminal i f s)\<lparr>memory := m\<rparr>)" by blast
  then show ?thesis using f prepares_terminal prepares_trans [OF prepares_terminal m(2)] by auto
qed

text \<open>The state in which the first \<^verbatim>\<open>execute\<close> runs.\<close>

definition first_execute :: "u32 \<Rightarrow> computer \<Rightarrow> computer \<Rightarrow> bool" where
  "first_execute mbi s t \<longleftrightarrow> procs t = procs s \<and> running_pid t = running_pid s \<and> pcbs t = pcbs s \<and>
     bootblk t = load32 (memory s) (load32 (memory s) (mbi + 24)) \<and> length (terminals t) = 3 \<and> current_terminal t = 0 \<and>
     running (terminal_at 0 t) = 1 \<and> tables_placed t \<and>
     (\<forall>a. 4096 \<le> unat a \<longrightarrow> unat a < 0x800000 \<longrightarrow> translate t a = Some a) \<and>
     (\<forall>a. unat a < 0xB8000 \<or> 0xBC000 \<le> unat a \<longrightarrow> memory t a = memory s a)"

lemma boot_kernel_runs:
  assumes on: "powered_on mbi s"
  shows "\<exists>t. boot_kernel env mbi s = map_option First_shell (execute (first_frame env) (shell_at (first_frame env)) t) \<and>
    first_execute mbi s t"
proof -
  let ?s = "init_segments env s"
  have ready: "boot_ready mbi s" and b: "cleared_tables s" "length (terminals s) = 3" "current_terminal s = 0"
      "\<forall>t<3. term_id (terminal_at t s) = 0" "get_running_terminal s = Some (Some 0)"
    using on by (simp_all add: powered_on_def boot_ready_def)
  obtain s1 s2 where up: "init_devices env ?s = Some s1" "open_module mbi s1 = Some (s2, 0)"
    using boot_machine_up [OF ready, of env] by auto
  have seg: "cleared_tables ?s" "terminals ?s = terminals s" "current_terminal ?s = current_terminal s" "memory ?s = memory s"
      "procs ?s = procs s" "running_pid ?s = running_pid s" "pcbs ?s = pcbs s"
    using b tables_placed_cong [of ?s s] by (simp_all add: init_segments_def Let_def cleared_tables_def)
  obtain q :: computer where q: "same_tables q ?s" "same_tables s1 (init_paging q)" "same_contents ?s s1"
    using init_devices_contents [OF up(1)] by blast
  have placed: "tables_placed q" using q(1) seg(1) tables_placed_cong [of q ?s] by (simp add: cleared_tables_def same_tables_def)
  have s2: "s2 = s1\<lparr>bootblk := load32 (memory s) (load32 (memory s) (mbi + 24))\<rparr>"
    using open_module_boot [OF ready _ q(2) placed] up(2) q(3) seg(4) by (simp add: same_contents_def)
  have tables: "same_tables s2 (init_paging q)" unfolding s2 using q(2) by (simp add: same_tables_def)
  have run: "get_running_terminal s2 = Some (Some 0)" using boot_machine_up [OF ready, of env] up by auto
  have ids: "map term_id (terminals s2) = map term_id (terminals s)" unfolding s2 using q(3) seg(2) by (simp add: same_contents_def)
  have "term_id (terminal_at 0 s2) = 0"
    using arg_cong [OF ids, of "\<lambda>l. l ! 0"] map_eq_imp_length_eq [OF ids] b(2,4) by (simp add: terminal_at_def)
  moreover have "current_terminal s2 = 0" unfolding s2 using q(3) seg(3) b(3) by (simp add: same_contents_def)
  ultimately have shown: "hidden_terminal (Some 0) s2 = None" by (simp add: hidden_terminal_def)
  obtain m where m: "blank_cells VIDEO 2000 s2 = Some (s2\<lparr>memory := m\<rparr>)" "prepares s2 (s2\<lparr>memory := m\<rparr>)"
    using blank_at_boot [OF tables placed, of VIDEO] by auto
  let ?s3 = "set_screen_xy 0 0 (s2\<lparr>memory := m\<rparr>)"
  have clear: "clear s2 = Some ?s3" using run shown m by (simp add: clear_def)
  have p3: "prepares s2 ?s3"
    using m(2) by (simp add: prepares_def same_tables_def set_screen_xy_def set_cursor_location_def outb_def Let_def)
  have same: "same_tables u (init_paging q)" if "prepares s2 u" for u
    using that tables same_tables_trans by (auto simp: prepares_def)
  obtain t1 where t1: "init_terminal 0 ?s3 = Some t1" "prepares s2 t1"
    using init_terminal_at_boot [OF same [OF p3] placed, of 0] prepares_trans [OF p3] by auto
  obtain t2 where t2: "init_terminal 1 t1 = Some t2" "prepares s2 t2"
    using init_terminal_at_boot [OF same [OF t1(2)] placed, of 1] prepares_trans [OF t1(2)] by auto
  obtain t3 where t3: "init_terminal 2 t2 = Some t3" "prepares s2 t3"
    using init_terminal_at_boot [OF same [OF t2(2)] placed, of 2] prepares_trans [OF t2(2)] by auto
  let ?t = "(update_terminal 0 (\<lambda>t. t\<lparr>running := 1, status := TASK_RUNNING\<rparr>) t3)\<lparr>current_terminal := 0\<rparr>"
  have p4: "prepares s2 ?t"
    using prepares_trans [OF t3(2) prepares_terminal [of t3 0]] by (simp add: prepares_def same_tables_def)
  have len: "length (terminals s2) = 3" using map_eq_imp_length_eq [OF ids] b(2) by simp
  then have "length (terminals t3) = 3" using t3(2) by (simp add: prepares_def)
  then have "running (terminal_at 0 ?t) = 1" by (simp add: terminal_at_def update_terminal_def)
  moreover have "tables_placed ?t"
    using same [OF p4] placed tables_placed_cong [of ?t "init_paging q"] tables_placed_cong [of "init_paging q" q]
    by (simp add: same_tables_def)
  moreover have "translate ?t a = Some a" if "4096 \<le> unat a" "unat a < 0x800000" for a
    using boot_translate(1) [OF same [OF p4] placed that] .
  moreover have "procs s2 = procs s" "running_pid s2 = running_pid s" "pcbs s2 = pcbs s" "memory s2 = memory s"
    using q(3) seg by (simp_all add: s2 same_contents_def)
  ultimately have "first_execute mbi s ?t" using p4 len by (simp add: first_execute_def prepares_def s2)
  moreover have "boot_kernel env mbi s = map_option First_shell (execute (first_frame env) (shell_at (first_frame env)) ?t)"
    using up clear t1(1) t2(1) t3(1) by (simp add: boot_kernel_def init_terminals_def init_terminal_state_def)
  ultimately show ?thesis by blast
qed

subsection \<open>Property\<close>

lemma steady_steps: "(kernel_step vars)\<^sup>*\<^sup>* s s' \<Longrightarrow> steady s s' \<and> (tables_typed s \<longrightarrow> tables_typed s')"
  by (induction rule: rtranclp_induct) (auto intro: steady_refl steady_trans steady_step typed_step)

lemma segments_kept:
  fixes s t :: computer
  assumes "kernel.more s = kernel.more t"
  shows "segments_set env s = segments_set env t"
  using assms by (cases s; cases t; simp add: segments_set_def)

subsection \<open>A machine that starts a shell\<close>

text \<open>The machine of \<open>demo_computer\<close> before anything ran, with the image of \<open>shell_image\<close>.\<close>

definition cold_computer :: computer where
  "cold_computer = demo_computer\<lparr>pgdir := (\<lambda>_ _. 0), pgtbl_proc := (\<lambda>_ _. 0), procs := 0,
     memory := store32 (store32 shell_image 0x9018 0xA000) 0xA000 0x440000\<rparr>"

text \<open>Where its kernel's descriptors are.\<close>

definition demo_vars :: "u32 set" where
  "demo_vars = {a. 0x408000 \<le> unat a \<and> unat a < 0x408200}"

lemma cold_computer_module:
  "load32 (memory cold_computer) 0x9018 = 0xA000" "load32 (memory cold_computer) 0xA000 = 0x440000"
  "load32 (memory cold_computer) 0x440000 = 2" "0x440000 \<le> unat a \<Longrightarrow> memory cold_computer a = shell_image a"
  by (simp_all add: cold_computer_def load32_def store32_def shell_image_def) (auto simp: shell_image_def)

lemma cold_computer_on: "powered_on 0x9000 cold_computer"
proof -
  have run: "get_running_terminal cold_computer = get_running_terminal demo_computer"
    by (rule running_same) (simp_all add: cold_computer_def)
  have fields: "length (terminals cold_computer) = 3" "master_mask cold_computer = 0xFF" "slave_mask cold_computer = 0xFF"
      "length (idt cold_computer) = NUM_VEC"
    by (simp_all add: cold_computer_def)
  have "tables_placed cold_computer"
    using demo_boot_ready tables_placed_cong [of cold_computer demo_computer]
    by (simp add: boot_ready_def cold_computer_def)
  then have "boot_ready 0x9000 cold_computer" using run fields cold_computer_module by (simp add: boot_ready_def Let_def)
  moreover have "cleared_tables cold_computer" using \<open>tables_placed cold_computer\<close>
    by (simp add: cleared_tables_def) (simp add: cold_computer_def)
  moreover have "table_typed (fds (pcbs (demo_keyboard []) 0))" using demo_tables_typed by (simp only: tables_typed_def)
  then have "tables_typed cold_computer"
    by (simp add: tables_typed_def cold_computer_def demo_computer_def kernel.extend_def blank_pcb_def)
  moreover have "current_terminal cold_computer = 0 \<and>
      (\<forall>t<3. vid_mem_buf (terminal_at t cold_computer) = 0 \<and> term_id (terminal_at t cold_computer) = 0)"
    by (simp add: cold_computer_def demo_computer_def kernel.extend_def terminal_at_def demo_terminal_def all_below_3
        demo_kernel_def scheduler.extend_def)
  ultimately show ?thesis unfolding powered_on_def by blast
qed

lemma alloc_first: "alloc_pid 0 = Some (0x80, 0)"
proof -
  have "(8 :: nat) = Suc 7" by simp
  then show ?thesis unfolding alloc_pid_def by (simp only: alloc_pid_loop.simps) simp
qed

text \<open>Its start runs the shell as process 0.\<close>

lemma cold_computer_boots:
  obtains t s where "boot_kernel demo_boot 0x9000 cold_computer = Some (First_shell (Enter_user s 0x8048018))"
    "loaded demo_frame shell_name [] shell_program 0 t s" "procs s = 0x80" "has_shell s" "tables_placed s"
    "tables_placed t" "current_terminal s = 0" "terminals s = terminals t" "running (terminal_at 0 t) = 1" "length (terminals t) = 3"
proof -
  obtain t where t: "boot_kernel demo_boot 0x9000 cold_computer =
      map_option First_shell (execute demo_frame 0x500400 t)" "first_execute 0x9000 cold_computer t"
    using boot_kernel_runs [OF cold_computer_on, of demo_boot] by (auto simp: demo_boot_def demo_frame_def)
  note f = t(2) [unfolded first_execute_def]
  have "has_shell t" using f cold_computer_module by (auto simp: has_shell_def)
  moreover have "procs t = 0" "pid (pcbs t (running_pid t)) = 0" "running_pid t = 0"
    using f by (simp_all add: cold_computer_def demo_computer_def kernel.extend_def blank_pcb_def)
  ultimately obtain s where s: "execute demo_frame 0x500400 t = Some (Enter_user s 0x8048018)" "procs s = 0x80"
      "loaded demo_frame shell_name [] shell_program 0 t s"
    using shell_starts [of t "0x80" 0] f alloc_first by auto
  have "current_terminal s = 0" "terminals s = terminals t" using s(3) f by (simp_all add: loaded_def Let_def)
  then show thesis using that [of s t] t(1) s f shell_kept [OF \<open>has_shell t\<close> _ _ s(3)] by simp
qed

text \<open>A program's page is open to it.\<close>

lemma loaded_store:
  fixes s t :: "'a terms_scheme"
  assumes "loaded frame name args content p s t" "tables_placed s" "unat p < 8"
  shows "user_store 0x8000000 b t = Some (t\<lparr>memory := (memory t)(user_page (unat p) := b)\<rparr>)"
proof -
  have "same_tables t (fst (make_task_pgdir p s))" using assms(1) by (simp add: loaded_def Let_def)
  moreover have "unat (drop_bit 22 (0x8000000 :: u32)) = 32" by (simp add: drop_bit_eq_div unat_div)
  ultimately have "page_walk t 0x8000000 = Some (user_page (unat p), True)"
    using make_task_pgdir_walk(2) [OF assms(2,3) refl, of "0x8000000"] by (simp add: page_walk_cong take_bit_eq_mod)
  then show ?thesis by (simp add: user_store_def)
qed

subsection \<open>Property\<close>



end
