(* ===== verification/Isolation.thy ===== *)
theory Isolation
  imports Kernel_Steps
begin

text \<open>
  Memory isolation: no entry into the kernel and no store of user code changes a byte in the page
  of a process in use, but that of the process whose directory is loaded and that of the process whose number the current
  block holds. The relation \<open>stays_inside\<close>, an instance of
  \<open>kernel_frame\<close>, covers what runs in one address space; \<open>own_page\<close>, an instance
  of \<open>memory_frame\<close>, covers the parts of \<^verbatim>\<open>execute\<close>, which runs in two.
\<close>

subsection \<open>Writes through the loaded directory\<close>

definition own_page :: "'a kernel_scheme \<Rightarrow> 'a kernel_scheme \<Rightarrow> bool" where
  "own_page s s' \<longleftrightarrow> (confined s \<longrightarrow> confined s' \<and> cr3 s' = cr3 s \<and>
     (\<forall>q<8. \<forall>a. q \<noteq> cr3 s \<longrightarrow> in_user_page q a \<longrightarrow> memory s' a = memory s a))"

lemma translate_confined:
  assumes "confined s" "translate s va = Some pa" "q < 8" "q \<noteq> cr3 s"
  shows "\<not> in_user_page q pa"
proof -
  obtain u where "page_walk_in s (cr3 s) va = Some (pa, u)" using assms(2) by (auto simp: translate_def page_walk_def)
  then have "pa < 0x800000 \<or> in_user_page (cr3 s) pa" using assms(1) by (intro walk_confined) (simp_all add: confined_def)
  moreover have "cr3 s < 8" using assms(1) by (simp add: confined_def)
  ultimately show ?thesis using user_pages_disjoint [OF assms(3), of "cr3 s" pa] assms(4) by auto
qed

lemma own_page_write:
  fixes s :: "'a kernel_scheme"
  assumes "put_byte dst b s = Some s'"
  shows "own_page s s'"
proof -
  obtain pa where pa: "translate s dst = Some pa" "s' = s\<lparr>memory := (memory s)(pa := b)\<rparr>"
    using assms by (auto simp: put_byte_def)
  have "confined s'" if "confined s" using that steady.write_law [OF assms] by (simp add: steady_def)
  then show ?thesis using translate_confined [OF _ pa(1)] by (auto simp: own_page_def pa(2))
qed

interpretation own: memory_frame "own_page :: 'a kernel_scheme \<Rightarrow> 'a kernel_scheme \<Rightarrow> bool"
proof
  show "own_page s s'" if "put_byte dst b s = Some s'" for dst b and s s' :: "'a kernel_scheme"
    using that by (rule own_page_write)
qed (simp_all add: own_page_def)

text \<open>The whole page frame of an aligned address lies where its first byte lies.\<close>

lemma translate_frame:
  assumes "translate s va = Some pa" "take_bit 12 va = 0" "i < 4096"
  shows "translate s (va + of_nat i) = Some (pa + of_nat i)" "take_bit 12 pa = 0"
proof -
  obtain u where walk: "page_walk_in s (cr3 s) va = Some (pa, u)" using assms(1) by (auto simp: translate_def page_walk_def)
  note v = aligned_plus [OF assms(2,3)]
  let ?pde = "pgdir s (cr3 s) (unat (drop_bit 22 va))"
  have i: "take_bit 22 (of_nat i :: u32) = of_nat i"
    using assms(3) by (simp add: take_bit_eq_mod word_unat_eq_iff unat_mod unat_of_nat32)
  have "take_bit 12 pa = 0 \<and> page_walk_in s (cr3 s) (va + of_nat i) = Some (pa OR of_nat i, u)"
  proof (cases "bit ?pde 7")
    case True
    then have pa: "pa = page_base 22 ?pde OR take_bit 22 va" and pres: "bit ?pde 0" "u = bit ?pde 2"
      using walk by (auto simp: page_walk_in_def Let_def split: if_split_asm)
    have "take_bit 12 (page_base 22 ?pde) = 0" by (rule bit_word_eqI) (auto simp: page_base_def bit_simps)
    moreover have "take_bit 12 (take_bit 22 va) = 0" using assms(2) by simp
    moreover have "take_bit 22 (va + of_nat i) = take_bit 22 va OR of_nat i" unfolding v(4) by (simp add: i)
    ultimately show ?thesis using True pres by (simp add: pa page_walk_in_def Let_def v(3) or.assoc take_bit_or)
  next
    case False
    then obtain t where t: "table_at s (page_base 12 ?pde) = Some t" "bit ?pde 0" "bit (t (unat (take_bit 10 (drop_bit 12 va)))) 0"
      and pa: "pa = page_base 12 (t (unat (take_bit 10 (drop_bit 12 va)))) OR take_bit 12 va"
        "u = (bit ?pde 2 \<and> bit (t (unat (take_bit 10 (drop_bit 12 va)))) 2)"
      using walk by (auto simp: page_walk_in_def Let_def split: if_split_asm option.split_asm)
    then show ?thesis using False assms(2) by (simp add: page_walk_in_def Let_def v(1-3))
  qed
  then show "take_bit 12 pa = 0" "translate s (va + of_nat i) = Some (pa + of_nat i)"
    using aligned_plus(4) [of pa i] assms(3) by (simp_all add: translate_def page_walk_def)
qed

lemma own_page_scroll:
  fixes s :: "'a kernel_scheme"
  assumes pa: "translate s VIDEO = Some pa"
  shows "own_page s (s\<lparr>memory := memmove (memory s) pa (pa + 160) 3840\<rparr>)"
proof -
  let ?m = "memmove (memory s) pa (pa + 160) 3840"
  have frame: "translate s (VIDEO + of_nat i) = Some (pa + of_nat i)" if "i < 4096" for i
    by (rule translate_frame(1) [OF pa _ that]) (simp add: take_bit_eq_mod)
  have "take_bit 12 pa = 0" by (rule translate_frame(2) [OF pa, of 0]) (simp_all add: take_bit_eq_mod)
  then have "take_bit 12 (unat pa) = 0" by (metis unsigned_take_bit_eq unsigned_0)
  then have "unat pa mod 4096 = 0" by (simp add: take_bit_eq_mod)
  then obtain k where k: "unat pa = 4096 * k" by (metis mod_0_imp_dvd dvdE)
  then have "k < 1048576" using unat_lt32 [of pa] by linarith
  then have room: "unat pa + 4096 \<le> 4294967296" using k by linarith
  have "unat (pa + 160) = unat pa + 160" using room by (simp add: unat_word_ariths)
  then have m: "?m = copy_bytes (memory s) pa (pa + 160) 3840"
    using memmove_is_copy [of pa 3840 "pa + 160" "memory s"] room by simp
  have "?m a = memory s a" if "confined s" "q < 8" "q \<noteq> cr3 s" "in_user_page q a" for q a
  proof (cases "unat (a - pa) < 3840")
    case True
    then have "translate s (VIDEO + of_nat (unat (a - pa))) = Some (pa + of_nat (unat (a - pa)))" by (intro frame) simp
    then have "translate s (VIDEO + (a - pa)) = Some a" by simp
    then show ?thesis using translate_confined that by blast
  next
    case False
    then show ?thesis unfolding m by (simp add: copy_bytes_def)
  qed
  moreover have "confined s \<Longrightarrow> confined (s\<lparr>memory := ?m\<rparr>)"
    using steady_memory [of s "s\<lparr>memory := ?m\<rparr>"] by (simp add: steady_def)
  ultimately show ?thesis by (simp add: own_page_def)
qed

subsection \<open>What runs in one address space\<close>

text \<open>The process whose directory a remapping of the screen changes and loads: the number in the current block, cut to a byte.\<close>

definition block_pid :: "'a process_scheme \<Rightarrow> nat" where
  "block_pid s = unat (ucast (pid (get_current_pcb s)) :: u8)"

definition stays_inside :: "'a kernel_scheme \<Rightarrow> 'a kernel_scheme \<Rightarrow> bool" where
  "stays_inside s s' \<longleftrightarrow> (confined s \<longrightarrow> confined s' \<and> running_pid s' = running_pid s \<and> procs s' = procs s \<and>
     pid (get_current_pcb s') = pid (get_current_pcb s) \<and> (cr3 s' = cr3 s \<or> cr3 s' = block_pid s) \<and>
     (\<forall>q<8. \<forall>a. q \<noteq> cr3 s \<longrightarrow> q \<noteq> block_pid s \<longrightarrow> in_user_page q a \<longrightarrow> memory s' a = memory s a))"

lemma inside_trans:
  assumes "stays_inside s t" "stays_inside t u"
  shows "stays_inside s u"
proof (cases "confined s")
  case True
  note x = assms(1) [unfolded stays_inside_def, THEN mp, OF True]
  then have "confined t" by blast
  note y = assms(2) [unfolded stays_inside_def, THEN mp, OF this]
  have bp: "block_pid t = block_pid s" using x by (simp add: block_pid_def)
  have "memory u a = memory s a" if "q < 8" "q \<noteq> cr3 s" "q \<noteq> block_pid s" "in_user_page q a" for q a
  proof -
    have "q \<noteq> cr3 t" using x that by auto
    then show ?thesis using x y that by (simp add: bp)
  qed
  moreover have "cr3 u = cr3 s \<or> cr3 u = block_pid s" using x y bp by auto
  ultimately show ?thesis using x y by (simp add: stays_inside_def)
qed (simp add: stays_inside_def)

lemma inside_own:
  assumes "own_page s s'" "only_memory s s'"
  shows "stays_inside s s'"
proof -
  obtain m where s': "s' = s\<lparr>memory := m\<rparr>" using assms(2) unfolding only_memory_def by blast
  show ?thesis using assms(1) by (simp add: stays_inside_def own_page_def s' get_current_pcb_def)
qed

lemma inside_steady:
  assumes "steady s s'" "memory s' = memory s" "running_pid s' = running_pid s" "procs s' = procs s"
    and "pid (get_current_pcb s') = pid (get_current_pcb s)" "cr3 s' = cr3 s \<or> cr3 s' = block_pid s"
  shows "stays_inside s s'"
  using assms by (simp add: stays_inside_def steady_def)

interpretation inside: file_frame "stays_inside :: 'a kernel_scheme \<Rightarrow> 'a kernel_scheme \<Rightarrow> bool"
proof
  fix s s' s1 s2 :: "'a kernel_scheme"
  show "stays_inside s s" by (simp add: stays_inside_def)
  show "stays_inside s s1 \<Longrightarrow> stays_inside s1 s2 \<Longrightarrow> stays_inside s s2" by (rule inside_trans)
  show "stays_inside s s'" if "put_byte dst b s = Some s'" for dst b
    using own_page_write [OF that] only_memory_put_byte [OF that] by (rule inside_own)
  show "stays_inside s (s\<lparr>memory := memmove (memory s) pa (pa + 160) 3840\<rparr>)" if "translate s VIDEO = Some pa" for pa
    using own_page_scroll [OF that] by (rule inside_own) simp
  show "stays_inside s (outb value port s)" for "value" port
    by (rule inside_steady [OF steady.port_law]) (simp_all add: outb_def get_current_pcb_def)
  show "stays_inside s (s\<lparr>int_flag := enabled\<rparr>)" for enabled
    by (rule inside_steady [OF steady.flag_law]) (simp_all add: get_current_pcb_def)
  show "stays_inside s (s\<lparr>screen_x := x, screen_y := y\<rparr>)" for x y
    by (rule inside_steady [OF steady.cursor_law]) (simp_all add: get_current_pcb_def)
  show "stays_inside s (s\<lparr>key_state := k, caps_lock_repeat := c, multi_byte := m, terminal_to_switch_to := n\<rparr>)" for k c m n
    by (rule inside_steady [OF steady.keys_law]) (simp_all add: get_current_pcb_def)
  show "stays_inside s (s\<lparr>dir_read_count := count\<rparr>)" for count
    by (rule inside_steady [OF steady.dir_law]) (simp_all add: get_current_pcb_def)
  show "stays_inside s (update_terminal t f s)" if "\<And>x. vid_mem_buf (f x) = vid_mem_buf x" for t f
    by (rule inside_steady [OF steady.terminal_law [OF that]]) (simp_all add: update_terminal_def get_current_pcb_def)
  show "stays_inside s (s\<lparr>current_terminal := num\<rparr>)" if "num < TERMINAL_NUM" for num
    by (rule inside_steady [OF steady.shown_law [OF that]]) (simp_all add: get_current_pcb_def)
  show "stays_inside s (fst (map_vid_mem (ucast (pid (get_current_pcb s))) va a s))"
    if "a = VIDEO \<or> (\<exists>t. (t < 3 \<or> t = unat (current_terminal s)) \<and> a = vid_mem_buf (terminal_at t s))" for va a
    by (rule inside_steady [OF steady.video_law [OF that]])
      (auto simp: map_vid_mem_def Let_def cli_def sti_def get_current_pcb_def block_pid_def word_le_nat_alt)
  show "stays_inside s (update_fd fd f s)" for fd f
    by (rule inside_steady [OF steady.fd_law]) (simp_all add: update_fd_def update_pcb_def get_current_pcb_def)
qed

subsection \<open>What runs in two address spaces\<close>

lemma used_pid_bound: "q \<in> used_pids u \<Longrightarrow> q < 8"
  by (simp add: used_pids_def)

lemma setup_memory: "setup_pcb frame parent s = Some s' \<Longrightarrow> memory s' = memory s"
  by (auto simp: setup_pcb_def fill_block_def link_block_def terminal_for_new_def new_terminal_def update_pcb_def Let_def
      split: prod.split_asm option.split_asm if_split_asm)

lemma start_process_memory:
  fixes s :: "'a kernel_scheme"
  assumes "start_process frame parent s = Some out" "confined s" "q < 8" "q \<noteq> cr3 s" "q \<noteq> unat (running_pid s)" "in_user_page q a"
  shows "memory (outcome_state out) a = memory s a"
proof -
  obtain s1 n where s1: "file_read_name (cmd_at frame) (entry_at frame) ENTRY_POINT_OFFSET 4 s = Some (s1, n)"
    using assms(1) by (auto simp: start_process_def bind_eq_Some_conv)
  have f1: "confined s1" "memory s1 a = memory s a" "running_pid s1 = running_pid s"
    using own.keeps_read_name [OF s1] assms only_memory_fields [OF only_memory_read_name [OF s1]] by (auto simp: own_page_def)
  obtain s2 r where s2: "make_task_pgdir (running_pid s1) s1 = (s2, r)" by (cases "make_task_pgdir (running_pid s1) s1")
  have f2: "confined s2" "memory s2 = memory s1" "r = 0 \<Longrightarrow> cr3 s2 = unat (running_pid s)"
    using steady_make [OF s2] s2 f1 by (auto simp: steady_def make_task_pgdir_def Let_def split: if_split_asm simp del: upt_rec_numeral)
  have load: "memory s3 a = memory s a" if "file_read_name (cmd_at frame) LOAD_ADDR 0 0 s2 = Some (s3, k)" "r = 0" for s3 k
    using own.keeps_read_name [OF that(1)] f1(2) f2 that(2) assms(3-6) by (auto simp: own_page_def)
  show ?thesis
  proof (cases "n = 4 \<and> r = 0")
    case True
    then show ?thesis using assms(1) s1 s2 load
      by (auto simp: start_process_def bind_eq_Some_conv map_option_eq_Some split: if_split_asm dest!: setup_memory)
  next
    case False
    then have "outcome_state out = sti s1 \<or> outcome_state out = sti s2"
      using assms(1) s1 s2 by (auto simp: start_process_def split: if_split_asm)
    then show ?thesis using f1(2) f2(2) by auto
  qed
qed

lemma execute_memory:
  fixes s :: "'a kernel_scheme"
  assumes "execute frame ucmd s = Some out" "confined s" "q \<in> used_pids (procs s)" "q \<noteq> cr3 s" "in_user_page q a"
  shows "memory (outcome_state out) a = memory s a"
proof -
  have q: "q < 8" using assms(3) by (rule used_pid_bound)
  obtain t where own: "own_page (cli s) t" "only_memory (cli s) t"
    and out: "outcome_state out = sti t \<or> (\<exists>u p. alloc_pid (procs t) = Some (u, p) \<and>
      start_process frame (running_pid s) (t\<lparr>procs := u, running_pid := p\<rparr>) = Some out)"
    using own.keeps_load [OF assms(1)] by metis
  have "confined (cli s)" using steady.keeps_flag(1) [of s] assms(2) by (simp add: steady_def)
  then have t: "confined t" "cr3 t = cr3 s" "memory t a = memory s a" "procs t = procs s"
    using own(1) q assms(4,5) only_memory_fields [OF own(2)] by (auto simp: own_page_def cli_def)
  have "memory (outcome_state out) a = memory t a"
    if "alloc_pid (procs t) = Some (u, p)" "start_process frame (running_pid s) (t\<lparr>procs := u, running_pid := p\<rparr>) = Some out" for u p
  proof -
    have "confined (t\<lparr>procs := u, running_pid := p\<rparr>)"
      using steady_trans [OF steady_process(2) steady_process(3)] t(1) unfolding steady_def by blast
    moreover have "q \<noteq> unat p" using alloc_pid_Some(2) [OF that(1)] t(4) assms(3) by auto
    ultimately show ?thesis using start_process_memory [OF that(2), of q a] q assms(4,5) t(2) by simp
  qed
  then show ?thesis using out t(3) by auto
qed

text \<open>Closing the files of a process changes its own block only.\<close>

lemma close_all_state:
  "\<exists>b. close_all s = s\<lparr>pcbs := b\<rparr> \<and> (\<forall>p. pid (b p) = pid (pcbs s p) \<and> parent_pid (b p) = parent_pid (pcbs s p))"
proof -
  have step: "\<exists>b. fst (sys_close i t) = t\<lparr>pcbs := b\<rparr> \<and> (\<forall>p. pid (b p) = pid (pcbs t p) \<and> parent_pid (b p) = parent_pid (pcbs t p))"
    for i and t :: "'a process_scheme"
  proof -
    have "fst (sys_close i t) = t\<lparr>pcbs := pcbs (fst (sys_close i t))\<rparr>" by (simp add: sys_close_def update_fd_def update_pcb_def)
    moreover have "pid (pcbs (fst (sys_close i t)) p) = pid (pcbs t p) \<and> parent_pid (pcbs (fst (sys_close i t)) p) = parent_pid (pcbs t p)" for p
      by (simp add: sys_close_def update_fd_def update_pcb_def)
    ultimately show ?thesis by blast
  qed
  have "\<exists>b. fold (\<lambda>i s. fst (sys_close (int i) s)) xs t = t\<lparr>pcbs := b\<rparr> \<and>
      (\<forall>p. pid (b p) = pid (pcbs t p) \<and> parent_pid (b p) = parent_pid (pcbs t p))" for xs and t :: "'a process_scheme"
  proof (induction xs arbitrary: t)
    case Nil
    show ?case by (rule exI [of _ "pcbs t"]) simp
  next
    case (Cons i xs)
    obtain b where b: "fst (sys_close (int i) t) = t\<lparr>pcbs := b\<rparr>"
      "\<forall>p. pid (b p) = pid (pcbs t p) \<and> parent_pid (b p) = parent_pid (pcbs t p)" using step by blast
    obtain c where "fold (\<lambda>i s. fst (sys_close (int i) s)) xs (t\<lparr>pcbs := b\<rparr>) = t\<lparr>pcbs := c\<rparr>"
      "\<forall>p. pid (c p) = pid (b p) \<and> parent_pid (c p) = parent_pid (b p)" using Cons.IH [of "t\<lparr>pcbs := b\<rparr>"] by auto
    then show ?case using b by (intro exI [of _ c]) simp
  qed
  then show ?thesis unfolding close_all_def .
qed

lemma halt_to_parent_memory:
  fixes s :: "'a kernel_scheme"
  assumes "halt_to_parent stat term s = Some out"
  shows "memory (outcome_state out) = memory s"
proof -
  have remove: "memory t' = memory t" if "remove_task_pgdir p t = Some (t', r)" for p r and t t' :: "'a kernel_scheme"
    using that by (auto simp: remove_task_pgdir_def Let_def split: if_split_asm)
  have flush: "memory t' = memory t" if "flush_tlb t = Some t'" for t t' :: "'a kernel_scheme"
    using that by (auto simp: flush_tlb_def Let_def split: if_split_asm)
  show ?thesis using assms
    by (auto simp: halt_to_parent_def Let_def bind_eq_Some_conv set_program_exception_def update_pcb_def
        split: option.split_asm dest!: remove flush)
qed

lemma halt_memory:
  fixes s :: "'a kernel_scheme"
  assumes "halt frame stat s = Some out" "confined s" "q \<in> used_pids (procs s)" "q \<noteq> cr3 s" "q \<noteq> block_pid s" "in_user_page q a"
  shows "memory (outcome_state out) a = memory s a"
proof -
  let ?s1 = "case parent_pcb (pcbs s (running_pid s)) of None \<Rightarrow> s | Some q \<Rightarrow> update_pcb q (\<lambda>x. x\<lparr>child_pcb := None\<rparr>) s"
  let ?s2 = "close_all ?s1"
  let ?s3 = "?s2\<lparr>procs := free_pid (pid (pcbs ?s2 (running_pid s))) (procs ?s2)\<rparr>"
  obtain b where b: "?s2 = ?s1\<lparr>pcbs := b\<rparr>" "\<forall>p. pid (b p) = pid (pcbs ?s1 p)" using close_all_state [of ?s1] by blast
  have s1: "memory ?s1 = memory s" "procs ?s1 = procs s" "cr3 ?s1 = cr3 s" "pid (pcbs ?s1 p) = pid (pcbs s p)" for p
    by (simp_all add: update_pcb_def split: option.split)
  have "steady s ?s1" by (simp add: steady_refl steady_process split: option.split)
  then have "steady s ?s3" by (rule steady_trans [OF steady_trans [OF _ steady.keeps_close_all] steady_process(2)])
  then have "confined ?s3" using assms(2) by (simp add: steady_def)
  moreover have own: "pid (pcbs ?s2 (running_pid s)) = pid (get_current_pcb s)"
    using b s1(4) by (simp add: get_current_pcb_def)
  have "unat (pid (get_current_pcb s)) \<noteq> q"
  proof
    assume eq: "unat (pid (get_current_pcb s)) = q"
    then have "unat (ucast (pid (get_current_pcb s)) :: u8) = q"
      using used_pid_bound [OF assms(3)] by (simp add: unsigned_ucast_eq take_bit_eq_mod)
    then show False using assms(5) by (simp add: block_pid_def)
  qed
  then have "q \<in> used_pids (procs ?s3)"
    using b(1) s1(2) own assms(3) by (simp add: used_pids_free)
  moreover have "memory ?s3 = memory s" "cr3 ?s3 = cr3 s" using b(1) s1 by simp_all
  ultimately have s3: "confined ?s3" "q \<in> used_pids (procs ?s3)" "memory ?s3 = memory s" "q \<noteq> cr3 ?s3" using assms(4) by auto
  have restart: "memory (outcome_state out) a = memory s a" if "halt_restart frame term ?s3 = Some out" for "term"
  proof -
    obtain t where run: "execute frame (shell_at frame) (update_terminal (unat (current_terminal ?s3)) (\<lambda>t. t\<lparr>running := 0\<rparr>)
        (?s3\<lparr>tss_esp0 := kernel_stack (term_pid (terminal_at t ?s3))\<rparr>)) = Some out"
      using \<open>halt_restart frame term ?s3 = Some out\<close> by (auto simp: halt_restart_def split: option.split_asm outcome.split_asm)
    have "confined (update_terminal (unat (current_terminal ?s3)) (\<lambda>t. t\<lparr>running := 0\<rparr>)
        (?s3\<lparr>tss_esp0 := kernel_stack (term_pid (terminal_at t ?s3))\<rparr>))"
      using steady_trans [OF steady_process(4) steady_vidmapped(2)] s3(1) unfolding steady_def by blast
    from execute_memory [OF run this, of q a] show ?thesis using s3 assms(6) by (simp add: update_terminal_def)
  qed
  show ?thesis using assms(1) restart halt_to_parent_memory [of stat _ ?s3 out] s3(3)
    by (auto simp: halt_def Let_def bind_eq_Some_conv split: if_split_asm)
qed

subsection \<open>Every step\<close>

lemma inside_kept:
  assumes "stays_inside s t" "confined s" "q < 8" "q \<noteq> cr3 s" "q \<noteq> block_pid s"
  shows "confined t" "procs t = procs s" "q \<noteq> cr3 t" "q \<noteq> block_pid t"
    "in_user_page q a \<Longrightarrow> memory t a = memory s a"
  using assms by (auto simp: stays_inside_def block_pid_def)

lemma exception_memory:
  fixes s :: "'a kernel_scheme"
  assumes "exc_handler frame conv_buf message e pushed s = Some out" "confined s" "q \<in> used_pids (procs s)"
    "q \<noteq> cr3 s" "q \<noteq> block_pid s" "in_user_page q a"
  shows "memory (outcome_state out) a = memory s a"
proof -
  obtain s1 s2 r where steps: "(if exc_clears e then clear s else Some s) = Some s1"
      "printf conv_buf message (int_stack e pushed) s1 = Some (s2, r)"
      "halt frame 1 (set_program_exception 1 s2) = Some out"
    using assms(1) by (auto simp: exc_handler_def bind_eq_Some_conv)
  have "stays_inside s s1" using steps(1) inside.keeps_refl inside.keeps_clear by (auto split: if_split_asm)
  then have in2: "stays_inside s s2" using inside.keeps_printf [OF steps(2)] by (rule inside_trans)
  let ?s3 = "set_program_exception 1 s2"
  have "stays_inside s2 ?s3" unfolding set_program_exception_def
    by (rule inside_steady [OF steady_process(5)]) (simp_all add: get_current_pcb_def)
  with in2 have in3: "stays_inside s ?s3" by (rule inside_trans)
  note k = inside_kept [OF in3 assms(2) used_pid_bound [OF assms(3)] assms(4,5)]
  show ?thesis using halt_memory [OF steps(3) k(1) _ k(3,4) assms(6)] k(2,5) assms(3,6) by simp
qed

lemma timer_memory:
  fixes s :: "'a kernel_scheme"
  assumes "irqh_pit frame esp ebp s = Some t" "confined s" "q \<in> used_pids (procs s)" "q \<noteq> cr3 s" "q \<noteq> block_pid s"
    "in_user_page q a"
  shows "memory (tick_state t) a = memory s a"
proof -
  obtain s1 c where s1: "take_switch s = Some s1" and c: "next_schedule (terminals s1) (schedule_counter s1) = Some c"
    using assms(1) by (auto simp: irqh_pit_def bind_eq_Some_conv)
  let ?s3 = "save_context esp ebp (s1\<lparr>schedule_counter := c, current_schedule := c\<rparr>)"
  have "stays_inside s s1"
    using take_switch_cases [OF s1] inside.keeps_refl inside_trans [OF inside.keeps_switch inside.keeps_keyboard(4)] by blast
  note k = inside_kept [OF this assms(2) used_pid_bound [OF assms(3)] assms(4,5)]
  have resume: "memory (tick_state t) = memory ?s3" if "resume_process c ?s3 = Some t"
    using that by (auto simp: resume_process_def flush_tlb_def Let_def bind_eq_Some_conv map_option_eq_Some set_pid_def split: if_split_asm)
  have start: "memory (outcome_state out) a = memory ?s3 a" if "execute frame cmd (send_eoi PIT_IRQ ?s3) = Some out" for cmd out
  proof -
    have "steady s1 (send_eoi PIT_IRQ ?s3)"
      by (rule steady_trans [OF steady_trans [OF steady_trans [OF steady_schedule(1) steady_schedule(2)] steady_schedule(3)] steady.keeps_eoi])
    then have "confined (send_eoi PIT_IRQ ?s3)" using k(1) by (simp add: steady_def)
    from execute_memory [OF that this, of q a] show ?thesis using k(2,3) assms(3,6)
      by (simp add: save_context_def update_pcb_def send_eoi_def outb_def)
  qed
  have "memory ?s3 = memory s1" by (simp add: save_context_def update_pcb_def)
  then show ?thesis using assms(1) s1 c resume start k(5) [OF assms(6)]
    by (auto simp: irqh_pit_def Let_def split: if_split_asm)
qed

lemma user_store_inside:
  fixes s :: "'a kernel_scheme"
  assumes "user_store va b s = Some s'"
  shows "own_page s s'"
proof -
  obtain pa where "page_walk s va = Some (pa, True)" and s': "s' = s\<lparr>memory := (memory s)(pa := b)\<rparr>"
    using assms by (auto simp: user_store_def split: option.split_asm prod.split_asm bool.split_asm)
  then have "put_byte va b s = Some s'" by (simp add: put_byte_def translate_def)
  then show ?thesis by (rule own_page_write)
qed

lemma step_memory:
  assumes "kernel_step vars s s'" "confined s" "q \<in> used_pids (procs s)" "q \<noteq> cr3 s" "q \<noteq> block_pid s" "in_user_page q a"
  shows "memory s' a = memory s a"
proof -
  note low = used_pid_bound [OF assms(3)]
  have inside: "memory t a = memory s a" if "stays_inside s t" for t
    using inside_kept(5) [OF that assms(2) low assms(4,5,6)] .
  from assms(1) show ?thesis
  proof (cases rule: kernel_step.cases)
    case (system_call env frame type arg1 arg2 arg3 out)
    show ?thesis
    proof (cases "type = 1 \<or> type = 2")
      case True
      then show ?thesis using system_call halt_memory [OF _ assms(2-6)] execute_memory [OF _ assms(2,3,4,6)]
        by (auto simp: irqh_syscall_def)
    next
      case False
      then show ?thesis using inside [OF inside.keeps_call] system_call by blast
    qed
  next
    case (timer frame esp ebp t)
    then show ?thesis using timer_memory assms by blast
  next
    case (key status_byte data_byte)
    then show ?thesis using inside [OF inside.keeps_keypress] by blast
  next
    case clock
    then show ?thesis using inside [OF inside.keeps_tick] by blast
  next
    case (exception frame conv_buf message e pushed out)
    then show ?thesis using exception_memory assms by blast
  next
    case (user va b)
    then show ?thesis using user_store_inside [of va b s s'] assms low by (simp add: own_page_def)
  qed
qed

subsection \<open>When only the running process is concerned\<close>

text \<open>
  The running process's number is the one in its block, and its directory is loaded: then the two excepted
  numbers of \<open>memory_isolation\<close> are the running one.
\<close>

definition settled :: "'a terms_scheme \<Rightarrow> bool" where
  "settled s \<longleftrightarrow> confined s \<and> cr3 s = unat (running_pid s) \<and> pid (get_current_pcb s) = ucast (running_pid s)"

lemma settled_block: "settled s \<Longrightarrow> block_pid s = unat (running_pid s)"
  by (simp add: settled_def block_pid_def)

lemma settled_isolation:
  assumes "kernel_step vars s s'" "settled s" "q \<in> used_pids (procs s)" "q \<noteq> unat (running_pid s)" "in_user_page q a"
  shows "memory s' a = memory s a"
  using step_memory [OF assms(1) _ assms(3) _ _ assms(5)] assms(2,4) settled_block [OF assms(2)] by (simp add: settled_def)

text \<open>
  A program that \<^verbatim>\<open>execute\<close> started is in such a state, and so is the process the
  timer resumes where \<open>turns_ok\<close> holds. A failed \<^verbatim>\<open>execute\<close> may leave another one.
\<close>

lemma execute_settles:
  fixes s :: "'a kernel_scheme"
  assumes "execute frame ucmd s = Some (Enter_user s' e)" "confined s"
  shows "settled s'"
  using assms(1)
proof (cases rule: execute_outcome)
  case (entered t e')
  then have "started frame (running_pid s) s'" by simp
  moreover have "confined s'" using steady_execute [OF assms(1)] assms(2) by (simp add: steady_def)
  ultimately show ?thesis by (auto simp: settled_def started_def fresh_block_def get_current_pcb_def)
qed simp_all

lemma timer_settles:
  fixes s :: "'a kernel_scheme"
  assumes "irqh_pit frame esp ebp s = Some (Switch s' a b)" "confined s" "turns_ok s"
  shows "settled s'"
proof -
  obtain s1 c q where s1: "take_switch s = Some s1" and q: "pid (pcbs s q) = ucast q"
    and s': "s' = resumed_state c q (save_context esp ebp (s1\<lparr>schedule_counter := c, current_schedule := c\<rparr>))"
    using irqh_pit_switch [OF assms(1,3)] by blast
  let ?t = "save_context esp ebp (s1\<lparr>schedule_counter := c, current_schedule := c\<rparr>)"
  have own: "pid (pcbs ?t q) = ucast q"
    using take_switch_keeps [OF s1] q by (auto simp: save_context_def update_pcb_def same_but_cursor_def)
  have "confined s'" using steady_timer [OF assms(1)] assms(2) by (simp add: steady_def)
  then show ?thesis using own by (simp add: settled_def get_current_pcb_def s')
qed

subsection \<open>Property\<close>

text \<open>
  C1: Memory isolation: in every state that the machine reaches from power on, no system call, exception, interrupt or
  store of user code changes a byte in the page of a process in use, whatever its arguments, but the page of the process whose
  directory is loaded and that of the process whose number the current block holds; loading a
  program fills a page that no process had. Both exceptions are the running process itself once a program was started
  (\<open>execute_settles\<close>) or resumed (\<open>timer_settles\<close>); after a failed \<^verbatim>\<open>execute\<close> the running number is the
  leaked one, while the directory is still the caller's.
\<close>

theorem memory_isolation:
  assumes "powered_on mbi s0" "boot_kernel env mbi s0 = Some (First_shell out)"
    and "(kernel_step vars)\<^sup>*\<^sup>* (outcome_state out) s" "kernel_step vars s s'"
    and "q \<in> used_pids (procs s)" "q \<noteq> cr3 s" "q \<noteq> block_pid s" "in_user_page q a"
  shows "memory s' a = memory s a"
proof -
  obtain s2 where "confined s2" "steady s2 (outcome_state out)"
    using boot_kernel_state [OF assms(1,2)] by metis
  then have "confined s" using steady_steps [OF assms(3)] by (simp add: steady_def)
  then show ?thesis by (rule step_memory [OF assms(4) _ assms(5-8)])
qed

text \<open>The shell starts a second shell, which writes to its page; the first one's program is still there.\<close>

lemma memory_isolation_witness:
  "\<exists>s0 s s'. boot_kernel demo_boot 0x9000 cold_computer = Some (First_shell (Enter_user s0 0x8048018)) \<and>
    (kernel_step demo_vars)\<^sup>*\<^sup>* s0 s \<and> used_pids (procs s) = {0, 1} \<and> user_store 0x8000000 7 s = Some s' \<and>
    memory s' 0xC00000 = 7 \<and> memory s' 0x848000 = 0x7F"
proof -
  obtain t s0 where s0: "boot_kernel demo_boot 0x9000 cold_computer = Some (First_shell (Enter_user s0 0x8048018))"
    "loaded demo_frame shell_name [] shell_program 0 t s0" "procs s0 = 0x80" "has_shell s0" "tables_placed s0"
    "tables_placed t" "current_terminal s0 = 0" "terminals s0 = terminals t" "running (terminal_at 0 t) = 1" "length (terminals t) = 3"
    by (rule cold_computer_boots)
  have run0: "running_pid s0 = 0" "pid (pcbs s0 0) = 0" using s0(2) by (simp_all add: loaded_def Let_def)
  have first: "memory s0 0x848000 = 0x7F"
  proof -
    have "bytes_at (memory s0) 0x848000 28 = shell_program"
      using s0(2) shell_program_parts(3) by (simp add: loaded_def Let_def user_page_def)
    from arg_cong [OF this, of "\<lambda>l. l ! 0"] show ?thesis by (simp add: shell_program_def)
  qed
  obtain s where s: "execute demo_frame 0x500400 s0 = Some (Enter_user s 0x8048018)" "procs s = 0xC0"
    "loaded demo_frame shell_name [] shell_program 1 s0 s"
    using shell_starts [OF s0(4,5), of "0xC0" 1] demo_alloc s0(3,7-10) run0 by (auto simp: terminal_at_def)
  have kept: "memory s a = memory s0 a" if "unat a < 0x500000 \<or> 0x600000 \<le> unat a \<and> unat a < 0xC00000" for a
    using s(3) that by (auto simp: loaded_def Let_def demo_frame_def unat_sub_if' user_page_def shell_program_parts(3))
  have "spares demo_vars s0 s" using kept by (auto simp: spares_def demo_vars_def)
  then have "kernel_step demo_vars s0 s"
    using kernel_step.system_call [of undefined demo_frame 2 "0x500400" 0 0 s0 "Enter_user s 0x8048018"] s(1)
    by (simp add: irqh_syscall_def)
  then have steps: "(kernel_step demo_vars)\<^sup>*\<^sup>* (outcome_state (Enter_user s0 0x8048018)) s" by (simp add: r_into_rtranclp)
  let ?s' = "s\<lparr>memory := (memory s)(0xC00000 := 7)\<rparr>"
  have store: "user_store 0x8000000 7 s = Some ?s'" using loaded_store [OF s(3) s0(5), of 7] by (simp add: user_page_def)
  have "spares demo_vars s ?s'" by (auto simp: spares_def demo_vars_def)
  then have step: "kernel_step demo_vars s ?s'" by (rule kernel_step.user [OF store])
  have used: "used_pids (procs s) = {0, 1}" using alloc_pid_Some(3) [OF demo_alloc] alloc_pid_Some(3) [OF alloc_first] s(2)
    by (auto simp: used_pids_def)
  have "cr3 s = 1" "block_pid s = 1" using s(3) by (simp_all add: loaded_def Let_def block_pid_def get_current_pcb_def)
  moreover have "in_user_page 0 0x848000" by (simp add: in_user_page_def user_page_def page_base_def drop_bit_eq_div push_bit_eq_mult)
  ultimately have "memory ?s' 0x848000 = memory s 0x848000"
    using memory_isolation [OF cold_computer_on s0(1) steps step, of 0 "0x848000"] used by simp
  also have "\<dots> = 0x7F" using kept [of "0x848000"] first by simp
  finally show ?thesis using s0(1) steps used store by auto
qed

end
